(* ===== verification/Prelude.thy ===== *)
theory Prelude
  imports Main "HOL-Library.Word" "HOL-Library.AList" "HOL-Library.Char_ord"
    "HOL-Library.List_Lexorder" "HOL-Library.Multiset"
begin

text \<open>
  Shared vocabulary of the development.

  \<^item> Instants and durations of Go's \<^verbatim>\<open>time\<close> package. A \<^verbatim>\<open>time.Time\<close> is the number of
    nanoseconds since the zero time (1 January of year 1, 00:00 UTC), so the zero value is 0,
    \<^verbatim>\<open>IsZero\<close> is \<open>t = 0\<close>, \<^verbatim>\<open>Before\<close>/\<^verbatim>\<open>After\<close>/\<^verbatim>\<open>Equal\<close> are the order of \<open>int\<close> and \<^verbatim>\<open>Add\<close>
    is addition.
  \<^item> Go maps. A map that the code only reads and writes by key is a HOL map; a map that the code
    ranges over is an association list with distinct keys, kept by \<^verbatim>\<open>AList.update\<close> and
    \<^verbatim>\<open>AList.delete\<close>, whose order stands for the (unspecified) iteration order.
  \<^item> Decimal rendering of integers (\<^verbatim>\<open>%d\<close>), and the entries ordered by time and then by ID
    that several comparators of the code sort by.
\<close>

named_theorems broker_simps \<open>unfolding rules for the broker operations\<close>
named_theorems go_map_simps \<open>lookups and keys of updated association lists\<close>

type_synonym time = int
type_synonym duration = int

abbreviation Millisecond :: duration where "Millisecond \<equiv> 1000000"
abbreviation Second :: duration where "Second \<equiv> 1000000000"
abbreviation Minute :: duration where "Minute \<equiv> 60000000000"
abbreviation Hour :: duration where "Hour \<equiv> 3600000000000"

text \<open>\<^verbatim>\<open>t.UnixMilli()\<close>: the Unix epoch is 62135596800 seconds after the zero time.\<close>

definition UnixMilli :: "time \<Rightarrow> int" where
  "UnixMilli t = t div Millisecond - 62135596800000"

section \<open>Decimal rendering\<close>

definition digit_char :: "nat \<Rightarrow> char" where
  "digit_char d = char_of (48 + d)"

fun itoa_nat :: "nat \<Rightarrow> string" where
  "itoa_nat n = (if n < 10 then [digit_char n] else itoa_nat (n div 10) @ [digit_char (n mod 10)])"

declare itoa_nat.simps [simp del]

definition itoa :: "int \<Rightarrow> string" where
  "itoa i = (if i < 0 then CHR ''-'' # itoa_nat (nat (- i)) else itoa_nat (nat i))"

definition digit_val :: "char \<Rightarrow> nat option" where
  "digit_val c = (if 48 \<le> (of_char c :: nat) \<and> (of_char c :: nat) \<le> 57
                  then Some (of_char c - 48) else None)"

section \<open>Entries ordered by time, ties broken by ID\<close>

text \<open>
  The comparator of \<^verbatim>\<open>sort.Slice\<close> in Reap, Promote and DueCron of src/internal/memory: the
  earlier instant first, equal instants by ID.
\<close>

datatype due_entry = Due (due_id: string) (due_at: time)

instantiation due_entry :: linorder
begin

definition less_due_entry :: "due_entry \<Rightarrow> due_entry \<Rightarrow> bool" where
  "a < b \<longleftrightarrow> (if due_at a = due_at b then due_id a < due_id b else due_at a < due_at b)"

definition less_eq_due_entry :: "due_entry \<Rightarrow> due_entry \<Rightarrow> bool" where
  "a \<le> b \<longleftrightarrow> (if due_at a = due_at b then due_id a \<le> due_id b else due_at a < due_at b)"

instance
proof
  fix x y z :: due_entry
  show "x < y \<longleftrightarrow> x \<le> y \<and> \<not> y \<le> x"
    by (auto simp: less_due_entry_def less_eq_due_entry_def)
  show "x \<le> x"
    by (simp add: less_eq_due_entry_def)
  show "x \<le> y \<Longrightarrow> y \<le> z \<Longrightarrow> x \<le> z"
    by (auto simp: less_eq_due_entry_def split: if_splits)
  show "x \<le> y \<Longrightarrow> y \<le> x \<Longrightarrow> x = y"
    by (cases x; cases y) (auto simp: less_eq_due_entry_def split: if_splits)
  show "x \<le> y \<or> y \<le> x"
    by (auto simp: less_eq_due_entry_def)
qed

end

lemma due_entry_le_at: "a \<le> b \<Longrightarrow> due_at a \<le> due_at b"
  by (auto simp: less_eq_due_entry_def split: if_splits)

lemma inj_Due_pair: "inj_on (\<lambda>(k, v). Due k v) A"
  by (auto simp: inj_on_def)

section \<open>Association lists as iterated Go maps\<close>

lemma map_of_update [simp, go_map_simps]:
  "map_of (AList.update k v al) = (map_of al)(k \<mapsto> v)"
  by (rule AList.update_conv')

lemma map_of_delete [simp, go_map_simps]:
  "map_of (AList.delete k al) = (map_of al)(k := None)"
  by (rule AList.delete_conv')

lemma distinct_keys_update [simp, intro]:
  "distinct (map fst al) \<Longrightarrow> distinct (map fst (AList.update k v al))"
  by (rule AList.distinct_update)

lemma distinct_keys_delete [simp, intro]:
  "distinct (map fst al) \<Longrightarrow> distinct (map fst (AList.delete k al))"
  by (rule AList.distinct_delete)

lemma in_keys_iff: "k \<in> fst ` set al \<longleftrightarrow> map_of al k \<noteq> None"
  by (simp add: map_of_eq_None_iff)

lemma pair_in_alist_iff:
  "distinct (map fst al) \<Longrightarrow> (k, v) \<in> set al \<longleftrightarrow> map_of al k = Some v"
  by (metis map_of_eq_Some_iff)

section \<open>Lists\<close>

lemma remove1_distinct_set [simp]:
  "distinct xs \<Longrightarrow> set (remove1 x xs) = set xs - {x}"
  by simp

lemma sort_eq_of_mset: "mset xs = mset ys \<Longrightarrow> sort xs = sort (ys :: 'a::linorder list)"
  by (metis mset_sort sorted_sort sort_key_id_if_sorted properties_for_sort)

lemma sorted_nth_rank:
  fixes x :: "'a :: linorder"
  assumes "sorted xs" and "distinct xs" and "x \<in> set xs"
  shows "card {y \<in> set xs. y < x} < length xs \<and> xs ! card {y \<in> set xs. y < x} = x"
proof -
  from assms(3) obtain k where k: "k < length xs" "xs ! k = x" by (auto simp: in_set_conv_nth)
  have "{y \<in> set xs. y < x} = set (take k xs)"
  proof (intro set_eqI iffI)
    fix y assume "y \<in> {y \<in> set xs. y < x}"
    then obtain l where l: "l < length xs" "xs ! l = y" "y < x" by (auto simp: in_set_conv_nth)
    with k have "l < k" using sorted_nth_mono [OF assms(1), of k l] by (meson not_le_imp_less leD)
    with l k(1) show "y \<in> set (take k xs)" by (auto simp: in_set_conv_nth)
  next
    fix y assume "y \<in> set (take k xs)"
    then obtain l where l: "l < k" "xs ! l = y" by (auto simp: in_set_conv_nth)
    then have "y \<le> x" "y \<noteq> x" using k sorted_nth_mono [OF assms(1), of l k] nth_eq_iff_index_eq [OF assms(2), of l k] by auto
    with l k(1) show "y \<in> {y \<in> set xs. y < x}" by auto
  qed
  then have "card {y \<in> set xs. y < x} = k" using assms(2) k(1) by (simp add: distinct_card)
  with k show ?thesis by simp
qed

lemma count_list_distinct:
  "distinct xs \<Longrightarrow> count_list xs x = (if x \<in> set xs then 1 else 0)"
  by (induction xs) auto

section \<open>Rendering facts\<close>

lemma of_char_digit_char: "d < 10 \<Longrightarrow> of_char (digit_char d) = 48 + d"
  by (simp add: digit_char_def)

lemma digit_val_digit_char [simp]: "d < 10 \<Longrightarrow> digit_val (digit_char d) = Some d"
  by (simp add: digit_val_def of_char_digit_char)

lemma digit_char_inj: "d < 10 \<Longrightarrow> e < 10 \<Longrightarrow> digit_char d = digit_char e \<longleftrightarrow> d = e"
  by (metis digit_val_digit_char option.inject)

lemma itoa_nat_nonempty [simp]: "itoa_nat n \<noteq> []"
  by (subst itoa_nat.simps) simp

lemma itoa_nat_digits: "c \<in> set (itoa_nat n) \<Longrightarrow> \<exists>d < 10. c = digit_char d"
proof (induction n rule: itoa_nat.induct)
  case (1 n)
  show ?case
  proof (cases "n < 10")
    case True
    with "1.prems" show ?thesis by (auto simp: itoa_nat.simps [of n])
  next
    case False
    have "n mod 10 < 10" by simp
    with False "1" show ?thesis by (auto simp: itoa_nat.simps [of n] simp del: mod_less_divisor)
  qed
qed

lemma itoa_nat_inj: "itoa_nat m = itoa_nat n \<Longrightarrow> m = n"
proof (induction m arbitrary: n rule: itoa_nat.induct)
  case (1 m)
  consider (small) "m < 10" "n < 10" | (mixed1) "m < 10" "\<not> n < 10" | (mixed2) "\<not> m < 10" "n < 10"
    | (big) "\<not> m < 10" "\<not> n < 10"
    by blast
  then show ?case
  proof cases
    case small
    with "1.prems" show ?thesis
      by (simp add: itoa_nat.simps [of m] itoa_nat.simps [of n] digit_char_inj)
  next
    case mixed1
    with "1.prems" show ?thesis
      using itoa_nat_nonempty [of "n div 10"]
      by (simp add: itoa_nat.simps [of m] itoa_nat.simps [of n] del: itoa_nat_nonempty)
  next
    case mixed2
    with "1.prems" show ?thesis
      by (simp add: itoa_nat.simps [of m] itoa_nat.simps [of n])
  next
    case big
    with "1.prems" have "itoa_nat (m div 10) = itoa_nat (n div 10)" and "m mod 10 = n mod 10"
      by (simp_all add: itoa_nat.simps [of m] itoa_nat.simps [of n] digit_char_inj)
    with "1.IH" big have "m div 10 = n div 10" and "m mod 10 = n mod 10" by blast+
    then show ?thesis by (metis div_mult_mod_eq)
  qed
qed

lemma digit_char_neq: "d < 10 \<Longrightarrow> of_char c \<notin> {48..57 :: nat} \<Longrightarrow> digit_char d \<noteq> c"
  using of_char_digit_char by fastforce

lemma itoa_nat_no: "of_char c \<notin> {48..57 :: nat} \<Longrightarrow> c \<notin> set (itoa_nat n)"
  using itoa_nat_digits digit_char_neq by blast

lemma itoa_nat_no_minus: "itoa_nat n \<noteq> CHR ''-'' # xs"
  using itoa_nat_no [of "CHR ''-''" n] by auto

lemma itoa_inj:
  assumes "itoa i = itoa k"
  shows "i = k"
proof (cases "i < 0 \<longleftrightarrow> k < 0")
  case True
  with assms show ?thesis
    by (auto simp: itoa_def dest: itoa_nat_inj split: if_splits)
next
  case False
  with assms show ?thesis
    using itoa_nat_no_minus itoa_nat_no_minus [symmetric] by (simp add: itoa_def split: if_splits)
qed

lemma itoa_no_colon: "CHR '':'' \<notin> set (itoa i)"
  using itoa_nat_no [of "CHR '':''"] by (simp add: itoa_def)

end
