(* ===== verification/Job.thy ===== *)
theory Job
  imports Prelude
begin

text \<open>
  The core types of the root package: the lifecycle states and their transition table, the job
  envelope and the task (src/job.go), the sentinel errors (src/errors.go) and the data types of the
  broker interfaces (src/broker.go).

  A \<^verbatim>\<open>[]byte\<close> payload is a byte string or nil, hence a \<open>string option\<close>. An error is the sentinel
  it wraps together with the text that the code adds; \<open>errors_Is\<close> is \<^verbatim>\<open>errors.Is\<close>.
\<close>

section \<open>Errors\<close>

datatype sentinel = ErrNoJob | ErrLeaseLost | ErrDuplicate | ErrJobNotFound | ErrInvalidTask
  | ErrClosed | ErrNoHandler | ErrSkipRetry

datatype error =
    Wrap sentinel string
  | DuplicateError (UniqueKey_of: string) (ExistingID_of: string)
  | Plain string

text \<open>\<open>Unwrap\<close> of \<^verbatim>\<open>fmt.Errorf("%w: ...")\<close> and of \<^verbatim>\<open>DuplicateError\<close>.\<close>

fun Unwrap :: "error \<Rightarrow> sentinel option" where
  "Unwrap (Wrap s _) = Some s"
| "Unwrap (DuplicateError _ _) = Some ErrDuplicate"
| "Unwrap (Plain _) = None"

definition errors_Is :: "error \<Rightarrow> sentinel \<Rightarrow> bool" where
  "errors_Is e s \<longleftrightarrow> Unwrap e = Some s"

section \<open>Lifecycle states\<close>

text \<open>
  \<^verbatim>\<open>State\<close> is a Go string type: \<open>StateNone\<close> is the empty string of a job that has not been enqueued,
  \<open>StateUnknown\<close> any string without a constant.
\<close>

datatype state = StateNone | StateScheduled | StateRetry | StatePending | StateActive
  | StateCompleted | StateDead | StateUnknown string

fun state_String :: "state \<Rightarrow> string" where
  "state_String StateNone = []"
| "state_String StateScheduled = ''scheduled''"
| "state_String StateRetry = ''retry''"
| "state_String StatePending = ''pending''"
| "state_String StateActive = ''active''"
| "state_String StateCompleted = ''completed''"
| "state_String StateDead = ''dead''"
| "state_String (StateUnknown s) = s"

fun validTransitions :: "state \<Rightarrow> state list option" where
  "validTransitions StateNone = Some [StatePending, StateScheduled]"
| "validTransitions StateScheduled = Some [StatePending]"
| "validTransitions StateRetry = Some [StatePending]"
| "validTransitions StatePending = Some [StateActive]"
| "validTransitions StateActive = Some [StateCompleted, StateRetry, StateDead, StatePending]"
| "validTransitions StateCompleted = Some []"
| "validTransitions StateDead = Some [StatePending]"
| "validTransitions (StateUnknown _) = None"

text \<open>Reading a missing key of the Go map gives nil, over which the loop does nothing.\<close>

definition CanTransition :: "state \<Rightarrow> state \<Rightarrow> bool" where
  "CanTransition from to =
     (case validTransitions from of None \<Rightarrow> False | Some ss \<Rightarrow> list_ex (\<lambda>s. s = to) ss)"

definition state_Valid :: "state \<Rightarrow> bool" where
  "state_Valid s \<longleftrightarrow> validTransitions s \<noteq> None \<and> s \<noteq> StateNone"

section \<open>The job envelope\<close>

record job =
  ID :: string
  Queue :: string
  Type :: string
  Payload :: "string option"
  Attempt :: int
  MaxAttempts :: int
  Recoveries :: int
  State :: state
  Owner :: string
  UniqueKey :: string
  UniqueTTL :: duration
  LastErr :: string
  EnqueuedAt :: time
  RunAt :: time
  StartedAt :: time
  Deadline :: time

definition zero_job :: job where
  "zero_job = \<lparr>ID = [], Queue = [], Type = [], Payload = None, Attempt = 0, MaxAttempts = 0,
     Recoveries = 0, State = StateNone, Owner = [], UniqueKey = [], UniqueTTL = 0, LastErr = [],
     EnqueuedAt = 0, RunAt = 0, StartedAt = 0, Deadline = 0\<rparr>"

definition Exhausted :: "job \<Rightarrow> bool" where
  "Exhausted j \<longleftrightarrow> MaxAttempts j \<le> Attempt j"

text \<open>\<^verbatim>\<open>String\<close> of a job, where nil prints as a fixed text.\<close>

definition job_String :: "job option \<Rightarrow> string" where
  "job_String jo = (case jo of
       None \<Rightarrow> ''<nil job>''
     | Some j \<Rightarrow> ''job('' @ ID j @ '' type='' @ Type j @ '' queue='' @ Queue j @ '' state=''
         @ state_String (State j) @ '' attempt='' @ itoa (Attempt j) @ ''/'' @ itoa (MaxAttempts j)
         @ '')'')"

section \<open>Tasks and identifiers\<close>

record task =
  task_Type :: string
  task_Payload :: "string option"

text \<open>
  \<^verbatim>\<open>NewTask\<close>, over the JSON encoder it is given: the payload is nil, or a value that
  \<^verbatim>\<open>json.Marshal\<close> turns into bytes or refuses with an error text.
\<close>

definition NewTask :: "('p \<Rightarrow> string + string) \<Rightarrow> string \<Rightarrow> 'p option \<Rightarrow> error + task" where
  "NewTask marshal taskType payload =
     (if taskType = [] then Inl (Wrap ErrInvalidTask ''task type is empty'')
      else case payload of
          None \<Rightarrow> Inr \<lparr>task_Type = taskType, task_Payload = None\<rparr>
        | Some p \<Rightarrow> (case marshal p of
              Inl err \<Rightarrow> Inl (Plain err)
            | Inr b \<Rightarrow> Inr \<lparr>task_Type = taskType, task_Payload = Some b\<rparr>))"

definition hex_digit :: "nat \<Rightarrow> char" where
  "hex_digit d = (if d < 10 then char_of (48 + d) else char_of (87 + d))"

definition hex_byte :: "char \<Rightarrow> string" where
  "hex_byte c = [hex_digit (of_char c div 16), hex_digit (of_char c mod 16)]"

text \<open>\<^verbatim>\<open>NewID\<close>, given what \<^verbatim>\<open>rand.Read\<close> delivered: an error text (a panic) or sixteen bytes.\<close>

definition NewID :: "string + string \<Rightarrow> string + string" where
  "NewID rnd = (case rnd of
       Inl err \<Rightarrow> Inl (''taskq: crypto/rand unavailable: '' @ err)
     | Inr b \<Rightarrow> Inr (concat (map hex_byte b)))"

section \<open>The data types of the broker interfaces\<close>

record claim_opts =
  WorkerID :: string
  Queues :: "string list"
  VisibilityTimeout :: duration

record worker_info =
  w_ID :: string
  w_Host :: string
  w_PID :: int
  w_Queues :: "string list"
  w_Concurrency :: int
  w_InFlight :: int
  w_StartedAt :: time
  w_LastBeat :: time

record queue_stats =
  qs_Queue :: string
  qs_Pending :: int
  qs_Active :: int
  qs_Scheduled :: int
  qs_Retry :: int

record stats =
  st_Queues :: "(string \<times> queue_stats) list"
  st_Dead :: int
  st_Processed :: int
  st_Failed :: int
  st_Workers :: int

definition DefaultMaxAttempts :: int where
  "DefaultMaxAttempts = 25"

section \<open>Facts\<close>

lemma errors_Is_simps [simp]:
  "errors_Is (Wrap s t) s' \<longleftrightarrow> s = s'"
  "errors_Is (DuplicateError k i) s' \<longleftrightarrow> s' = ErrDuplicate"
  "\<not> errors_Is (Plain t) s'"
  by (auto simp: errors_Is_def)

lemma CanTransition_iff:
  "CanTransition s t \<longleftrightarrow>
     (s = StateNone \<and> (t = StatePending \<or> t = StateScheduled))
   \<or> (s \<in> {StateScheduled, StateRetry, StateDead} \<and> t = StatePending)
   \<or> (s = StatePending \<and> t = StateActive)
   \<or> (s = StateActive \<and> t \<in> {StateCompleted, StateRetry, StateDead, StatePending})"
  by (cases s) (auto simp: CanTransition_def)

lemma hex_digit_inj:
  assumes "d < 16" and "e < 16" and eq: "hex_digit d = hex_digit e"
  shows "d = e"
proof -
  have code: "of_char (hex_digit k) = (if k < 10 then 48 + k else 87 + k)" if "k < 16" for k :: nat
    using that by (simp add: hex_digit_def)
  from eq have "(of_char (hex_digit d) :: nat) = of_char (hex_digit e)" by simp
  with assms(1,2) show ?thesis by (simp add: code split: if_splits)
qed

lemma hex_byte_inj: "hex_byte c = hex_byte c' \<Longrightarrow> c = c'"
proof -
  assume eq: "hex_byte c = hex_byte c'"
  have lt: "of_char x < (256 :: nat)" for x :: char by simp
  then have b: "of_char x div 16 < (16 :: nat)" for x :: char
    by (metis less_mult_imp_div_less mult_numeral_1 numeral_One numeral_times_numeral
        semiring_norm(12,13) num_double)
  from eq b have "(of_char c div 16 :: nat) = of_char c' div 16"
    and "(of_char c mod 16 :: nat) = of_char c' mod 16"
    by (auto simp: hex_byte_def intro: hex_digit_inj)
  then have "(of_char c :: nat) = of_char c'" by (metis div_mult_mod_eq)
  then show "c = c'" by simp
qed

lemma length_hex_bytes: "length (concat (map hex_byte b)) = 2 * length b"
  by (induction b) (auto simp: hex_byte_def)

lemma hex_bytes_inj:
  "concat (map hex_byte a) = concat (map hex_byte b) \<Longrightarrow> a = b"
proof (induction a arbitrary: b)
  case Nil
  then show ?case by (cases b) (auto simp: hex_byte_def)
next
  case (Cons x a)
  then obtain y b' where b: "b = y # b'" by (cases b) (auto simp: hex_byte_def)
  with Cons.prems have "hex_byte x = hex_byte y"
    and "concat (map hex_byte a) = concat (map hex_byte b')"
    by (auto simp: hex_byte_def [of x] hex_byte_def [of y])
  with Cons.IH b show ?case by (auto dest: hex_byte_inj)
qed

end
