(* ===== verification/Lifecycle.thy ===== *)
theory Lifecycle
  imports Job
begin

text \<open>
  The lifecycle that every broker promises, as an abstract labelled transition system on the stored
  jobs, and the interface through which a broker implements it.

  The states are the job envelopes by ID. One label per arrow of the diagram in src/README.md and
  of \<^verbatim>\<open>validTransitions\<close> in src/job.go: a job is enqueued, claimed, renewed, completed, sent to
  retry or buried by its owner, recovered or buried as an orphan once its lease has expired,
  promoted, replayed or purged. The system says nothing about queues, sorted sets or keys: those
  belong to the brokers, which refine it (locale \<open>lifecycle_broker\<close>).
\<close>

type_synonym store = "string \<rightharpoonup> job"

datatype event =
    Enqueued job
  | Claimed string string
  | Renewed string string
  | Completed string string
  | Retried string string
  | Buried string string
  | Recovered string time
  | Orphaned string time
  | Promoted string
  | Replayed string
  | Purged string

fun event_id :: "event \<Rightarrow> string" where
  "event_id (Enqueued j) = ID j"
| "event_id (Claimed i _) = i"
| "event_id (Renewed i _) = i"
| "event_id (Completed i _) = i"
| "event_id (Retried i _) = i"
| "event_id (Buried i _) = i"
| "event_id (Recovered i _) = i"
| "event_id (Orphaned i _) = i"
| "event_id (Promoted i) = i"
| "event_id (Replayed i) = i"
| "event_id (Purged i) = i"

inductive lstep :: "store \<Rightarrow> event \<Rightarrow> store \<Rightarrow> bool" where
  enqueued: "s (ID j) = None \<Longrightarrow> State j \<in> {StatePending, StateScheduled} \<Longrightarrow> Owner j = [] \<Longrightarrow>
     0 < MaxAttempts j \<Longrightarrow> lstep s (Enqueued j) (s(ID j \<mapsto> j))"
| claimed: "s i = Some j \<Longrightarrow> State j = StatePending \<Longrightarrow> w \<noteq> [] \<Longrightarrow> t < d \<Longrightarrow>
     lstep s (Claimed i w) (s(i \<mapsto> j\<lparr>Attempt := Attempt j + 1, State := StateActive, Owner := w,
       StartedAt := t, Deadline := d\<rparr>))"
| renewed: "s i = Some j \<Longrightarrow> State j = StateActive \<Longrightarrow> Owner j = w \<Longrightarrow>
     lstep s (Renewed i w) (s(i \<mapsto> j\<lparr>Deadline := d\<rparr>))"
| completed: "s i = Some j \<Longrightarrow> State j = StateActive \<Longrightarrow> Owner j = w \<Longrightarrow>
     lstep s (Completed i w) (s(i := None))"
| retried: "s i = Some j \<Longrightarrow> State j = StateActive \<Longrightarrow> Owner j = w \<Longrightarrow> \<not> Exhausted j \<Longrightarrow>
     lstep s (Retried i w) (s(i \<mapsto> j\<lparr>State := StateRetry, Owner := [], LastErr := r\<rparr>))"
| buried: "s i = Some j \<Longrightarrow> State j = StateActive \<Longrightarrow> Owner j = w \<Longrightarrow>
     lstep s (Buried i w) (s(i \<mapsto> j\<lparr>State := StateDead, Owner := [], LastErr := r\<rparr>))"
| recovered: "s i = Some j \<Longrightarrow> State j = StateActive \<Longrightarrow> Deadline j \<le> t \<Longrightarrow> \<not> Exhausted j \<Longrightarrow>
     lstep s (Recovered i t) (s(i \<mapsto> j\<lparr>State := StatePending, Owner := [],
       Recoveries := Recoveries j + 1\<rparr>))"
| orphaned: "s i = Some j \<Longrightarrow> State j = StateActive \<Longrightarrow> Deadline j \<le> t \<Longrightarrow> Exhausted j \<Longrightarrow>
     lstep s (Orphaned i t) (s(i \<mapsto> j\<lparr>State := StateDead, Owner := [],
       Recoveries := Recoveries j + 1, LastErr := r\<rparr>))"
| promoted: "s i = Some j \<Longrightarrow> State j \<in> {StateScheduled, StateRetry} \<Longrightarrow>
     lstep s (Promoted i) (s(i \<mapsto> j\<lparr>State := StatePending\<rparr>))"
| replayed: "s i = Some j \<Longrightarrow> State j = StateDead \<Longrightarrow>
     lstep s (Replayed i) (s(i \<mapsto> j\<lparr>State := StatePending, Attempt := 0, Recoveries := 0,
       Owner := []\<rparr>))"
| purged: "s i = Some j \<Longrightarrow> State j = StateDead \<Longrightarrow> lstep s (Purged i) (s(i := None))"

inductive_cases lstep_ClaimedE: "lstep s (Claimed i w) s'"
inductive_cases lstep_CompletedE: "lstep s (Completed i w) s'"

inductive lrun :: "store \<Rightarrow> event list \<Rightarrow> store \<Rightarrow> bool" where
  lrun_Nil: "lrun s [] s"
| lrun_Cons: "lstep s e s' \<Longrightarrow> lrun s' es s'' \<Longrightarrow> lrun s (e # es) s''"

inductive_simps lrun_Nil_iff [simp]: "lrun s [] s'"
inductive_simps lrun_Cons_iff: "lrun s (e # es) s'"

section \<open>Invariants of the abstract lifecycle\<close>

definition live_states :: "state set" where
  "live_states = {StateScheduled, StateRetry, StatePending, StateActive, StateDead}"

definition job_wf :: "string \<Rightarrow> job \<Rightarrow> bool" where
  "job_wf i j \<longleftrightarrow> ID j = i \<and> State j \<in> live_states \<and> 0 < MaxAttempts j
     \<and> (Owner j \<noteq> [] \<longleftrightarrow> State j = StateActive)"

definition store_wf :: "store \<Rightarrow> bool" where
  "store_wf s \<longleftrightarrow> (\<forall>i j. s i = Some j \<longrightarrow> job_wf i j)"

text \<open>
  The attempt budget: a job that can still be claimed has attempts left, and an attempt is only
  consumed within the budget.
\<close>

definition job_budget :: "job \<Rightarrow> bool" where
  "job_budget j \<longleftrightarrow> 0 \<le> Attempt j \<and> Attempt j \<le> MaxAttempts j
     \<and> (State j \<in> {StateScheduled, StateRetry, StatePending} \<longrightarrow> Attempt j < MaxAttempts j)
     \<and> (State j = StateActive \<longrightarrow> 0 < Attempt j)"

definition store_budget :: "store \<Rightarrow> bool" where
  "store_budget s \<longleftrightarrow> (\<forall>i j. s i = Some j \<longrightarrow> job_budget j)"

fun fresh_budget :: "event \<Rightarrow> bool" where
  "fresh_budget (Enqueued j) \<longleftrightarrow> Attempt j = 0"
| "fresh_budget _ \<longleftrightarrow> True"

lemma fresh_budget_iff: "fresh_budget e \<longleftrightarrow> (\<forall>k. e = Enqueued k \<longrightarrow> Attempt k = 0)"
  by (cases e) auto

text \<open>The state of an ID, the empty state when nothing is stored under it.\<close>

definition lstate :: "store \<Rightarrow> string \<Rightarrow> state" where
  "lstate s i = (case s i of None \<Rightarrow> StateNone | Some j \<Rightarrow> State j)"

fun is_claim_of :: "string \<Rightarrow> event \<Rightarrow> bool" where
  "is_claim_of i (Claimed k _) \<longleftrightarrow> i = k"
| "is_claim_of i _ \<longleftrightarrow> False"

definition claims :: "string \<Rightarrow> event list \<Rightarrow> nat" where
  "claims i es = length (filter (is_claim_of i) es)"

lemma claims_simps [simp]:
  "claims i [] = 0"
  "claims i (e # es) = (if is_claim_of i e then 1 else 0) + claims i es"
  "claims i (es @ fs) = claims i es + claims i fs"
  by (auto simp: claims_def)

lemma lrun_append: "lrun s es s' \<Longrightarrow> lrun s' fs s'' \<Longrightarrow> lrun s (es @ fs) s''"
  by (induction rule: lrun.induct) (auto intro: lrun.intros)

lemma lrun_single: "lstep s e s' \<Longrightarrow> lrun s [e] s'"
  by (auto intro: lrun.intros)

lemma lstep_other: "lstep s e s' \<Longrightarrow> i \<noteq> event_id e \<Longrightarrow> s' i = s i"
  by (induction rule: lstep.induct) auto

lemma store_wf_upd [intro]: "store_wf s \<Longrightarrow> job_wf i j \<Longrightarrow> store_wf (s(i \<mapsto> j))"
  by (auto simp: store_wf_def)

lemma store_wf_drop [intro]: "store_wf s \<Longrightarrow> store_wf (s(i := None))"
  by (auto simp: store_wf_def)

lemma store_budget_upd [intro]: "store_budget s \<Longrightarrow> job_budget j \<Longrightarrow> store_budget (s(i \<mapsto> j))"
  by (auto simp: store_budget_def)

lemma store_budget_drop [intro]: "store_budget s \<Longrightarrow> store_budget (s(i := None))"
  by (auto simp: store_budget_def)

lemma store_wfD [dest]: "store_wf s \<Longrightarrow> s i = Some j \<Longrightarrow> job_wf i j"
  by (simp add: store_wf_def)

lemma store_budgetD [dest]: "store_budget s \<Longrightarrow> s i = Some j \<Longrightarrow> job_budget j"
  by (simp add: store_budget_def)

lemma lstep_wf: "lstep s e s' \<Longrightarrow> store_wf s \<Longrightarrow> store_wf s'"
  by (induction rule: lstep.induct)
    ((rule store_wf_upd store_wf_drop, assumption)?; (drule (1) store_wfD)?;
      auto simp: job_wf_def live_states_def)+

lemma lstep_budget:
  "lstep s e s' \<Longrightarrow> fresh_budget e \<Longrightarrow> store_wf s \<Longrightarrow> store_budget s \<Longrightarrow> store_budget s'"
  by (induction rule: lstep.induct)
    ((rule store_budget_upd store_budget_drop, assumption)?; (drule (1) store_budgetD)?;
      (drule (1) store_wfD)?; auto simp: job_budget_def job_wf_def Exhausted_def)+

lemma lrun_wf: "lrun s es s' \<Longrightarrow> store_wf s \<Longrightarrow> store_wf s'"
  by (induction rule: lrun.induct) (auto intro: lstep_wf)

lemma lrun_budget:
  "lrun s es s' \<Longrightarrow> \<forall>e \<in> set es. fresh_budget e \<Longrightarrow> store_wf s \<Longrightarrow> store_budget s \<Longrightarrow> store_budget s'"
  by (induction rule: lrun.induct) (auto intro: lstep_wf lstep_budget)

text \<open>
  Every step moves at most one job, along an arrow of \<^verbatim>\<open>validTransitions\<close>; a job leaves the store
  only when its owner completes it or when it is purged from the dead letters.
\<close>

lemma lstep_legal:
  "lstep s e s' \<Longrightarrow>
     s' i = s i
   \<or> (lstate s' i = lstate s i \<and> s i \<noteq> None \<and> s' i \<noteq> None)
   \<or> (s' i \<noteq> None \<and> CanTransition (lstate s i) (lstate s' i))
   \<or> ((\<exists>w. e = Completed i w) \<and> s' i = None \<and> CanTransition (lstate s i) StateCompleted)
   \<or> (e = Purged i \<and> lstate s i = StateDead \<and> s' i = None)"
  by (induction rule: lstep.induct) (auto simp: lstate_def CanTransition_iff)

lemma lstep_lost: "lstep s e s' \<Longrightarrow> s i = Some j \<Longrightarrow> s' i = None \<Longrightarrow>
    (\<exists>w. e = Completed i w) \<or> e = Purged i"
  by (induction rule: lstep.induct) (auto split: if_splits)

lemma lrun_lost: "lrun s es s' \<Longrightarrow> s i = Some j \<Longrightarrow> s' i = None \<Longrightarrow>
    (\<exists>w. Completed i w \<in> set es) \<or> Purged i \<in> set es"
proof (induction arbitrary: j rule: lrun.induct)
  case (lrun_Nil s)
  then show ?case by simp
next
  case (lrun_Cons s e s' es s'')
  show ?case
  proof (cases "s' i")
    case None
    with lrun_Cons.hyps(1) lrun_Cons.prems(1) show ?thesis by (auto dest: lstep_lost)
  next
    case (Some j')
    with lrun_Cons.IH lrun_Cons.prems(2) show ?thesis by auto
  qed
qed

text \<open>
  Poison pills terminate: without a replay, a stored job is claimed at most as often as it has
  attempts left, whatever else the system does.
\<close>

lemma lstep_absent:
  "lstep s e s' \<Longrightarrow> s i = None \<Longrightarrow> (\<And>k. e = Enqueued k \<Longrightarrow> ID k \<noteq> i) \<Longrightarrow> s' i = None \<and> \<not> is_claim_of i e"
  by (induction rule: lstep.induct) auto

lemma lrun_absent:
  "lrun s es s' \<Longrightarrow> s i = None \<Longrightarrow> \<forall>k. Enqueued k \<in> set es \<longrightarrow> ID k \<noteq> i \<Longrightarrow> claims i es = 0"
proof (induction rule: lrun.induct)
  case (lrun_Cons s e s' es s'')
  then have "s' i = None \<and> \<not> is_claim_of i e" by (auto dest!: lstep_absent [of s e s' i])
  with lrun_Cons show ?case by simp
qed simp

lemma lstep_attempt:
  assumes "lstep s e s'" and "s i = Some j" and "s' i = Some j'" and "e \<noteq> Replayed i"
  shows "Attempt j' = Attempt j + (if is_claim_of i e then 1 else 0) \<and> MaxAttempts j' = MaxAttempts j"
  using assms by (induction rule: lstep.induct) (auto split: if_splits)

lemma lstep_drop_no_claim: "lstep s e s' \<Longrightarrow> s' i = None \<Longrightarrow> \<not> is_claim_of i e"
  by (induction rule: lstep.induct) auto

lemma lrun_claims_bound:
  "lrun s es s' \<Longrightarrow> store_wf s \<Longrightarrow> store_budget s \<Longrightarrow> s i = Some j \<Longrightarrow> Replayed i \<notin> set es \<Longrightarrow>
     \<forall>e \<in> set es. fresh_budget e \<Longrightarrow> \<forall>k. Enqueued k \<in> set es \<longrightarrow> ID k \<noteq> i \<Longrightarrow>
     int (claims i es) \<le> MaxAttempts j - Attempt j"
proof (induction arbitrary: j rule: lrun.induct)
  case (lrun_Nil s)
  then show ?case by (auto simp: job_budget_def dest: store_budgetD)
next
  case (lrun_Cons s e s' es s'')
  note step = lrun_Cons.hyps(1) and prems = lrun_Cons.prems
  have ok: "store_wf s'" "store_budget s'"
    using step prems by (auto intro: lstep_wf lstep_budget)
  show ?case
  proof (cases "s' i")
    case None
    with prems(6) have "claims i es = 0" by (auto intro!: lrun_absent [OF lrun_Cons.hyps(2)])
    moreover from step None have "\<not> is_claim_of i e" by (rule lstep_drop_no_claim)
    moreover from prems(2,3) have "job_budget j" by auto
    ultimately show ?thesis by (simp add: job_budget_def)
  next
    case (Some k)
    have "Attempt k = Attempt j + (if is_claim_of i e then 1 else 0) \<and> MaxAttempts k = MaxAttempts j"
      by (rule lstep_attempt [OF step prems(3) Some]) (use prems(4) in auto)
    moreover have "int (claims i es) \<le> MaxAttempts k - Attempt k"
      by (rule lrun_Cons.IH [OF ok Some]) (use prems in auto)
    ultimately show ?thesis by (simp split: if_splits)
  qed
qed

end
