(* ===== verification/Go_Strings.thy ===== *)
theory Go_Strings
  imports Prelude
begin

text \<open>
  What the sources use of Go's \<^verbatim>\<open>strings\<close>, \<^verbatim>\<open>strconv\<close> and \<^verbatim>\<open>time\<close> packages on text: trimming, splitting,
  lower-casing, \<^verbatim>\<open>ParseUint\<close> and \<^verbatim>\<open>ParseDuration\<close>. Strings are byte strings; white space and letter case are
  those of ASCII, so the additional Unicode white space and letters of Go are not modelled.
\<close>

definition is_space :: "char \<Rightarrow> bool" where
  "is_space c \<longleftrightarrow> (of_char c :: nat) \<in> {9, 10, 11, 12, 13, 32}"

definition TrimSpace :: "string \<Rightarrow> string" where
  "TrimSpace s = rev (dropWhile is_space (rev (dropWhile is_space s)))"

fun split_on :: "(char \<Rightarrow> bool) \<Rightarrow> string \<Rightarrow> string list" where
  "split_on P [] = [[]]"
| "split_on P (c # cs) =
     (if P c then [] # split_on P cs
      else (case split_on P cs of [] \<Rightarrow> [[c]] | w # ws \<Rightarrow> (c # w) # ws))"

definition Fields :: "string \<Rightarrow> string list" where
  "Fields s = filter (\<lambda>w. w \<noteq> []) (split_on is_space s)"

definition lower_char :: "char \<Rightarrow> char" where
  "lower_char c = (if 65 \<le> (of_char c :: nat) \<and> (of_char c :: nat) \<le> 90 then char_of (of_char c + 32 :: nat) else c)"

definition ToLower :: "string \<Rightarrow> string" where
  "ToLower s = map lower_char s"

text \<open>\<^verbatim>\<open>strconv.ParseUint(s, 10, 32)\<close>: only decimal digits, at least one, below \<open>2^32\<close>.\<close>

definition digits_value :: "string \<Rightarrow> nat" where
  "digits_value s = foldl (\<lambda>a c. 10 * a + the (digit_val c)) 0 s"

definition ParseUint32 :: "string \<Rightarrow> nat option" where
  "ParseUint32 s =
     (if s = [] \<or> \<not> list_all (\<lambda>c. digit_val c \<noteq> None) s then None
      else if int (digits_value s) < 2 ^ 32 then Some (digits_value s) else None)"

text \<open>\<^verbatim>\<open>%q\<close> (\<^verbatim>\<open>strconv.Quote\<close>) on ASCII: quotes and backslashes are escaped, control characters written out.\<close>

definition hex_lower :: "nat \<Rightarrow> char" where
  "hex_lower d = (if d < 10 then char_of (48 + d) else char_of (87 + d))"

definition quote_char :: "char \<Rightarrow> string" where
  "quote_char c =
     (let n = of_char c :: nat in
      if n = 34 then [char_of (92 :: nat), c]
      else if n = 92 then [c, c]
      else if 7 \<le> n \<and> n \<le> 13 then [char_of (92 :: nat), ''abtnvfr'' ! (n - 7)]
      else if n < 32 \<or> n = 127 then [char_of (92 :: nat), CHR ''x'', hex_lower (n div 16), hex_lower (n mod 16)]
      else [c])"

definition go_quote :: "string \<Rightarrow> string" where
  "go_quote s = [char_of (34 :: nat)] @ concat (map quote_char s) @ [char_of (34 :: nat)]"

section \<open>ParseDuration\<close>

definition is_digit :: "char \<Rightarrow> bool" where
  "is_digit c \<longleftrightarrow> digit_val c \<noteq> None"

text \<open>\<^verbatim>\<open>leadingInt\<close>: the leading digits as a number of at most \<open>2^63\<close>, and the rest.\<close>

fun leadingInt :: "int \<Rightarrow> string \<Rightarrow> (int \<times> string) option" where
  "leadingInt x [] = Some (x, [])"
| "leadingInt x (c # cs) = (case digit_val c of
       None \<Rightarrow> Some (x, c # cs)
     | Some d \<Rightarrow>
         if 2 ^ 63 div 10 < x then None
         else if 2 ^ 63 < 10 * x + int d then None
         else leadingInt (10 * x + int d) cs)"

text \<open>\<^verbatim>\<open>leadingFraction\<close>: the digits after the point and their scale; digits beyond 63 bits are dropped.\<close>

fun leadingFraction :: "int \<Rightarrow> int \<Rightarrow> bool \<Rightarrow> string \<Rightarrow> int \<times> int \<times> string" where
  "leadingFraction x scale over [] = (x, scale, [])"
| "leadingFraction x scale over (c # cs) = (case digit_val c of
       None \<Rightarrow> (x, scale, c # cs)
     | Some d \<Rightarrow>
         if over \<or> (2 ^ 63 - 1) div 10 < x \<or> 2 ^ 63 < 10 * x + int d then leadingFraction x scale True cs
         else leadingFraction (10 * x + int d) (10 * scale) False cs)"

definition unit_of :: "string \<Rightarrow> int option" where
  "unit_of u = map_of [(''ns'', 1), (''us'', 1000), ([char_of (0xC2 :: nat), char_of (0xB5 :: nat), CHR ''s''], 1000),
     ([char_of (0xCE :: nat), char_of (0xBC :: nat), CHR ''s''], 1000), (''ms'', 1000000), (''s'', 1000000000),
     (''m'', 60000000000), (''h'', 3600000000000)] u"

text \<open>
  The loop over the components of a duration. \<open>fmul f unit scale\<close> is the floating-point product
  \<^verbatim>\<open>float64(f) * (float64(unit) / scale)\<close>, truncated.
\<close>

lemma length_leadingInt: "leadingInt x s = Some (v, r) \<Longrightarrow> length r \<le> length s"
  by (induction x s rule: leadingInt.induct) (fastforce split: option.splits if_splits)+

lemma length_leadingFraction: "leadingFraction x sc ov s = (f, sc', r) \<Longrightarrow> length r \<le> length s"
  by (induction x sc ov s rule: leadingFraction.induct) (fastforce split: option.splits if_splits)+

definition duration_component :: "(int \<Rightarrow> int \<Rightarrow> int \<Rightarrow> int) \<Rightarrow> string \<Rightarrow> (int \<times> string) option" where
  "duration_component fmul s =
     (if \<not> (hd s = CHR ''.'' \<or> is_digit (hd s)) then None
      else case leadingInt 0 s of
          None \<Rightarrow> None
        | Some (v, s1) \<Rightarrow>
            (let pre = length s1 \<noteq> length s;
                 point = s1 \<noteq> [] \<and> hd s1 = CHR ''.'';
                 (f, scale, s2) = (if point then leadingFraction 0 1 False (tl s1) else (0, 1, s1));
                 post = (point \<and> length s2 \<noteq> length (tl s1));
                 u = takeWhile (\<lambda>c. \<not> (c = CHR ''.'' \<or> is_digit c)) s2;
                 s3 = dropWhile (\<lambda>c. \<not> (c = CHR ''.'' \<or> is_digit c)) s2
             in if \<not> pre \<and> \<not> post then None
                else if u = [] then None
                else case unit_of u of
                    None \<Rightarrow> None
                  | Some unit \<Rightarrow>
                      if 2 ^ 63 div unit < v then None
                      else (let v' = v * unit + (if 0 < f then fmul f unit scale else 0)
                            in if 0 < f \<and> 2 ^ 63 < v' then None else Some (v', s3))))"

lemma duration_component_shorter:
  assumes "s \<noteq> []" and "duration_component fmul s = Some (v, r)"
  shows "length r < length s"
proof -
  have dw: "length (dropWhile P xs) < length xs" if "takeWhile P xs \<noteq> []" for P and xs :: string
  proof -
    have "length xs = length (takeWhile P xs) + length (dropWhile P xs)"
      by (metis length_append takeWhile_dropWhile_id)
    with that show ?thesis by (simp add: length_greater_0_conv [symmetric] del: length_greater_0_conv)
  qed
  from assms(2) obtain v1 s1 where s1: "leadingInt 0 s = Some (v1, s1)"
    by (auto simp: duration_component_def split: if_splits option.splits)
  obtain f sc s2 where s2: "(if s1 \<noteq> [] \<and> hd s1 = CHR ''.'' then leadingFraction 0 1 False (tl s1) else (0, 1, s1)) = (f, sc, s2)"
    by (metis prod_cases3)
  have "length s2 \<le> length s1"
    using s2 length_leadingFraction [of 0 1 False "tl s1" f sc s2] by (cases s1) (auto split: if_splits)
  moreover have "length r < length s2"
    using assms(2) s1 s2 dw [of _ s2]
    by (auto simp: duration_component_def Let_def split: if_splits option.splits)
  ultimately show ?thesis using length_leadingInt [OF s1] by simp
qed

function duration_loop :: "(int \<Rightarrow> int \<Rightarrow> int \<Rightarrow> int) \<Rightarrow> string \<Rightarrow> int \<Rightarrow> int option" where
  "duration_loop fmul s d =
     (if s = [] then Some d
      else case duration_component fmul s of
          None \<Rightarrow> None
        | Some (v, r) \<Rightarrow>
            (let d' = (d + v) mod 2 ^ 64 in if 2 ^ 63 < d' then None else duration_loop fmul r d'))"
  by pat_completeness auto
termination
  by (relation "measure (\<lambda>(fmul, s, d). length s)") (auto dest: duration_component_shorter)

declare duration_loop.simps [simp del]

definition ParseDuration :: "(int \<Rightarrow> int \<Rightarrow> int \<Rightarrow> int) \<Rightarrow> string \<Rightarrow> int option" where
  "ParseDuration fmul s =
     (let signed = s \<noteq> [] \<and> (hd s = CHR ''-'' \<or> hd s = CHR ''+'');
          neg = (signed \<and> hd s = CHR ''-'');
          s = (if signed then tl s else s)
      in if s = ''0'' then Some 0
         else if s = [] then None
         else case duration_loop fmul s 0 of
             None \<Rightarrow> None
           | Some d \<Rightarrow> if neg then Some (- d) else if 2 ^ 63 - 1 < d then None else Some d)"

section \<open>Facts\<close>

lemma digits_value_snoc: "digits_value (s @ [c]) = 10 * digits_value s + the (digit_val c)"
  by (simp add: digits_value_def)

lemma digits_value_itoa [simp]: "digits_value (itoa_nat n) = n"
proof (induction n rule: itoa_nat.induct)
  case (1 n)
  show ?case
  proof (cases "n < 10")
    case True
    then show ?thesis by (simp add: itoa_nat.simps [of n] digits_value_def)
  next
    case False
    with "1.IH" show ?thesis by (simp add: itoa_nat.simps [of n] digits_value_snoc)
  qed
qed

lemma itoa_nat_all_digits: "c \<in> set (itoa_nat n) \<Longrightarrow> digit_val c \<noteq> None"
  using itoa_nat_digits by fastforce

lemma ParseUint32_itoa: "int n < 2 ^ 32 \<Longrightarrow> ParseUint32 (itoa_nat n) = Some n"
  using itoa_nat_all_digits by (simp add: ParseUint32_def list_all_iff)

lemma dropWhile_none: "\<forall>c \<in> set s. \<not> P c \<Longrightarrow> dropWhile P s = s"
  by (cases s) auto

lemma TrimSpace_id: "\<forall>c \<in> set s. \<not> is_space c \<Longrightarrow> TrimSpace s = s"
  by (simp add: TrimSpace_def dropWhile_none)

lemma digit_not_space: "digit_val c \<noteq> None \<Longrightarrow> \<not> is_space c"
  by (auto simp: digit_val_def is_space_def)

lemma split_on_nonempty [simp]: "split_on P s \<noteq> []"
  by (induction s) (auto split: list.splits)

lemma split_on_none: "\<forall>c \<in> set s. \<not> P c \<Longrightarrow> split_on P s = [s]"
  by (induction s) auto

lemma split_on_append: "\<forall>c \<in> set w. \<not> P c \<Longrightarrow> P sep \<Longrightarrow> split_on P (w @ sep # s) = w # split_on P s"
  by (induction w) auto

text \<open>\<^verbatim>\<open>strings.Join\<close>, to state what splitting undoes.\<close>

fun join :: "char \<Rightarrow> string list \<Rightarrow> string" where
  "join sep [] = []"
| "join sep [w] = w"
| "join sep (w # v # ws) = w @ sep # join sep (v # ws)"

lemma split_on_join:
  "ws \<noteq> [] \<Longrightarrow> \<forall>w \<in> set ws. \<forall>c \<in> set w. \<not> P c \<Longrightarrow> P sep \<Longrightarrow> split_on P (join sep ws) = ws"
  by (induction sep ws rule: join.induct) (simp_all add: split_on_none split_on_append)

lemma set_join: "set (join sep ws) \<subseteq> insert sep (\<Union>w \<in> set ws. set w)"
  by (induction sep ws rule: join.induct) auto

end
