(* ===== verification/Memory.thy ===== *)
theory Memory
  imports Lifecycle Go_Strings
begin

text \<open>
  The in-process broker, src/internal/memory/memory.go and src/internal/memory/cron.go: its state and
  every method of \<^verbatim>\<open>Broker\<close>, \<^verbatim>\<open>Maintenance\<close>, \<^verbatim>\<open>Inspector\<close> and \<^verbatim>\<open>CronStore\<close>, one definition each.

  Every method holds the one mutex from its first state access to its return, so a method is an
  atomic function from the broker to its result and the new broker; the instant that
  \<^verbatim>\<open>b.clock.Now()\<close> delivers is the argument \<open>now\<close>. Jobs are stored behind pointers that never leave the
  broker (callers get clones), so the model stores them by value. \<^verbatim>\<open>jobs\<close>, \<^verbatim>\<open>pending\<close>, \<^verbatim>\<open>unique\<close> and
  \<^verbatim>\<open>leases\<close> are only accessed by key; \<^verbatim>\<open>active\<close>, \<^verbatim>\<open>scheduled\<close>, \<^verbatim>\<open>retry\<close>, \<^verbatim>\<open>queues\<close>, \<^verbatim>\<open>cron\<close> and \<^verbatim>\<open>workers\<close>
  are ranged over and are association lists.
\<close>

section \<open>State\<close>

record uniqueEntry =
  u_jobID :: string
  u_expiresAt :: time

record leaseEntry =
  l_owner :: string
  l_expiresAt :: time

record workerEntry =
  we_info :: worker_info
  we_expiresAt :: time

record broker =
  closed :: bool
  jobs :: "string \<rightharpoonup> job"
  pending :: "string \<Rightarrow> string list"
  active :: "(string \<times> time) list"
  scheduled :: "(string \<times> time) list"
  retry :: "(string \<times> time) list"
  dead :: "string list"
  queues :: "(string \<times> unit) list"
  cron :: "(string \<times> time) list"
  unique :: "string \<rightharpoonup> uniqueEntry"
  leases :: "string \<rightharpoonup> leaseEntry"
  workers :: "(string \<times> workerEntry) list"
  processed :: int
  failed :: int

definition New :: broker where
  "New = \<lparr>closed = False, jobs = Map.empty, pending = (\<lambda>_. []), active = [], scheduled = [],
     retry = [], dead = [], queues = [], cron = [], unique = Map.empty, leases = Map.empty,
     workers = [], processed = 0, failed = 0\<rparr>"

definition checkOpen :: "broker \<Rightarrow> error option" where
  "checkOpen b = (if closed b then Some (Wrap ErrClosed []) else None)"

section \<open>The hot path: Enqueue, Dequeue, Ack, Nack, Kill, Extend\<close>

text \<open>The job that holds a unique key at \<open>now\<close>, if any.\<close>

definition unique_holder :: "time \<Rightarrow> string \<Rightarrow> broker \<Rightarrow> string option" where
  "unique_holder now key b = (case unique b key of
       None \<Rightarrow> None
     | Some e \<Rightarrow> if now < u_expiresAt e then Some (u_jobID e) else None)"

text \<open>The defaults that Enqueue writes into the caller's job; \<open>newID\<close> is what \<^verbatim>\<open>taskq.NewID()\<close> returns.\<close>

definition enqueue_defaults :: "string \<Rightarrow> time \<Rightarrow> job \<Rightarrow> job" where
  "enqueue_defaults newID now j =
     (let j1 = (if ID j = [] then j\<lparr>ID := newID\<rparr> else j);
          j2 = (if MaxAttempts j1 \<le> 0 then j1\<lparr>MaxAttempts := DefaultMaxAttempts\<rparr> else j1)
      in if EnqueuedAt j2 = 0 then j2\<lparr>EnqueuedAt := now\<rparr> else j2)"

definition enqueue_store :: "time \<Rightarrow> job \<Rightarrow> broker \<Rightarrow> broker" where
  "enqueue_store now j b =
     (let stored = j\<lparr>Owner := []\<rparr>;
          later = now < RunAt stored;
          stored' = (if later then stored\<lparr>State := StateScheduled\<rparr> else stored\<lparr>State := StatePending\<rparr>);
          b1 = (if later then b\<lparr>scheduled := AList.update (ID stored') (RunAt stored') (scheduled b)\<rparr>
                else b\<lparr>pending := (pending b)(Queue stored' := pending b (Queue stored') @ [ID stored'])\<rparr>);
          b2 = b1\<lparr>jobs := (jobs b1)(ID stored' \<mapsto> stored'),
                  queues := AList.update (Queue stored') () (queues b1)\<rparr>;
          ttl = (if UniqueTTL stored' \<le> 0 then Hour else UniqueTTL stored')
      in if UniqueKey stored' \<noteq> []
         then b2\<lparr>unique := (unique b2)(UniqueKey stored' \<mapsto> \<lparr>u_jobID = ID stored', u_expiresAt = now + ttl\<rparr>)\<rparr>
         else b2)"

definition Enqueue :: "string \<Rightarrow> time \<Rightarrow> job option \<Rightarrow> broker \<Rightarrow> error option \<times> job option \<times> broker" where
  "Enqueue newID now jo b = (case jo of
       None \<Rightarrow> (Some (Wrap ErrInvalidTask ''nil job''), None, b)
     | Some j \<Rightarrow>
         if Queue j = [] then (Some (Wrap ErrInvalidTask ''job has no queue''), Some j, b)
         else if Type j = [] then (Some (Wrap ErrInvalidTask ''job has no type''), Some j, b)
         else case checkOpen b of
             Some err \<Rightarrow> (Some err, Some j, b)
           | None \<Rightarrow>
               (case (if UniqueKey j \<noteq> [] then unique_holder now (UniqueKey j) b else None) of
                  Some holder \<Rightarrow> (Some (DuplicateError (UniqueKey j) holder), Some j, b)
                | None \<Rightarrow>
                    (let j' = enqueue_defaults newID now j
                     in (None, Some j', enqueue_store now j' b))))"

fun dequeue_loop :: "time \<Rightarrow> claim_opts \<Rightarrow> string list \<Rightarrow> broker \<Rightarrow> (error + job) \<times> broker" where
  "dequeue_loop now opts [] b = (Inl (Wrap ErrNoJob []), b)"
| "dequeue_loop now opts (q # qs) b = (case pending b q of
       [] \<Rightarrow> dequeue_loop now opts qs b
     | i # ids \<Rightarrow>
         (let b' = b\<lparr>pending := (pending b)(q := ids)\<rparr>
          in case jobs b' i of
               None \<Rightarrow> dequeue_loop now opts qs b'
             | Some j \<Rightarrow>
                 (let j' = j\<lparr>Attempt := Attempt j + 1, State := StateActive, Owner := WorkerID opts,
                             StartedAt := now, Deadline := now + VisibilityTimeout opts\<rparr>
                  in (Inr j', b'\<lparr>jobs := (jobs b')(i \<mapsto> j'),
                                active := AList.update i (Deadline j') (active b')\<rparr>))))"

definition Dequeue :: "time \<Rightarrow> claim_opts \<Rightarrow> broker \<Rightarrow> (error + job) \<times> broker" where
  "Dequeue now opts b =
     (if WorkerID opts = [] then (Inl (Wrap ErrInvalidTask ''empty worker ID''), b)
      else if VisibilityTimeout opts \<le> 0
        then (Inl (Wrap ErrInvalidTask ''visibility timeout must be positive''), b)
      else case checkOpen b of
          Some err \<Rightarrow> (Inl err, b)
        | None \<Rightarrow> dequeue_loop now opts (Queues opts) b)"

definition ownedActive :: "string \<Rightarrow> string \<Rightarrow> broker \<Rightarrow> error + job" where
  "ownedActive workerID jobID b = (case jobs b jobID of
       None \<Rightarrow> Inl (Wrap ErrJobNotFound jobID)
     | Some j \<Rightarrow> if State j \<noteq> StateActive \<or> Owner j \<noteq> workerID then Inl (Wrap ErrLeaseLost
                   (''job '' @ jobID @ '' is '' @ state_String (State j) @ '' owned by '' @ go_quote (Owner j) @ '', not '' @ go_quote workerID))
                 else Inr j)"

definition Ack :: "string \<Rightarrow> string \<Rightarrow> broker \<Rightarrow> error option \<times> broker" where
  "Ack workerID jobID b = (case checkOpen b of
       Some err \<Rightarrow> (Some err, b)
     | None \<Rightarrow> (case ownedActive workerID jobID b of
           Inl err \<Rightarrow> (Some err, b)
         | Inr j \<Rightarrow>
             if \<not> CanTransition (State j) StateCompleted then (Some (Plain (''taskq/memory: cannot complete job '' @ jobID @ '' from state '' @ state_String (State j))), b)
             else (None, b\<lparr>active := AList.delete jobID (active b), jobs := (jobs b)(jobID := None),
                          processed := processed b + 1\<rparr>)))"

text \<open>\<open>moveToDeadLocked i j b\<close>: the job \<open>j\<close>, stored under \<open>i\<close>, is written back as dead.\<close>

definition moveToDeadLocked :: "string \<Rightarrow> job \<Rightarrow> broker \<Rightarrow> broker" where
  "moveToDeadLocked i j b =
     b\<lparr>jobs := (jobs b)(i \<mapsto> j\<lparr>State := StateDead, Owner := []\<rparr>),
       dead := dead b @ [ID j], failed := failed b + 1\<rparr>"

definition Nack :: "string \<Rightarrow> string \<Rightarrow> time \<Rightarrow> string \<Rightarrow> broker \<Rightarrow> error option \<times> broker" where
  "Nack workerID jobID retryAt reason b = (case checkOpen b of
       Some err \<Rightarrow> (Some err, b)
     | None \<Rightarrow> (case ownedActive workerID jobID b of
           Inl err \<Rightarrow> (Some err, b)
         | Inr j \<Rightarrow>
             (let b1 = b\<lparr>active := AList.delete jobID (active b)\<rparr>;
                  j1 = j\<lparr>Owner := [], LastErr := reason\<rparr>
              in if Exhausted j1 then (None, moveToDeadLocked jobID j1 b1)
                 else (None, b1\<lparr>jobs := (jobs b1)(jobID \<mapsto> j1\<lparr>State := StateRetry\<rparr>),
                                retry := AList.update jobID retryAt (retry b1)\<rparr>))))"

definition Kill :: "string \<Rightarrow> string \<Rightarrow> string \<Rightarrow> broker \<Rightarrow> error option \<times> broker" where
  "Kill workerID jobID reason b = (case checkOpen b of
       Some err \<Rightarrow> (Some err, b)
     | None \<Rightarrow> (case ownedActive workerID jobID b of
           Inl err \<Rightarrow> (Some err, b)
         | Inr j \<Rightarrow>
             (None, moveToDeadLocked jobID (j\<lparr>Owner := [], LastErr := reason\<rparr>)
                      (b\<lparr>active := AList.delete jobID (active b)\<rparr>))))"

fun extend_loop :: "time \<Rightarrow> string \<Rightarrow> duration \<Rightarrow> string list \<Rightarrow> string list \<Rightarrow> broker
    \<Rightarrow> string list \<times> broker" where
  "extend_loop now workerID vt [] lost b = (lost, b)"
| "extend_loop now workerID vt (i # ids) lost b = (case ownedActive workerID i b of
       Inl _ \<Rightarrow> extend_loop now workerID vt ids (lost @ [i]) b
     | Inr j \<Rightarrow> extend_loop now workerID vt ids lost
         (b\<lparr>jobs := (jobs b)(i \<mapsto> j\<lparr>Deadline := now + vt\<rparr>),
            active := AList.update i (now + vt) (active b)\<rparr>))"

definition Extend :: "time \<Rightarrow> string \<Rightarrow> string list \<Rightarrow> duration \<Rightarrow> broker
    \<Rightarrow> (error + string list) \<times> broker" where
  "Extend now workerID jobIDs vt b =
     (if vt \<le> 0 then (Inl (Wrap ErrInvalidTask ''visibility timeout must be positive''), b)
      else case checkOpen b of
          Some err \<Rightarrow> (Inl err, b)
        | None \<Rightarrow> (case extend_loop now workerID vt jobIDs [] b of (lost, b') \<Rightarrow> (Inr lost, b')))"

section \<open>Maintenance: Reap, Promote, Heartbeat, leases\<close>

text \<open>
  The candidates of Reap: active entries that have expired, whose job is stored and whose queue is
  wanted (an empty queue list wants every queue).
\<close>

definition reap_candidates :: "time \<Rightarrow> string list \<Rightarrow> broker \<Rightarrow> due_entry list" where
  "reap_candidates now qs b =
     map (\<lambda>(i, deadline). Due i deadline)
       (filter (\<lambda>(i, deadline). \<not> now < deadline \<and>
          (case jobs b i of None \<Rightarrow> False | Some j \<Rightarrow> qs = [] \<or> Queue j \<in> set qs)) (active b))"

definition orphan_reason :: "int \<Rightarrow> string" where
  "orphan_reason n = ''orphaned: lease expired after '' @ itoa n @ '' attempts''"

text \<open>One pass of the loop body. A candidate's job is always stored, so the first branch is never taken.\<close>

definition reap_one :: "due_entry \<Rightarrow> broker \<Rightarrow> broker" where
  "reap_one c b = (case jobs b (due_id c) of
       None \<Rightarrow> b
     | Some j \<Rightarrow>
         (let b1 = b\<lparr>active := AList.delete (due_id c) (active b)\<rparr>;
              j1 = j\<lparr>Owner := [], Recoveries := Recoveries j + 1\<rparr>
          in if Exhausted j1
             then moveToDeadLocked (due_id c)
                    (j1\<lparr>LastErr := orphan_reason (Attempt j1)\<rparr>) b1
             else b1\<lparr>jobs := (jobs b1)(due_id c \<mapsto> j1\<lparr>State := StatePending\<rparr>),
                     pending := (pending b1)(Queue j1 := due_id c # pending b1 (Queue j1))\<rparr>))"

fun reap_loop :: "int \<Rightarrow> due_entry list \<Rightarrow> int \<Rightarrow> broker \<Rightarrow> int \<times> broker" where
  "reap_loop limit [] n b = (n, b)"
| "reap_loop limit (c # cs) n b =
     (if limit \<le> n then (n, b) else reap_loop limit cs (n + 1) (reap_one c b))"

definition Reap :: "time \<Rightarrow> string list \<Rightarrow> int \<Rightarrow> broker \<Rightarrow> (error + int) \<times> broker" where
  "Reap now qs limit b =
     (if limit \<le> 0 then (Inr 0, b)
      else case checkOpen b of
          Some err \<Rightarrow> (Inl err, b)
        | None \<Rightarrow> (case reap_loop limit (sort (reap_candidates now qs b)) 0 b of (n, b') \<Rightarrow> (Inr n, b')))"

datatype which_set = InScheduled | InRetry

definition due_of :: "time \<Rightarrow> which_set \<Rightarrow> (string \<times> time) list \<Rightarrow> (due_entry \<times> which_set) list" where
  "due_of now w m = map (\<lambda>(i, at). (Due i at, w)) (filter (\<lambda>(i, at). \<not> now < at) m)"

definition promote_candidates :: "time \<Rightarrow> broker \<Rightarrow> (due_entry \<times> which_set) list" where
  "promote_candidates now b = due_of now InScheduled (scheduled b) @ due_of now InRetry (retry b)"

fun delete_from :: "which_set \<Rightarrow> string \<Rightarrow> broker \<Rightarrow> broker" where
  "delete_from InScheduled i b = b\<lparr>scheduled := AList.delete i (scheduled b)\<rparr>"
| "delete_from InRetry i b = b\<lparr>retry := AList.delete i (retry b)\<rparr>"

definition promote_job :: "which_set \<Rightarrow> string \<Rightarrow> job \<Rightarrow> broker \<Rightarrow> broker" where
  "promote_job w i j b =
     (let b1 = delete_from w i b
      in b1\<lparr>jobs := (jobs b1)(i \<mapsto> j\<lparr>State := StatePending\<rparr>),
            pending := (pending b1)(Queue j := pending b1 (Queue j) @ [i])\<rparr>)"

fun promote_loop :: "int \<Rightarrow> (due_entry \<times> which_set) list \<Rightarrow> int \<Rightarrow> broker \<Rightarrow> int \<times> broker" where
  "promote_loop limit [] n b = (n, b)"
| "promote_loop limit ((c, w) # cs) n b =
     (if limit \<le> n then (n, b)
      else case jobs b (due_id c) of
          None \<Rightarrow> promote_loop limit cs n (delete_from w (due_id c) b)
        | Some j \<Rightarrow> promote_loop limit cs (n + 1) (promote_job w (due_id c) j b))"

definition Promote :: "time \<Rightarrow> int \<Rightarrow> broker \<Rightarrow> (error + int) \<times> broker" where
  "Promote now limit b =
     (if limit \<le> 0 then (Inr 0, b)
      else case checkOpen b of
          Some err \<Rightarrow> (Inl err, b)
        | None \<Rightarrow> (case promote_loop limit (sort_key fst (promote_candidates now b)) 0 b of
                    (n, b') \<Rightarrow> (Inr n, b')))"

definition Heartbeat :: "time \<Rightarrow> worker_info \<Rightarrow> duration \<Rightarrow> broker \<Rightarrow> error option \<times> broker" where
  "Heartbeat now w ttl b =
     (if w_ID w = [] then (Some (Wrap ErrInvalidTask ''empty worker ID''), b)
      else if ttl \<le> 0 then (Some (Wrap ErrInvalidTask ''heartbeat ttl must be positive''), b)
      else case checkOpen b of
          Some err \<Rightarrow> (Some err, b)
        | None \<Rightarrow> (None, b\<lparr>workers := AList.update (w_ID w)
            \<lparr>we_info = w\<lparr>w_LastBeat := now\<rparr>, we_expiresAt = now + ttl\<rparr> (workers b)\<rparr>))"

definition AcquireLease :: "time \<Rightarrow> string \<Rightarrow> string \<Rightarrow> duration \<Rightarrow> broker \<Rightarrow> (error + bool) \<times> broker" where
  "AcquireLease now name owner ttl b =
     (if name = [] \<or> owner = [] then (Inl (Wrap ErrInvalidTask ''lease name and owner must be non-empty''), b)
      else if ttl \<le> 0 then (Inl (Wrap ErrInvalidTask ''lease ttl must be positive''), b)
      else case checkOpen b of
          Some err \<Rightarrow> (Inl err, b)
        | None \<Rightarrow>
            if (case leases b name of None \<Rightarrow> False
                | Some e \<Rightarrow> now < l_expiresAt e \<and> l_owner e \<noteq> owner)
            then (Inr False, b)
            else (Inr True, b\<lparr>leases := (leases b)(name \<mapsto> \<lparr>l_owner = owner, l_expiresAt = now + ttl\<rparr>)\<rparr>))"

definition ReleaseLease :: "string \<Rightarrow> string \<Rightarrow> broker \<Rightarrow> error option \<times> broker" where
  "ReleaseLease name owner b = (case checkOpen b of
       Some err \<Rightarrow> (Some err, b)
     | None \<Rightarrow> (case leases b name of
           None \<Rightarrow> (None, b)
         | Some e \<Rightarrow> if l_owner e = owner then (None, b\<lparr>leases := (leases b)(name := None)\<rparr>) else (None, b)))"

section \<open>Inspection: Stats, ListDead, RetryDead, PurgeDead, Workers, Close\<close>

definition stats_lookup :: "string \<Rightarrow> (string \<times> queue_stats) list \<Rightarrow> queue_stats" where
  "stats_lookup q m = (case map_of m q of
       None \<Rightarrow> \<lparr>qs_Queue = [], qs_Pending = 0, qs_Active = 0, qs_Scheduled = 0, qs_Retry = 0\<rparr>
     | Some qs \<Rightarrow> qs)"

definition bump :: "broker \<Rightarrow> (queue_stats \<Rightarrow> queue_stats) \<Rightarrow> string \<Rightarrow> (string \<times> queue_stats) list
    \<Rightarrow> (string \<times> queue_stats) list" where
  "bump b f i m = (case jobs b i of
       None \<Rightarrow> m
     | Some j \<Rightarrow> AList.update (Queue j) (f ((stats_lookup (Queue j) m)\<lparr>qs_Queue := Queue j\<rparr>)) m)"

definition Stats :: "time \<Rightarrow> broker \<Rightarrow> error + stats" where
  "Stats now b = (case checkOpen b of
       Some err \<Rightarrow> Inl err
     | None \<Rightarrow>
         (let m0 = fold (\<lambda>(q, _). AList.update q
                     \<lparr>qs_Queue = q, qs_Pending = int (length (pending b q)), qs_Active = 0,
                      qs_Scheduled = 0, qs_Retry = 0\<rparr>) (queues b) [];
              m1 = fold (\<lambda>(i, _). bump b (\<lambda>qs. qs\<lparr>qs_Active := qs_Active qs + 1\<rparr>) i) (active b) m0;
              m2 = fold (\<lambda>(i, _). bump b (\<lambda>qs. qs\<lparr>qs_Scheduled := qs_Scheduled qs + 1\<rparr>) i) (scheduled b) m1;
              m3 = fold (\<lambda>(i, _). bump b (\<lambda>qs. qs\<lparr>qs_Retry := qs_Retry qs + 1\<rparr>) i) (retry b) m2
          in Inr \<lparr>st_Queues = m3, st_Dead = int (length (dead b)), st_Processed = processed b,
                 st_Failed = failed b,
                 st_Workers = int (length (filter (\<lambda>(_, w). now < we_expiresAt w) (workers b)))\<rparr>))"

text \<open>The loop of ListDead, over the IDs in the order its index \<open>i\<close> visits them.\<close>

fun list_dead_loop :: "broker \<Rightarrow> int \<Rightarrow> string list \<Rightarrow> job list \<Rightarrow> job list" where
  "list_dead_loop b limit [] out = out"
| "list_dead_loop b limit (i # ids) out =
     (if int (length out) < limit
      then list_dead_loop b limit ids (case jobs b i of None \<Rightarrow> out | Some j \<Rightarrow> out @ [j])
      else out)"

definition ListDead :: "int \<Rightarrow> int \<Rightarrow> broker \<Rightarrow> error + job list" where
  "ListDead offset limit b =
     (if offset < 0 \<or> limit \<le> 0 then Inr []
      else case checkOpen b of
          Some err \<Rightarrow> Inl err
        | None \<Rightarrow> Inr (list_dead_loop b limit (rev (take (length (dead b) - nat offset) (dead b))) []))"

definition selectDeadLocked :: "string list \<Rightarrow> broker \<Rightarrow> string list" where
  "selectDeadLocked ids b = (if ids = [] then dead b else filter (\<lambda>i. i \<in> set (dead b)) ids)"

definition removeDeadLocked :: "string \<Rightarrow> broker \<Rightarrow> broker" where
  "removeDeadLocked i b = b\<lparr>dead := remove1 i (dead b)\<rparr>"

fun retry_dead_loop :: "string list \<Rightarrow> int \<Rightarrow> broker \<Rightarrow> int \<times> broker" where
  "retry_dead_loop [] n b = (n, b)"
| "retry_dead_loop (i # ids) n b = (case jobs b i of
       None \<Rightarrow> retry_dead_loop ids n b
     | Some j \<Rightarrow>
         (let j' = j\<lparr>State := StatePending, Attempt := 0, Recoveries := 0, Owner := []\<rparr>
          in retry_dead_loop ids (n + 1) (removeDeadLocked i
               (b\<lparr>jobs := (jobs b)(i \<mapsto> j'),
                  pending := (pending b)(Queue j' := pending b (Queue j') @ [i])\<rparr>))))"

definition RetryDead :: "string list \<Rightarrow> broker \<Rightarrow> (error + int) \<times> broker" where
  "RetryDead ids b = (case checkOpen b of
       Some err \<Rightarrow> (Inl err, b)
     | None \<Rightarrow> (case retry_dead_loop (selectDeadLocked ids b) 0 b of (n, b') \<Rightarrow> (Inr n, b')))"

fun purge_dead_loop :: "string list \<Rightarrow> int \<Rightarrow> broker \<Rightarrow> int \<times> broker" where
  "purge_dead_loop [] n b = (n, b)"
| "purge_dead_loop (i # ids) n b = (case jobs b i of
       None \<Rightarrow> purge_dead_loop ids n b
     | Some _ \<Rightarrow> purge_dead_loop ids (n + 1) (removeDeadLocked i (b\<lparr>jobs := (jobs b)(i := None)\<rparr>)))"

definition PurgeDead :: "string list \<Rightarrow> broker \<Rightarrow> (error + int) \<times> broker" where
  "PurgeDead ids b = (case checkOpen b of
       Some err \<Rightarrow> (Inl err, b)
     | None \<Rightarrow> (case purge_dead_loop (selectDeadLocked ids b) 0 b of (n, b') \<Rightarrow> (Inr n, b')))"

definition Workers :: "time \<Rightarrow> broker \<Rightarrow> error + worker_info list" where
  "Workers now b = (case checkOpen b of
       Some err \<Rightarrow> Inl err
     | None \<Rightarrow> Inr (sort_key w_ID
         (map (\<lambda>(_, w). we_info w) (filter (\<lambda>(_, w). now < we_expiresAt w) (workers b)))))"

definition Close :: "broker \<Rightarrow> broker" where
  "Close b = b\<lparr>closed := True\<rparr>"

section \<open>The cron store\<close>

definition ScheduleCronIfAbsent :: "string \<Rightarrow> time \<Rightarrow> broker \<Rightarrow> (error + bool) \<times> broker" where
  "ScheduleCronIfAbsent i at b =
     (if i = [] then (Inl (Wrap ErrInvalidTask ''cron entry has no ID''), b)
      else case checkOpen b of
          Some err \<Rightarrow> (Inl err, b)
        | None \<Rightarrow> (case map_of (cron b) i of
              Some _ \<Rightarrow> (Inr False, b)
            | None \<Rightarrow> (Inr True, b\<lparr>cron := AList.update i at (cron b)\<rparr>)))"

definition DueCron :: "time \<Rightarrow> int \<Rightarrow> broker \<Rightarrow> error + due_entry list" where
  "DueCron now limit b =
     (if limit \<le> 0 then Inr []
      else case checkOpen b of
          Some err \<Rightarrow> Inl err
        | None \<Rightarrow>
            (let out = sort (map (\<lambda>(i, at). Due i at) (filter (\<lambda>(i, at). \<not> now < at) (cron b)))
             in Inr (if limit < int (length out) then take (nat limit) out else out)))"

definition ClaimCron :: "string \<Rightarrow> time \<Rightarrow> time \<Rightarrow> broker \<Rightarrow> (error + bool) \<times> broker" where
  "ClaimCron i firedAt nextAt b = (case checkOpen b of
       Some err \<Rightarrow> (Inl err, b)
     | None \<Rightarrow> (case map_of (cron b) i of
           None \<Rightarrow> (Inr False, b)
         | Some at \<Rightarrow> if at \<noteq> firedAt then (Inr False, b)
                      else (Inr True, b\<lparr>cron := AList.update i nextAt (cron b)\<rparr>)))"

definition RemoveCron :: "string \<Rightarrow> broker \<Rightarrow> error option \<times> broker" where
  "RemoveCron i b = (case checkOpen b of
       Some err \<Rightarrow> (Some err, b)
     | None \<Rightarrow> (None, b\<lparr>cron := AList.delete i (cron b)\<rparr>))"

end
