(* ===== verification/Memory_Wf.thy ===== *)
theory Memory_Wf
  imports Memory
begin

text \<open>
  The representation invariant of the in-process broker and its refinement of the lifecycle.

  \<open>broker_wf\<close> says where every ID is: a stored job is in exactly the container of its state (the ready
  list of its queue, the active map with its own deadline, the scheduled map with its own run-at, the
  retry map, the dead letters) and in no other, and an ID that is not stored is in no container.
  Each operation is shown to keep it, and its effect on the stored jobs to be a run of the abstract
  lifecycle.
\<close>

section \<open>The invariant\<close>

definition shape :: "broker \<Rightarrow> bool" where
  "shape b \<longleftrightarrow> (\<forall>q. distinct (pending b q)) \<and> distinct (map fst (active b))
     \<and> distinct (map fst (scheduled b)) \<and> distinct (map fst (retry b)) \<and> distinct (dead b)
     \<and> distinct (map fst (queues b)) \<and> distinct (map fst (cron b)) \<and> distinct (map fst (workers b))"

definition placed :: "broker \<Rightarrow> string \<Rightarrow> bool" where
  "placed b i \<longleftrightarrow>
     (\<forall>q. i \<in> set (pending b q) \<longleftrightarrow> lstate (jobs b) i = StatePending \<and> Queue (the (jobs b i)) = q)
   \<and> map_of (active b) i
       = (if lstate (jobs b) i = StateActive then Some (Deadline (the (jobs b i))) else None)
   \<and> map_of (scheduled b) i
       = (if lstate (jobs b) i = StateScheduled then Some (RunAt (the (jobs b i))) else None)
   \<and> (map_of (retry b) i \<noteq> None \<longleftrightarrow> lstate (jobs b) i = StateRetry)
   \<and> (i \<in> set (dead b) \<longleftrightarrow> lstate (jobs b) i = StateDead)"

definition known_queues :: "broker \<Rightarrow> bool" where
  "known_queues b \<longleftrightarrow> (\<forall>i j. jobs b i = Some j \<longrightarrow> map_of (queues b) (Queue j) \<noteq> None)"

definition core_wf :: "broker \<Rightarrow> bool" where
  "core_wf b \<longleftrightarrow> shape b \<and> (\<forall>i. placed b i) \<and> known_queues b"

definition broker_wf :: "broker \<Rightarrow> bool" where
  "broker_wf b \<longleftrightarrow> core_wf b \<and> store_wf (jobs b)"

text \<open>How often an ID occurs in the containers of a broker.\<close>

definition occurrences :: "broker \<Rightarrow> string \<Rightarrow> nat" where
  "occurrences b i =
     count_list (concat (map (\<lambda>(q, _). pending b q) (queues b))) i
   + count_list (map fst (active b)) i + count_list (map fst (scheduled b)) i
   + count_list (map fst (retry b)) i + count_list (dead b) i"

section \<open>Moving one job\<close>

definition same_places :: "broker \<Rightarrow> broker \<Rightarrow> string \<Rightarrow> bool" where
  "same_places b b' k \<longleftrightarrow> (\<forall>q. k \<in> set (pending b' q) \<longleftrightarrow> k \<in> set (pending b q))
     \<and> map_of (active b') k = map_of (active b) k \<and> map_of (scheduled b') k = map_of (scheduled b) k
     \<and> map_of (retry b') k = map_of (retry b) k \<and> (k \<in> set (dead b') \<longleftrightarrow> k \<in> set (dead b))"

lemma placed_same:
  "same_places b b' k \<Longrightarrow> jobs b' k = jobs b k \<Longrightarrow> placed b' k = placed b k"
  by (simp add: placed_def same_places_def lstate_def)

lemma core_wf_move:
  assumes "core_wf b" and "jobs b' = (jobs b)(i := x)" and "shape b'" and "placed b' i"
    and "\<And>k. k \<noteq> i \<Longrightarrow> same_places b b' k"
    and "\<And>q. map_of (queues b) q \<noteq> None \<Longrightarrow> map_of (queues b') q \<noteq> None"
    and "\<And>j. x = Some j \<Longrightarrow> map_of (queues b') (Queue j) \<noteq> None"
  shows "core_wf b'"
proof -
  have "placed b' k" for k
  proof (cases "k = i")
    case True
    with assms(4) show ?thesis by simp
  next
    case False
    with assms(2,5) have "placed b' k = placed b k" by (intro placed_same) auto
    with assms(1) show ?thesis by (simp add: core_wf_def)
  qed
  moreover have "known_queues b'"
    using assms(1,2,6,7) by (auto simp: core_wf_def known_queues_def)
  ultimately show ?thesis using assms(3) by (simp add: core_wf_def)
qed

lemma broker_wf_step:
  "broker_wf b \<Longrightarrow> core_wf b' \<Longrightarrow> lstep (jobs b) e (jobs b') \<Longrightarrow> broker_wf b'"
  by (auto simp: broker_wf_def intro: lstep_wf)

lemma broker_wfD:
  assumes "broker_wf b"
  shows "core_wf b" "store_wf (jobs b)" "shape b" "placed b i" "known_queues b"
  using assms by (auto simp: broker_wf_def core_wf_def)

lemma lstate_Some [simp]: "jobs b i = Some j \<Longrightarrow> lstate (jobs b) i = State j"
  by (simp add: lstate_def)

lemma lstate_upd [simp]: "lstate (s(i \<mapsto> j)) i = State j"
  by (simp add: lstate_def)

lemma lstate_drop [simp]: "lstate (s(i := None)) i = StateNone"
  by (simp add: lstate_def)

lemma job_ID: "broker_wf b \<Longrightarrow> jobs b i = Some j \<Longrightarrow> ID j = i"
  by (auto dest!: broker_wfD(2) store_wfD simp: job_wf_def)

lemma job_queue_known: "broker_wf b \<Longrightarrow> jobs b i = Some j \<Longrightarrow> map_of (queues b) (Queue j) \<noteq> None"
  by (auto dest!: broker_wfD(5) simp: known_queues_def)

lemmas move_defs = shape_def placed_def same_places_def

text \<open>Enqueue of a fresh job.\<close>

lemma enqueue_store_wf:
  assumes wf: "broker_wf b" and fresh: "jobs b (ID j) = None" and pos: "0 < MaxAttempts j"
  shows "broker_wf (enqueue_store now j b)
    \<and> (\<exists>j'. lstep (jobs b) (Enqueued j') (jobs (enqueue_store now j b)) \<and> ID j' = ID j
         \<and> Attempt j' = Attempt j \<and> MaxAttempts j' = MaxAttempts j)"
proof -
  let ?st = "if now < RunAt j then StateScheduled else StatePending"
  let ?j = "j\<lparr>Owner := [], State := ?st\<rparr>"
  let ?b = "enqueue_store now j b"
  have js: "jobs ?b = (jobs b)(ID j \<mapsto> ?j)"
    by (simp add: enqueue_store_def Let_def)
  have step: "lstep (jobs b) (Enqueued ?j) (jobs ?b)"
    unfolding js using lstep.enqueued [of "jobs b" ?j] fresh pos by simp
  have p: "placed b (ID j)" and sh: "shape b" using broker_wfD [OF wf] by auto
  have "core_wf ?b"
  proof (rule core_wf_move [OF broker_wfD(1) [OF wf] js])
    show "shape ?b" using p sh fresh
      by (auto simp: enqueue_store_def Let_def move_defs lstate_def)
    show "placed ?b (ID j)" using p fresh
      by (auto simp: enqueue_store_def Let_def move_defs lstate_def)
    show "same_places b ?b k" if "k \<noteq> ID j" for k using that
      by (auto simp: enqueue_store_def Let_def move_defs)
  qed (auto simp: enqueue_store_def Let_def)
  with wf step have "broker_wf ?b" by (blast intro: broker_wf_step)
  with step show ?thesis by (intro conjI exI [of _ ?j]) auto
qed

text \<open>A claim.\<close>

lemma claim_wf:
  fixes w :: string and t d :: time
  assumes wf: "broker_wf b" and q: "pending b q = i # ids" and j: "jobs b i = Some j"
    and w: "w \<noteq> []" "t < d"
  defines "j' \<equiv> j\<lparr>Attempt := Attempt j + 1, State := StateActive, Owner := w, StartedAt := t, Deadline := d\<rparr>"
  defines "b' \<equiv> b\<lparr>pending := (pending b)(q := ids), jobs := (jobs b)(i \<mapsto> j'),
                  active := AList.update i d (active b)\<rparr>"
  shows "broker_wf b' \<and> lstep (jobs b) (Claimed i w) (jobs b')"
proof -
  have p: "placed b i" and sh: "shape b" using broker_wfD [OF wf] by auto
  have "i \<in> set (pending b q)" using q by simp
  with p j have st: "State j = StatePending" "Queue j = q" by (auto simp: placed_def)
  have i: "i \<notin> set ids" using sh q by (auto simp: shape_def dest!: spec [of _ q])
  have step: "lstep (jobs b) (Claimed i w) (jobs b')"
    using lstep.claimed [of "jobs b" i j w t d] j st w by (simp add: b'_def j'_def)
  have "core_wf b'"
  proof (rule core_wf_move [OF broker_wfD(1) [OF wf], of b' i])
    show "shape b'" using sh q by (auto simp: b'_def move_defs dest!: spec [of _ q])
    show "placed b' i" using p j st i by (auto simp: b'_def j'_def move_defs)
    show "same_places b b' k" if "k \<noteq> i" for k using that q by (auto simp: b'_def move_defs)
  qed (use job_queue_known [OF wf j] in \<open>auto simp: b'_def j'_def\<close>)
  with wf step show ?thesis by (blast intro: broker_wf_step)
qed

text \<open>Completion, renewal, retry and burial by the owner of an active job.\<close>

lemma complete_wf:
  assumes wf: "broker_wf b" and j: "jobs b i = Some j" "State j = StateActive"
  defines "b' \<equiv> b\<lparr>active := AList.delete i (active b), jobs := (jobs b)(i := None),
                  processed := processed b + 1\<rparr>"
  shows "broker_wf b' \<and> lstep (jobs b) (Completed i (Owner j)) (jobs b')"
proof -
  have p: "placed b i" and sh: "shape b" using broker_wfD [OF wf] by auto
  have step: "lstep (jobs b) (Completed i (Owner j)) (jobs b')"
    using lstep.completed [of "jobs b" i j] j by (simp add: b'_def)
  have "core_wf b'"
  proof (rule core_wf_move [OF broker_wfD(1) [OF wf], of b' i])
    show "shape b'" using sh by (auto simp: b'_def move_defs)
    show "placed b' i" using p j by (auto simp: b'_def move_defs)
    show "same_places b b' k" if "k \<noteq> i" for k using that by (auto simp: b'_def move_defs)
  qed (auto simp: b'_def)
  with wf step show ?thesis by (blast intro: broker_wf_step)
qed

lemma renew_wf:
  fixes d :: time
  assumes wf: "broker_wf b" and j: "jobs b i = Some j" "State j = StateActive"
  defines "b' \<equiv> b\<lparr>jobs := (jobs b)(i \<mapsto> j\<lparr>Deadline := d\<rparr>), active := AList.update i d (active b)\<rparr>"
  shows "broker_wf b' \<and> lstep (jobs b) (Renewed i (Owner j)) (jobs b')"
proof -
  have p: "placed b i" and sh: "shape b" using broker_wfD [OF wf] by auto
  have step: "lstep (jobs b) (Renewed i (Owner j)) (jobs b')"
    using lstep.renewed [of "jobs b" i j] j by (simp add: b'_def)
  have "core_wf b'"
  proof (rule core_wf_move [OF broker_wfD(1) [OF wf], of b' i])
    show "shape b'" using sh by (auto simp: b'_def move_defs)
    show "placed b' i" using p j by (auto simp: b'_def move_defs)
    show "same_places b b' k" if "k \<noteq> i" for k using that by (auto simp: b'_def move_defs)
  qed (use job_queue_known [OF wf j(1)] in \<open>auto simp: b'_def\<close>)
  with wf step show ?thesis by (blast intro: broker_wf_step)
qed

lemma retry_wf:
  fixes r :: string and at :: time
  assumes wf: "broker_wf b" and j: "jobs b i = Some j" "State j = StateActive" "\<not> Exhausted j"
  defines "b' \<equiv> b\<lparr>active := AList.delete i (active b),
                  jobs := (jobs b)(i \<mapsto> j\<lparr>Owner := [], LastErr := r, State := StateRetry\<rparr>),
                  retry := AList.update i at (retry b)\<rparr>"
  shows "broker_wf b' \<and> lstep (jobs b) (Retried i (Owner j)) (jobs b')"
proof -
  have p: "placed b i" and sh: "shape b" using broker_wfD [OF wf] by auto
  have step: "lstep (jobs b) (Retried i (Owner j)) (jobs b')"
    using lstep.retried [of "jobs b" i j "Owner j" r] j by (cases j) (simp add: b'_def)
  have "core_wf b'"
  proof (rule core_wf_move [OF broker_wfD(1) [OF wf], of b' i])
    show "shape b'" using sh by (auto simp: b'_def move_defs)
    show "placed b' i" using p j by (auto simp: b'_def move_defs)
    show "same_places b b' k" if "k \<noteq> i" for k using that by (auto simp: b'_def move_defs)
  qed (use job_queue_known [OF wf j(1)] in \<open>auto simp: b'_def\<close>)
  with wf step show ?thesis by (blast intro: broker_wf_step)
qed

text \<open>Burial, by the owner or as an orphan: the job \<open>j1\<close> is the active job with its fields edited.\<close>

lemma bury_core:
  assumes wf: "broker_wf b" and j: "jobs b i = Some j" "State j = StateActive"
    and j1: "ID j1 = i" "Queue j1 = Queue j"
  shows "core_wf (moveToDeadLocked i j1 (b\<lparr>active := AList.delete i (active b)\<rparr>))" (is "core_wf ?b")
proof (rule core_wf_move [OF broker_wfD(1) [OF wf], of ?b i])
  have p: "placed b i" and sh: "shape b" using broker_wfD [OF wf] by auto
  show "shape ?b" using sh p j j1 by (auto simp: moveToDeadLocked_def move_defs)
  show "placed ?b i" using p j j1 by (auto simp: moveToDeadLocked_def move_defs)
  show "same_places b ?b k" if "k \<noteq> i" for k using that j1
    by (auto simp: moveToDeadLocked_def move_defs)
qed (use job_queue_known [OF wf j(1)] j1 in \<open>auto simp: moveToDeadLocked_def\<close>)

lemma bury_wf:
  fixes r :: string
  assumes wf: "broker_wf b" and j: "jobs b i = Some j" "State j = StateActive"
  defines "b' \<equiv> moveToDeadLocked i (j\<lparr>Owner := [], LastErr := r\<rparr>) (b\<lparr>active := AList.delete i (active b)\<rparr>)"
  shows "broker_wf b' \<and> lstep (jobs b) (Buried i (Owner j)) (jobs b')"
proof -
  have step: "lstep (jobs b) (Buried i (Owner j)) (jobs b')"
    using lstep.buried [of "jobs b" i j "Owner j" r] j by (cases j) (simp add: b'_def moveToDeadLocked_def)
  moreover have "core_wf b'"
    unfolding b'_def using job_ID [OF wf j(1)] by (intro bury_core [OF wf j]) auto
  ultimately show ?thesis using wf by (blast intro: broker_wf_step)
qed

text \<open>One pass of Reap over an expired entry.\<close>

lemma reap_one_wf:
  fixes d :: time
  assumes wf: "broker_wf b" and j: "jobs b i = Some j" "State j = StateActive" "Deadline j \<le> t"
  defines "b' \<equiv> reap_one (Due i d) b"
  shows "broker_wf b' \<and> lstep (jobs b) (if Exhausted j then Orphaned i t else Recovered i t) (jobs b')"
proof (cases "Exhausted j")
  case True
  then have b': "b' = moveToDeadLocked i (j\<lparr>Owner := [], Recoveries := Recoveries j + 1,
      LastErr := orphan_reason (Attempt j)\<rparr>)
      (b\<lparr>active := AList.delete i (active b)\<rparr>)"
    using j by (simp add: b'_def reap_one_def Exhausted_def)
  have "lstep (jobs b) (Orphaned i t) (jobs b')"
    using lstep.orphaned [of "jobs b" i j t "orphan_reason (Attempt j)"] j True
    by (cases j) (simp add: b' moveToDeadLocked_def)
  moreover have "core_wf b'"
    unfolding b' using job_ID [OF wf j(1)] by (intro bury_core [OF wf j(1,2)]) auto
  ultimately show ?thesis using wf True by (auto intro: broker_wf_step)
next
  case False
  have p: "placed b i" and sh: "shape b" using broker_wfD [OF wf] by auto
  from False j have b': "b' = b\<lparr>active := AList.delete i (active b),
      jobs := (jobs b)(i \<mapsto> j\<lparr>Owner := [], Recoveries := Recoveries j + 1, State := StatePending\<rparr>),
      pending := (pending b)(Queue j := i # pending b (Queue j))\<rparr>"
    by (simp add: b'_def reap_one_def Exhausted_def)
  have "lstep (jobs b) (Recovered i t) (jobs b')"
    using lstep.recovered [of "jobs b" i j t] j False by (cases j) (simp add: b')
  moreover have "core_wf b'"
  proof (rule core_wf_move [OF broker_wfD(1) [OF wf], of b' i])
    show "shape b'" using sh p j by (auto simp: b' move_defs)
    show "placed b' i" using p j by (auto simp: b' move_defs)
    show "same_places b b' k" if "k \<noteq> i" for k using that by (auto simp: b' move_defs)
  qed (use job_queue_known [OF wf j(1)] in \<open>auto simp: b'\<close>)
  ultimately show ?thesis using wf False by (auto intro: broker_wf_step)
qed

text \<open>Promotion of one due job out of the set that holds it.\<close>

fun set_state :: "which_set \<Rightarrow> state" where
  "set_state InScheduled = StateScheduled"
| "set_state InRetry = StateRetry"

lemma promote_job_wf:
  assumes wf: "broker_wf b" and j: "jobs b i = Some j" "State j = set_state w"
  shows "broker_wf (promote_job w i j b) \<and> lstep (jobs b) (Promoted i) (jobs (promote_job w i j b))"
proof -
  let ?b = "promote_job w i j b"
  have p: "placed b i" and sh: "shape b" using broker_wfD [OF wf] by auto
  have js: "jobs ?b = (jobs b)(i \<mapsto> j\<lparr>State := StatePending\<rparr>)"
    by (cases w) (auto simp: promote_job_def Let_def)
  have step: "lstep (jobs b) (Promoted i) (jobs ?b)"
    unfolding js using lstep.promoted [of "jobs b" i j] j by (cases w) auto
  have "core_wf ?b"
  proof (rule core_wf_move [OF broker_wfD(1) [OF wf] js])
    show "shape ?b" using sh p j by (cases w) (auto simp: promote_job_def Let_def move_defs)
    show "placed ?b i" using p j by (cases w) (auto simp: promote_job_def Let_def move_defs)
    show "same_places b ?b k" if "k \<noteq> i" for k using that
      by (cases w) (auto simp: promote_job_def Let_def move_defs)
  qed (use job_queue_known [OF wf j(1)] in \<open>(cases w; auto simp: promote_job_def Let_def)+\<close>)
  with wf step show ?thesis by (blast intro: broker_wf_step)
qed

text \<open>Replay and purge of one dead letter.\<close>

lemma replay_wf:
  assumes wf: "broker_wf b" and j: "jobs b i = Some j" "State j = StateDead"
  defines "b' \<equiv> removeDeadLocked i (b\<lparr>jobs := (jobs b)(i \<mapsto> j\<lparr>State := StatePending, Attempt := 0,
                  Recoveries := 0, Owner := []\<rparr>),
                  pending := (pending b)(Queue j := pending b (Queue j) @ [i])\<rparr>)"
  shows "broker_wf b' \<and> lstep (jobs b) (Replayed i) (jobs b')"
proof -
  have p: "placed b i" and sh: "shape b" using broker_wfD [OF wf] by auto
  have step: "lstep (jobs b) (Replayed i) (jobs b')"
    using lstep.replayed [of "jobs b" i j] j by (simp add: b'_def removeDeadLocked_def)
  have "core_wf b'"
  proof (rule core_wf_move [OF broker_wfD(1) [OF wf], of b' i])
    show "shape b'" using sh p j by (auto simp: b'_def removeDeadLocked_def move_defs)
    show "placed b' i" using p j sh by (auto simp: b'_def removeDeadLocked_def move_defs)
    show "same_places b b' k" if "k \<noteq> i" for k using that
      by (auto simp: b'_def removeDeadLocked_def move_defs)
  qed (use job_queue_known [OF wf j(1)] in \<open>auto simp: b'_def removeDeadLocked_def\<close>)
  with wf step show ?thesis by (blast intro: broker_wf_step)
qed

lemma purge_wf:
  assumes wf: "broker_wf b" and j: "jobs b i = Some j" "State j = StateDead"
  defines "b' \<equiv> removeDeadLocked i (b\<lparr>jobs := (jobs b)(i := None)\<rparr>)"
  shows "broker_wf b' \<and> lstep (jobs b) (Purged i) (jobs b')"
proof -
  have p: "placed b i" and sh: "shape b" using broker_wfD [OF wf] by auto
  have step: "lstep (jobs b) (Purged i) (jobs b')"
    using lstep.purged [of "jobs b" i j] j by (simp add: b'_def removeDeadLocked_def)
  have "core_wf b'"
  proof (rule core_wf_move [OF broker_wfD(1) [OF wf], of b' i])
    show "shape b'" using sh p j by (auto simp: b'_def removeDeadLocked_def move_defs)
    show "placed b' i" using p j sh by (auto simp: b'_def removeDeadLocked_def move_defs)
    show "same_places b b' k" if "k \<noteq> i" for k using that
      by (auto simp: b'_def removeDeadLocked_def move_defs)
  qed (auto simp: b'_def removeDeadLocked_def)
  with wf step show ?thesis by (blast intro: broker_wf_step)
qed

end
