(* ===== verification/Broker_Interface.thy ===== *)
theory Broker_Interface
  imports Lifecycle
begin

text \<open>
  The contract between a broker and its clients (the interfaces \<^verbatim>\<open>Broker\<close>, \<^verbatim>\<open>Maintenance\<close> and
  \<^verbatim>\<open>Inspector\<close> of src/broker.go), as a locale. A broker offers operations \<open>exec\<close> on its state, an
  invariant, the jobs it stores and which job an operation hands to which worker; the law is that
  every admissible operation keeps the invariant and acts on the stored jobs as a run of the abstract
  lifecycle. What clients rely on is proved here once, for every broker.
\<close>

section \<open>Runs of operations\<close>

fun run :: "('op \<Rightarrow> 'b \<Rightarrow> 'b) \<Rightarrow> 'op list \<Rightarrow> 'b \<Rightarrow> 'b" where
  "run exec [] b = b"
| "run exec (p # ops) b = run exec ops (exec p b)"

fun run_ok :: "('op \<Rightarrow> 'b \<Rightarrow> bool) \<Rightarrow> ('op \<Rightarrow> 'b \<Rightarrow> 'b) \<Rightarrow> 'op list \<Rightarrow> 'b \<Rightarrow> bool" where
  "run_ok ok exec [] b \<longleftrightarrow> True"
| "run_ok ok exec (p # ops) b \<longleftrightarrow> ok p b \<and> run_ok ok exec ops (exec p b)"

text \<open>The hand-outs of a run: the job and the worker of every successful claim, in order.\<close>

fun handouts :: "('op \<Rightarrow> 'b \<Rightarrow> (string \<times> string) option) \<Rightarrow> ('op \<Rightarrow> 'b \<Rightarrow> 'b) \<Rightarrow> 'op list \<Rightarrow> 'b
    \<Rightarrow> (string \<times> string) list" where
  "handouts given exec [] b = []"
| "handouts given exec (p # ops) b =
     (case given p b of None \<Rightarrow> [] | Some d \<Rightarrow> [d]) @ handouts given exec ops (exec p b)"

fun event_handout :: "event \<Rightarrow> (string \<times> string) option" where
  "event_handout (Claimed i w) = Some (i, w)"
| "event_handout _ = None"

definition event_handouts :: "event list \<Rightarrow> (string \<times> string) list" where
  "event_handouts es = List.map_filter event_handout es"

lemma event_handouts_simps [simp]:
  "event_handouts [] = []"
  "event_handouts (e # es) = (case event_handout e of None \<Rightarrow> [] | Some d \<Rightarrow> [d]) @ event_handouts es"
  "event_handouts (es @ fs) = event_handouts es @ event_handouts fs"
  by (auto simp: event_handouts_def map_filter_simps map_filter_def split: option.splits)

lemma claims_eq_handouts: "claims i es = length (filter (\<lambda>d. fst d = i) (event_handouts es))"
proof (induction es)
  case (Cons e es)
  then show ?case by (cases e) auto
qed simp

text \<open>A job that a run loses disappears at one operation of the run.\<close>

lemma run_loss_point:
  "jobs_of b i = Some j \<Longrightarrow> jobs_of (run exec ops b) i = None \<Longrightarrow>
     \<exists>pre p post k. ops = pre @ p # post \<and> jobs_of (run exec pre b) i = Some k \<and> jobs_of (exec p (run exec pre b)) i = None"
proof (induction ops arbitrary: b j)
  case (Cons p ops)
  show ?case
  proof (cases "jobs_of (exec p b) i")
    case None
    then show ?thesis using Cons.prems(1) by (intro exI [of _ "[]"] exI [of _ p] exI [of _ ops] exI [of _ j]) simp
  next
    case (Some k)
    with Cons.IH [OF Some] Cons.prems(2) obtain pre p' post k' where "ops = pre @ p' # post" "jobs_of (run exec pre (exec p b)) i = Some k'"
      "jobs_of (exec p' (run exec pre (exec p b))) i = None" by auto
    then show ?thesis by (intro exI [of _ "p # pre"] exI [of _ p'] exI [of _ post] exI [of _ k']) simp
  qed
qed simp

lemma run_append: "run exec (xs @ ys) b = run exec ys (run exec xs b)"
  by (induction xs arbitrary: b) auto

section \<open>Simulation\<close>

text \<open>
  From \<open>b\<close> to \<open>b'\<close> the stored jobs follow a run of the lifecycle whose events satisfy \<open>al\<close> and whose
  claims are \<open>ds\<close>, and the invariant holds at the end.
\<close>

definition simulates :: "('b \<Rightarrow> store) \<Rightarrow> ('b \<Rightarrow> bool) \<Rightarrow> (event \<Rightarrow> bool) \<Rightarrow> (string \<times> string) list \<Rightarrow> 'b \<Rightarrow> 'b \<Rightarrow> bool" where
  "simulates jobs_of invar al ds b b' \<longleftrightarrow> invar b'
     \<and> (\<exists>es. lrun (jobs_of b) es (jobs_of b') \<and> (\<forall>e \<in> set es. al e) \<and> event_handouts es = ds)"

lemma simulates_same: "invar b' \<Longrightarrow> jobs_of b' = jobs_of b \<Longrightarrow> simulates jobs_of invar al [] b b'"
  unfolding simulates_def by (auto intro!: exI [of _ "[]"])

lemma simulates_refl [simp]: "invar b \<Longrightarrow> simulates jobs_of invar al [] b b"
  by (rule simulates_same) simp_all

lemma simulates_step:
  "invar b' \<and> lstep (jobs_of b) e (jobs_of b') \<Longrightarrow> al e \<Longrightarrow>
     simulates jobs_of invar al (case event_handout e of None \<Rightarrow> [] | Some d \<Rightarrow> [d]) b b'"
  unfolding simulates_def by (auto intro!: exI [of _ "[e]"] lrun_single)

lemma simulates_step_silent:
  "invar b' \<and> lstep (jobs_of b) e (jobs_of b') \<Longrightarrow> al e \<Longrightarrow> event_handout e = None \<Longrightarrow> simulates jobs_of invar al [] b b'"
  using simulates_step [of invar b' jobs_of b e al] by simp

lemma simulates_trans:
  assumes "simulates jobs_of invar al ds b b'" and "simulates jobs_of invar al ds' b' b''"
  shows "simulates jobs_of invar al (ds @ ds') b b''"
proof -
  from assms obtain es fs where "lrun (jobs_of b) es (jobs_of b')" "\<forall>e \<in> set es. al e"
      "event_handouts es = ds" and "lrun (jobs_of b') fs (jobs_of b'')" "\<forall>e \<in> set fs. al e"
      "event_handouts fs = ds'"
    by (auto simp: simulates_def)
  then have "lrun (jobs_of b) (es @ fs) (jobs_of b'') \<and> (\<forall>e \<in> set (es @ fs). al e)
      \<and> event_handouts (es @ fs) = ds @ ds'"
    by (auto intro: lrun_append)
  with assms(2) show ?thesis unfolding simulates_def by blast
qed

lemma simulates_trans_silent:
  "simulates jobs_of invar al [] b b' \<Longrightarrow> simulates jobs_of invar al [] b' b'' \<Longrightarrow> simulates jobs_of invar al [] b b''"
  using simulates_trans [of jobs_of invar al "[]" b b' "[]"] by simp

lemma simulates_invar: "simulates jobs_of invar al ds b b' \<Longrightarrow> invar b'"
  by (simp add: simulates_def)

lemma run_ok_append: "run_ok ok exec (xs @ ys) b \<longleftrightarrow> run_ok ok exec xs b \<and> run_ok ok exec ys (run exec xs b)"
  by (induction xs arbitrary: b) auto

section \<open>The contract\<close>

locale lifecycle_broker =
  fixes exec :: "'op \<Rightarrow> 'b \<Rightarrow> 'b"
    and jobs_of :: "'b \<Rightarrow> store"
    and invar :: "'b \<Rightarrow> bool"
    and admissible :: "'op \<Rightarrow> 'b \<Rightarrow> bool"
    and allowed :: "'op \<Rightarrow> event \<Rightarrow> bool"
    and given :: "'op \<Rightarrow> 'b \<Rightarrow> (string \<times> string) option"
  assumes exec_refines: "invar b \<Longrightarrow> admissible p b \<Longrightarrow>
      \<exists>es. lrun (jobs_of b) es (jobs_of (exec p b)) \<and> (\<forall>e \<in> set es. allowed p e)
         \<and> event_handouts es = (case given p b of None \<Rightarrow> [] | Some d \<Rightarrow> [d])"
    and exec_invar: "invar b \<Longrightarrow> admissible p b \<Longrightarrow> invar (exec p b)"
    and invar_store: "invar b \<Longrightarrow> store_wf (jobs_of b)"
begin

lemma run_invar: "invar b \<Longrightarrow> run_ok admissible exec ops b \<Longrightarrow> invar (run exec ops b)"
  by (induction ops arbitrary: b) (auto intro: exec_invar)

lemma run_refines:
  "invar b \<Longrightarrow> run_ok admissible exec ops b \<Longrightarrow>
     \<exists>es. lrun (jobs_of b) es (jobs_of (run exec ops b)) \<and> (\<forall>e \<in> set es. \<exists>p \<in> set ops. allowed p e)
        \<and> event_handouts es = handouts given exec ops b"
proof (induction ops arbitrary: b)
  case Nil
  then show ?case by (intro exI [of _ "[]"]) simp
next
  case (Cons p ops)
  then have inv: "invar (exec p b)" by (auto intro: exec_invar)
  from Cons.prems obtain es where es: "lrun (jobs_of b) es (jobs_of (exec p b))"
      "\<forall>e \<in> set es. allowed p e" "event_handouts es = (case given p b of None \<Rightarrow> [] | Some d \<Rightarrow> [d])"
    using exec_refines [of b p] by auto
  from Cons.IH [OF inv] Cons.prems obtain fs where fs:
      "lrun (jobs_of (exec p b)) fs (jobs_of (run exec ops (exec p b)))"
      "\<forall>e \<in> set fs. \<exists>p \<in> set ops. allowed p e"
      "event_handouts fs = handouts given exec ops (exec p b)"
    by auto
  from es fs show ?case
    by (intro exI [of _ "es @ fs"]) (auto intro: lrun_append)
qed

text \<open>A job that disappears was completed or purged by an operation of the run.\<close>

lemma run_no_loss:
  assumes "invar b" and "run_ok admissible exec ops b"
    and "jobs_of b i = Some j" and "jobs_of (run exec ops b) i = None"
  shows "\<exists>p \<in> set ops. (\<exists>w. allowed p (Completed i w)) \<or> allowed p (Purged i)"
proof -
  from run_refines [OF assms(1,2)] obtain es where
      "lrun (jobs_of b) es (jobs_of (run exec ops b))" and al: "\<forall>e \<in> set es. \<exists>p \<in> set ops. allowed p e"
    by blast
  with assms(3,4) have "(\<exists>w. Completed i w \<in> set es) \<or> Purged i \<in> set es"
    by (auto dest: lrun_lost)
  with al show ?thesis by blast
qed

text \<open>
  Poison pills terminate: a job is handed out at most as often as it has attempts left, in any run
  that does not replay it and enqueues other jobs with a fresh budget.
\<close>

lemma run_handouts_bound:
  assumes "invar b" and "run_ok admissible exec ops b" and "store_budget (jobs_of b)"
    and "jobs_of b i = Some j"
    and "\<And>p. p \<in> set ops \<Longrightarrow> \<not> allowed p (Replayed i)"
    and "\<And>p k. p \<in> set ops \<Longrightarrow> allowed p (Enqueued k) \<Longrightarrow> Attempt k = 0 \<and> ID k \<noteq> i"
  shows "int (length (filter (\<lambda>d. fst d = i) (handouts given exec ops b))) \<le> MaxAttempts j - Attempt j"
proof -
  from run_refines [OF assms(1,2)] obtain es where es:
      "lrun (jobs_of b) es (jobs_of (run exec ops b))" "\<forall>e \<in> set es. \<exists>p \<in> set ops. allowed p e"
      "event_handouts es = handouts given exec ops b"
    by blast
  have "fresh_budget e" if "e \<in> set es" for e
    using that es(2) assms(6) by (metis fresh_budget_iff)
  moreover have "Replayed i \<notin> set es" using es(2) assms(5) by blast
  moreover have "\<forall>k. Enqueued k \<in> set es \<longrightarrow> ID k \<noteq> i" using es(2) assms(6) by blast
  ultimately have "int (claims i es) \<le> MaxAttempts j - Attempt j"
    by (intro lrun_claims_bound [OF es(1) invar_store [OF assms(1)] assms(3,4)]) auto
  with es(3) show ?thesis by (simp add: claims_eq_handouts)
qed

lemma run_budget:
  assumes "invar b" and "run_ok admissible exec ops b" and "store_budget (jobs_of b)"
    and "\<And>p k. p \<in> set ops \<Longrightarrow> allowed p (Enqueued k) \<Longrightarrow> Attempt k = 0"
  shows "store_budget (jobs_of (run exec ops b))"
proof -
  from run_refines [OF assms(1,2)] obtain es where es:
      "lrun (jobs_of b) es (jobs_of (run exec ops b))" "\<forall>e \<in> set es. \<exists>p \<in> set ops. allowed p e"
    by blast
  have "fresh_budget e" if "e \<in> set es" for e
    using that es(2) assms(4) by (metis fresh_budget_iff)
  then show ?thesis using lrun_budget [OF es(1)] invar_store [OF assms(1)] assms(3) by blast
qed

end

end
