(* ===== verification/Memory_Exec.thy ===== *)
theory Memory_Exec
  imports Memory_Wf Broker_Interface
begin

text \<open>
  The operations of the in-process broker as one type, their execution, and the proof that they
  fulfil the contract \<open>lifecycle_broker\<close>.

  An operation is admissible when Enqueue is given an ID that is not stored (what \<^verbatim>\<open>NewID\<close> is for)
  and RetryDead is given no ID twice. Both conditions are needed: the code checks neither.
\<close>

datatype op =
    OpEnqueue string job
  | OpDequeue claim_opts
  | OpAck string string
  | OpNack string string time string
  | OpKill string string string
  | OpExtend string "string list" duration
  | OpReap "string list" int
  | OpPromote int
  | OpHeartbeat worker_info duration
  | OpAcquireLease string string duration
  | OpReleaseLease string string
  | OpRetryDead "string list"
  | OpPurgeDead "string list"
  | OpScheduleCron string time
  | OpClaimCron string time time
  | OpRemoveCron string
  | OpClose

fun exec :: "time \<times> op \<Rightarrow> broker \<Rightarrow> broker" where
  "exec (now, OpEnqueue newID j) b = snd (snd (Enqueue newID now (Some j) b))"
| "exec (now, OpDequeue opts) b = snd (Dequeue now opts b)"
| "exec (now, OpAck w i) b = snd (Ack w i b)"
| "exec (now, OpNack w i at r) b = snd (Nack w i at r b)"
| "exec (now, OpKill w i r) b = snd (Kill w i r b)"
| "exec (now, OpExtend w ids vt) b = snd (Extend now w ids vt b)"
| "exec (now, OpReap qs limit) b = snd (Reap now qs limit b)"
| "exec (now, OpPromote limit) b = snd (Promote now limit b)"
| "exec (now, OpHeartbeat w ttl) b = snd (Heartbeat now w ttl b)"
| "exec (now, OpAcquireLease name w ttl) b = snd (AcquireLease now name w ttl b)"
| "exec (now, OpReleaseLease name w) b = snd (ReleaseLease name w b)"
| "exec (now, OpRetryDead ids) b = snd (RetryDead ids b)"
| "exec (now, OpPurgeDead ids) b = snd (PurgeDead ids b)"
| "exec (now, OpScheduleCron i at) b = snd (ScheduleCronIfAbsent i at b)"
| "exec (now, OpClaimCron i at nx) b = snd (ClaimCron i at nx b)"
| "exec (now, OpRemoveCron i) b = snd (RemoveCron i b)"
| "exec (now, OpClose) b = Close b"

fun admissible :: "time \<times> op \<Rightarrow> broker \<Rightarrow> bool" where
  "admissible (now, OpEnqueue newID j) b \<longleftrightarrow> jobs b (if ID j = [] then newID else ID j) = None"
| "admissible (now, OpRetryDead ids) b \<longleftrightarrow> distinct ids"
| "admissible _ b \<longleftrightarrow> True"

text \<open>The lifecycle events that an operation may cause.\<close>

fun allowed :: "time \<times> op \<Rightarrow> event \<Rightarrow> bool" where
  "allowed (now, OpEnqueue newID j) e \<longleftrightarrow> (\<exists>k. e = Enqueued k \<and> Attempt k = Attempt j
     \<and> ID k = (if ID j = [] then newID else ID j))"
| "allowed (now, OpDequeue opts) e \<longleftrightarrow> (\<exists>i. e = Claimed i (WorkerID opts))"
| "allowed (now, OpAck w i) e \<longleftrightarrow> e = Completed i w"
| "allowed (now, OpNack w i at r) e \<longleftrightarrow> e = Retried i w \<or> e = Buried i w"
| "allowed (now, OpKill w i r) e \<longleftrightarrow> e = Buried i w"
| "allowed (now, OpExtend w ids vt) e \<longleftrightarrow> (\<exists>i \<in> set ids. e = Renewed i w)"
| "allowed (now, OpReap qs limit) e \<longleftrightarrow> (\<exists>i. e = Recovered i now \<or> e = Orphaned i now)"
| "allowed (now, OpPromote limit) e \<longleftrightarrow> (\<exists>i. e = Promoted i)"
| "allowed (now, OpRetryDead ids) e \<longleftrightarrow> (\<exists>i. e = Replayed i \<and> (ids = [] \<or> i \<in> set ids))"
| "allowed (now, OpPurgeDead ids) e \<longleftrightarrow> (\<exists>i. e = Purged i \<and> (ids = [] \<or> i \<in> set ids))"
| "allowed _ e \<longleftrightarrow> False"

declare allowed.simps [simp del]

lemma allowed_intros [simp]:
  "ID k = (if ID j = [] then newID else ID j) \<Longrightarrow> Attempt k = Attempt j
     \<Longrightarrow> allowed (now, OpEnqueue newID j) (Enqueued k)"
  "allowed (now, OpDequeue opts) (Claimed i (WorkerID opts))"
  "allowed (now, OpAck w i) (Completed i w)"
  "allowed (now, OpNack w i at r) (Retried i w)"
  "allowed (now, OpNack w i at r) (Buried i w)"
  "allowed (now, OpKill w i r) (Buried i w)"
  "allowed (now, OpExtend w ids vt) (Renewed i w) \<longleftrightarrow> i \<in> set ids"
  "allowed (now, OpReap qs limit) (Recovered i now)"
  "allowed (now, OpReap qs limit) (Orphaned i now)"
  "allowed (now, OpPromote limit) (Promoted i)"
  "allowed (now, OpRetryDead ids) (Replayed i) \<longleftrightarrow> ids = [] \<or> i \<in> set ids"
  "allowed (now, OpPurgeDead ids) (Purged i) \<longleftrightarrow> ids = [] \<or> i \<in> set ids"
  by (auto simp: allowed.simps)

fun given :: "time \<times> op \<Rightarrow> broker \<Rightarrow> (string \<times> string) option" where
  "given (now, OpDequeue opts) b = (case fst (Dequeue now opts b) of
       Inl _ \<Rightarrow> None | Inr j \<Rightarrow> Some (ID j, WorkerID opts))"
| "given _ b = None"

section \<open>One lemma per operation\<close>

abbreviation refines :: "(event \<Rightarrow> bool) \<Rightarrow> (string \<times> string) list \<Rightarrow> broker \<Rightarrow> broker \<Rightarrow> bool" where
  "refines \<equiv> simulates jobs broker_wf"

lemmas refines_def = simulates_def [of jobs broker_wf]
lemmas refines_refl = simulates_refl [of broker_wf _ jobs]
lemmas refines_step = simulates_step [of broker_wf _ jobs]
lemmas refines_step_silent = simulates_step_silent [of broker_wf _ jobs]
lemmas refines_trans = simulates_trans [of jobs broker_wf]
lemmas refines_trans_silent = simulates_trans_silent [of jobs broker_wf]
lemmas refines_wf = simulates_invar [of jobs broker_wf]

lemma refines_frame:
  assumes "broker_wf b" and "jobs b' = jobs b" and "shape b'"
    and "pending b' = pending b" "active b' = active b" "scheduled b' = scheduled b"
      "retry b' = retry b" "dead b' = dead b" "queues b' = queues b"
  shows "refines al [] b b'"
proof -
  have "placed b' i = placed b i" for i using assms by (simp add: placed_def)
  moreover have "known_queues b' = known_queues b" using assms by (simp add: known_queues_def)
  ultimately have "broker_wf b'" using assms by (simp add: broker_wf_def core_wf_def)
  with assms(2) show ?thesis unfolding refines_def by (intro conjI exI [of _ "[]"]) simp_all
qed

lemma ownedActive_Inr_iff:
  "ownedActive w i b = Inr j \<longleftrightarrow> jobs b i = Some j \<and> State j = StateActive \<and> Owner j = w"
  by (auto simp: ownedActive_def split: option.splits)

lemma Enqueue_refines:
  assumes "broker_wf b" and "jobs b (if ID j = [] then newID else ID j) = None"
  shows "refines (allowed (now, OpEnqueue newID j)) [] b (snd (snd (Enqueue newID now (Some j) b)))"
proof -
  let ?k = "enqueue_defaults newID now j"
  have k: "ID ?k = (if ID j = [] then newID else ID j)" "0 < MaxAttempts ?k" "Attempt ?k = Attempt j"
    by (auto simp: enqueue_defaults_def Let_def DefaultMaxAttempts_def)
  obtain j' where "broker_wf (enqueue_store now ?k b)"
      "lstep (jobs b) (Enqueued j') (jobs (enqueue_store now ?k b))"
      "ID j' = ID ?k" "Attempt j' = Attempt ?k"
    using enqueue_store_wf [of b ?k now] assms k by auto
  then have "refines (allowed (now, OpEnqueue newID j)) [] b (enqueue_store now ?k b)"
    using k by (intro refines_step_silent [of _ _ "Enqueued j'"]) auto
  with assms(1) show ?thesis
    by (auto simp: Enqueue_def checkOpen_def Let_def split: option.splits)
qed

lemma dequeue_loop_refines:
  assumes "broker_wf b" and "WorkerID opts \<noteq> []" and "0 < VisibilityTimeout opts"
  shows "refines (allowed (now, OpDequeue opts))
    (case fst (dequeue_loop now opts qs b) of Inl _ \<Rightarrow> [] | Inr j \<Rightarrow> [(ID j, WorkerID opts)])
    b (snd (dequeue_loop now opts qs b))"
proof (induction qs)
  case Nil
  with assms(1) show ?case by simp
next
  case (Cons q qs)
  show ?case
  proof (cases "pending b q")
    case Nil
    with Cons show ?thesis by simp
  next
    case (Cons i ids)
    then have "i \<in> set (pending b q)" by simp
    with broker_wfD(4) [OF assms(1), of i] obtain j where j: "jobs b i = Some j"
      by (auto simp: placed_def lstate_def split: option.splits)
    let ?d = "now + VisibilityTimeout opts"
    have "broker_wf (snd (dequeue_loop now opts (q # qs) b))
        \<and> lstep (jobs b) (Claimed i (WorkerID opts)) (jobs (snd (dequeue_loop now opts (q # qs) b)))"
      using claim_wf [OF assms(1) Cons j assms(2), of now ?d] assms(3) Cons j
      by (simp add: Let_def fun_upd_def)
    then have "refines (allowed (now, OpDequeue opts)) [(i, WorkerID opts)] b
        (snd (dequeue_loop now opts (q # qs) b))"
      using refines_step [of _ b "Claimed i (WorkerID opts)"] by force
    with Cons j job_ID [OF assms(1) j] show ?thesis by (simp add: Let_def)
  qed
qed

lemma Dequeue_refines:
  assumes "broker_wf b"
  shows "refines (allowed (now, OpDequeue opts))
    (case given (now, OpDequeue opts) b of None \<Rightarrow> [] | Some d \<Rightarrow> [d]) b (snd (Dequeue now opts b))"
  using assms dequeue_loop_refines [OF assms, of opts now "Queues opts"]
  by (auto simp: Dequeue_def checkOpen_def split: sum.splits)

lemma Ack_refines: "broker_wf b \<Longrightarrow> refines (allowed (now, OpAck w i)) [] b (snd (Ack w i b))"
  by (auto simp: Ack_def checkOpen_def ownedActive_Inr_iff CanTransition_iff
      split: sum.splits intro!: refines_step_silent [OF complete_wf])

lemma Nack_refines:
  "broker_wf b \<Longrightarrow> refines (allowed (now, OpNack w i at r)) [] b (snd (Nack w i at r b))"
  by (auto simp: Nack_def checkOpen_def ownedActive_Inr_iff Let_def Exhausted_def
      split: sum.splits intro!: refines_step_silent [OF bury_wf] refines_step_silent [OF retry_wf])

lemma Kill_refines:
  "broker_wf b \<Longrightarrow> refines (allowed (now, OpKill w i r)) [] b (snd (Kill w i r b))"
  by (auto simp: Kill_def checkOpen_def ownedActive_Inr_iff
      split: sum.splits intro!: refines_step_silent [OF bury_wf])

lemma extend_loop_refines:
  "broker_wf b \<Longrightarrow> set ids \<subseteq> set all \<Longrightarrow>
     refines (allowed (now, OpExtend w all vt)) [] b (snd (extend_loop now w vt ids lost b))"
proof (induction ids arbitrary: lost b)
  case Nil
  then show ?case by simp
next
  case (Cons i ids)
  show ?case
  proof (cases "ownedActive w i b")
    case (Inl e)
    with Cons show ?thesis by simp
  next
    case (Inr j)
    then have j: "jobs b i = Some j" "State j = StateActive" "Owner j = w"
      by (simp_all add: ownedActive_Inr_iff)
    let ?b = "b\<lparr>jobs := (jobs b)(i \<mapsto> j\<lparr>Deadline := now + vt\<rparr>), active := AList.update i (now + vt) (active b)\<rparr>"
    have one: "refines (allowed (now, OpExtend w all vt)) [] b ?b"
      using Cons.prems j by (auto intro!: refines_step_silent [OF renew_wf [of b i j]])
    have "refines (allowed (now, OpExtend w all vt)) [] ?b (snd (extend_loop now w vt ids lost ?b))"
      using Cons.prems by (intro Cons.IH refines_wf [OF one]) auto
    with one have "refines (allowed (now, OpExtend w all vt)) [] b (snd (extend_loop now w vt ids lost ?b))"
      by (rule refines_trans_silent)
    with Inr show ?thesis by simp
  qed
qed

lemma Extend_refines:
  "broker_wf b \<Longrightarrow> refines (allowed (now, OpExtend w ids vt)) [] b (snd (Extend now w ids vt b))"
  using extend_loop_refines [of b ids ids now w vt "[]"]
  by (auto simp: Extend_def checkOpen_def split: prod.splits)

text \<open>Reap: every candidate is an active job whose deadline has passed, and no ID occurs twice.\<close>

definition reapable :: "time \<Rightarrow> broker \<Rightarrow> due_entry \<Rightarrow> bool" where
  "reapable now b c \<longleftrightarrow>
     (\<exists>j. jobs b (due_id c) = Some j \<and> State j = StateActive \<and> Deadline j \<le> now)"

lemma reap_one_other: "k \<noteq> due_id c \<Longrightarrow> jobs (reap_one c b) k = jobs b k"
  by (auto simp: reap_one_def moveToDeadLocked_def Let_def split: option.splits)

lemma reapable_other: "due_id c \<noteq> due_id d \<Longrightarrow> reapable now (reap_one d b) c = reapable now b c"
  by (simp add: reapable_def reap_one_other)

lemma reap_one_refines:
  assumes "broker_wf b" and "reapable now b c"
  shows "refines (allowed (now, OpReap qs limit)) [] b (reap_one c b)"
proof -
  from assms(2) obtain j where j: "jobs b (due_id c) = Some j" "State j = StateActive" "Deadline j \<le> now"
    by (auto simp: reapable_def)
  have "reap_one (Due (due_id c) (due_at c)) b = reap_one c b" by simp
  with reap_one_wf [OF assms(1) j, of "due_at c"] show ?thesis
    by (intro refines_step_silent [of _ _ "if Exhausted j then Orphaned (due_id c) now
          else Recovered (due_id c) now"]) (auto split: if_splits)
qed

lemma reap_loop_refines:
  "broker_wf b \<Longrightarrow> distinct (map due_id cs) \<Longrightarrow> (\<And>c. c \<in> set cs \<Longrightarrow> reapable now b c) \<Longrightarrow>
     refines (allowed (now, OpReap qs limit)) [] b (snd (reap_loop lim cs n b))"
proof (induction cs arbitrary: n b)
  case Nil
  then show ?case by simp
next
  case (Cons c cs)
  have one: "refines (allowed (now, OpReap qs limit)) [] b (reap_one c b)"
    using Cons.prems by (intro reap_one_refines) auto
  have "reapable now (reap_one c b) d" if "d \<in> set cs" for d
    using that Cons.prems by (subst reapable_other) (auto simp: image_iff)
  then have "refines (allowed (now, OpReap qs limit)) [] (reap_one c b)
      (snd (reap_loop lim cs (n + 1) (reap_one c b)))"
    using Cons.prems by (intro Cons.IH refines_wf [OF one]) auto
  with one have "refines (allowed (now, OpReap qs limit)) [] b (snd (reap_loop lim cs (n + 1) (reap_one c b)))"
    by (rule refines_trans_silent)
  with Cons.prems(1) show ?case by simp
qed

lemma reap_candidate_iff:
  assumes "broker_wf b"
  shows "c \<in> set (reap_candidates now qs b) \<longleftrightarrow>
    (\<exists>j. jobs b (due_id c) = Some j \<and> State j = StateActive \<and> Deadline j = due_at c
       \<and> due_at c \<le> now \<and> (qs = [] \<or> Queue j \<in> set qs))"
proof -
  have d: "distinct (map fst (active b))" using broker_wfD(3) [OF assms] by (simp add: shape_def)
  have "(i, t) \<in> set (active b) \<longleftrightarrow> (\<exists>j. jobs b i = Some j \<and> State j = StateActive \<and> Deadline j = t)" for i t
    using broker_wfD(4) [OF assms, of i]
    by (auto simp: pair_in_alist_iff [OF d] placed_def lstate_def split: option.splits if_splits)
  then show ?thesis by (cases c) (auto simp: reap_candidates_def image_iff split: option.splits)
qed

lemma distinct_reap_candidates:
  assumes "broker_wf b"
  shows "distinct (map due_id (sort (reap_candidates now qs b)))"
proof -
  have "distinct (map fst (active b))" using broker_wfD(3) [OF assms] by (simp add: shape_def)
  then have "distinct (map fst (filter P (active b)))" for P by (rule distinct_map_filter)
  then have "distinct (map due_id (reap_candidates now qs b))"
    by (simp add: reap_candidates_def comp_def case_prod_unfold)
  then show ?thesis by (metis mset_eq_imp_distinct_iff mset_map mset_sort)
qed

lemma Reap_refines:
  assumes "broker_wf b"
  shows "refines (allowed (now, OpReap qs limit)) [] b (snd (Reap now qs limit b))"
proof -
  have "reapable now b c" if "c \<in> set (sort (reap_candidates now qs b))" for c
    using that reap_candidate_iff [OF assms, of c now qs] by (auto simp: reapable_def)
  then have "refines (allowed (now, OpReap qs limit)) [] b
      (snd (reap_loop limit (sort (reap_candidates now qs b)) 0 b))"
    by (intro reap_loop_refines assms distinct_reap_candidates)
  with assms show ?thesis by (auto simp: Reap_def checkOpen_def split: prod.splits)
qed

text \<open>Promote: every candidate is a stored job whose state says which set it waits in.\<close>

definition promotable :: "broker \<Rightarrow> due_entry \<times> which_set \<Rightarrow> bool" where
  "promotable b x \<longleftrightarrow> (\<exists>j. jobs b (due_id (fst x)) = Some j \<and> State j = set_state (snd x))"

lemma jobs_delete_from [simp]: "jobs (delete_from w i b) = jobs b"
  by (cases w) auto

lemma jobs_promote_job: "jobs (promote_job w i j b) = (jobs b)(i \<mapsto> j\<lparr>State := StatePending\<rparr>)"
  by (simp add: promote_job_def Let_def)

lemma promote_loop_refines:
  "broker_wf b \<Longrightarrow> distinct (map (due_id \<circ> fst) cs) \<Longrightarrow> (\<And>x. x \<in> set cs \<Longrightarrow> promotable b x) \<Longrightarrow>
     refines (allowed (now, OpPromote limit)) [] b (snd (promote_loop lim cs n b))"
proof (induction cs arbitrary: n b)
  case Nil
  then show ?case by simp
next
  case (Cons x cs)
  obtain c w where x: "x = (c, w)" by (cases x)
  from Cons.prems(3) [of x] x obtain j where j: "jobs b (due_id c) = Some j" "State j = set_state w"
    by (auto simp: promotable_def)
  let ?b = "promote_job w (due_id c) j b"
  have one: "refines (allowed (now, OpPromote limit)) [] b ?b"
    by (rule refines_step_silent [OF promote_job_wf [OF Cons.prems(1) j]]) simp_all
  have "promotable ?b y" if "y \<in> set cs" for y
    using that Cons.prems(2) Cons.prems(3) [of y] x
    by (auto simp: promotable_def jobs_promote_job image_iff)
  then have "refines (allowed (now, OpPromote limit)) [] ?b (snd (promote_loop lim cs (n + 1) ?b))"
    using Cons.prems(2) by (intro Cons.IH refines_wf [OF one]) auto
  with one have "refines (allowed (now, OpPromote limit)) [] b (snd (promote_loop lim cs (n + 1) ?b))"
    by (rule refines_trans_silent)
  with Cons.prems(1) x j show ?case by simp
qed

lemma due_of_iff:
  assumes "distinct (map fst m)"
  shows "x \<in> set (due_of now w m) \<longleftrightarrow>
    snd x = w \<and> map_of m (due_id (fst x)) = Some (due_at (fst x)) \<and> due_at (fst x) \<le> now"
  by (cases x; cases "fst x") (auto simp: due_of_def image_iff pair_in_alist_iff [OF assms])

lemma promote_candidate_iff:
  assumes "broker_wf b"
  shows "x \<in> set (promote_candidates now b) \<longleftrightarrow>
    (\<exists>j. jobs b (due_id (fst x)) = Some j \<and> State j = set_state (snd x) \<and> due_at (fst x) \<le> now
       \<and> map_of (case snd x of InScheduled \<Rightarrow> scheduled b | InRetry \<Rightarrow> retry b) (due_id (fst x))
           = Some (due_at (fst x)))"
proof -
  have d: "distinct (map fst (scheduled b))" "distinct (map fst (retry b))"
    using broker_wfD(3) [OF assms] by (simp_all add: shape_def)
  show ?thesis
    using broker_wfD(4) [OF assms, of "due_id (fst x)"]
    by (cases "snd x")
      (auto simp: promote_candidates_def due_of_iff [OF d(1)] due_of_iff [OF d(2)] placed_def lstate_def
        split: option.splits if_splits)
qed

lemma map_due_of: "map (due_id \<circ> fst) (due_of now w m) = map fst (filter (\<lambda>(i, at). \<not> now < at) m)"
  by (induction m) (auto simp: due_of_def)

lemma distinct_promote_candidates:
  assumes "broker_wf b"
  shows "distinct (map (due_id \<circ> fst) (sort_key fst (promote_candidates now b)))"
proof -
  have d: "distinct (map fst (scheduled b))" "distinct (map fst (retry b))"
    using broker_wfD(3) [OF assms] by (simp_all add: shape_def)
  have disj: "map_of (scheduled b) i = None \<or> map_of (retry b) i = None" for i
    using broker_wfD(4) [OF assms, of i] by (auto simp: placed_def)
  have "fst ` set (scheduled b) \<inter> fst ` set (retry b) = {}"
    using disj by (auto simp: map_of_eq_None_iff)
  then have "distinct (map (due_id \<circ> fst) (promote_candidates now b))"
    using d by (auto simp: promote_candidates_def map_due_of intro!: distinct_map_filter)
  then show ?thesis by (metis mset_eq_imp_distinct_iff mset_map mset_sort)
qed

lemma Promote_refines:
  assumes "broker_wf b"
  shows "refines (allowed (now, OpPromote limit)) [] b (snd (Promote now limit b))"
proof -
  have "promotable b x" if "x \<in> set (sort_key fst (promote_candidates now b))" for x
    using that promote_candidate_iff [OF assms, of x now] by (auto simp: promotable_def)
  then have "refines (allowed (now, OpPromote limit)) [] b
      (snd (promote_loop limit (sort_key fst (promote_candidates now b)) 0 b))"
    by (intro promote_loop_refines assms distinct_promote_candidates)
  with assms show ?thesis by (auto simp: Promote_def checkOpen_def split: prod.splits)
qed

text \<open>Replay and purge of the selected dead letters.\<close>

lemma retry_dead_loop_refines:
  "broker_wf b \<Longrightarrow> distinct ids \<Longrightarrow> set ids \<subseteq> set (dead b) \<Longrightarrow> (all = [] \<or> set ids \<subseteq> set all) \<Longrightarrow>
     refines (allowed (now, OpRetryDead all)) [] b (snd (retry_dead_loop ids n b))"
proof (induction ids arbitrary: n b)
  case Nil
  then show ?case by simp
next
  case (Cons i ids)
  have "i \<in> set (dead b)" using Cons.prems(3) by simp
  with broker_wfD(4) [OF Cons.prems(1), of i] obtain j where j: "jobs b i = Some j" "State j = StateDead"
    by (auto simp: placed_def lstate_def split: option.splits)
  let ?b = "removeDeadLocked i (b\<lparr>jobs := (jobs b)(i \<mapsto> j\<lparr>State := StatePending, Attempt := 0,
      Recoveries := 0, Owner := []\<rparr>), pending := (pending b)(Queue j := pending b (Queue j) @ [i])\<rparr>)"
  have one: "refines (allowed (now, OpRetryDead all)) [] b ?b"
    using Cons.prems(4) by (intro refines_step_silent [OF replay_wf [OF Cons.prems(1) j]]) auto
  have dist: "distinct (dead b)" using broker_wfD(3) [OF Cons.prems(1)] by (simp add: shape_def)
  have "refines (allowed (now, OpRetryDead all)) [] ?b (snd (retry_dead_loop ids (n + 1) ?b))"
    using Cons.prems dist
    by (intro Cons.IH refines_wf [OF one]) (auto simp: removeDeadLocked_def)
  with one have "refines (allowed (now, OpRetryDead all)) [] b (snd (retry_dead_loop ids (n + 1) ?b))"
    by (rule refines_trans_silent)
  with j show ?case by (simp add: Let_def)
qed

lemma RetryDead_refines:
  assumes "broker_wf b" and "distinct ids"
  shows "refines (allowed (now, OpRetryDead ids)) [] b (snd (RetryDead ids b))"
proof -
  have "distinct (selectDeadLocked ids b)"
    using assms(2) broker_wfD(3) [OF assms(1)] by (simp add: selectDeadLocked_def shape_def)
  then have "refines (allowed (now, OpRetryDead ids)) [] b (snd (retry_dead_loop (selectDeadLocked ids b) 0 b))"
    by (intro retry_dead_loop_refines assms) (auto simp: selectDeadLocked_def)
  with assms show ?thesis by (auto simp: RetryDead_def checkOpen_def split: prod.splits)
qed

lemma purge_dead_loop_refines:
  "broker_wf b \<Longrightarrow> (\<And>i. i \<in> set ids \<Longrightarrow> lstate (jobs b) i \<in> {StateDead, StateNone}) \<Longrightarrow>
     (all = [] \<or> set ids \<subseteq> set all) \<Longrightarrow>
     refines (allowed (now, OpPurgeDead all)) [] b (snd (purge_dead_loop ids n b))"
proof (induction ids arbitrary: n b)
  case Nil
  then show ?case by simp
next
  case (Cons i ids)
  show ?case
  proof (cases "jobs b i")
    case None
    have "refines (allowed (now, OpPurgeDead all)) [] b (snd (purge_dead_loop ids n b))"
      using Cons.prems by (intro Cons.IH) auto
    with None show ?thesis by simp
  next
    case (Some j)
    have "job_wf i j" using broker_wfD(2) [OF Cons.prems(1)] Some by auto
    with Some Cons.prems(2) [of i] have j: "State j = StateDead"
      by (auto simp: job_wf_def live_states_def)
    let ?b = "removeDeadLocked i (b\<lparr>jobs := (jobs b)(i := None)\<rparr>)"
    have one: "refines (allowed (now, OpPurgeDead all)) [] b ?b"
      using Cons.prems(3) by (intro refines_step_silent [OF purge_wf [OF Cons.prems(1) Some j]]) auto
    have "lstate (jobs ?b) k \<in> {StateDead, StateNone}" if "k \<in> set ids" for k
      using Cons.prems(2) [of k] that by (auto simp: lstate_def removeDeadLocked_def)
    then have "refines (allowed (now, OpPurgeDead all)) [] ?b (snd (purge_dead_loop ids (n + 1) ?b))"
      using Cons.prems(3) by (intro Cons.IH refines_wf [OF one]) auto
    with one have "refines (allowed (now, OpPurgeDead all)) [] b (snd (purge_dead_loop ids (n + 1) ?b))"
      by (rule refines_trans_silent)
    with Some show ?thesis by simp
  qed
qed

lemma PurgeDead_refines:
  assumes "broker_wf b"
  shows "refines (allowed (now, OpPurgeDead ids)) [] b (snd (PurgeDead ids b))"
proof -
  have "lstate (jobs b) i = StateDead" if "i \<in> set (dead b)" for i
    using that broker_wfD(4) [OF assms, of i] by (simp add: placed_def)
  then have "refines (allowed (now, OpPurgeDead ids)) [] b (snd (purge_dead_loop (selectDeadLocked ids b) 0 b))"
    by (intro purge_dead_loop_refines assms) (auto simp: selectDeadLocked_def split: if_splits)
  with assms show ?thesis by (auto simp: PurgeDead_def checkOpen_def split: prod.splits)
qed

section \<open>The contract is fulfilled\<close>

lemma exec_refines_broker:
  assumes "broker_wf b" and "admissible p b"
  shows "refines (allowed p) (case given p b of None \<Rightarrow> [] | Some d \<Rightarrow> [d]) b (exec p b)"
proof -
  obtain now o' where p: "p = (now, o')" by (cases p)
  have sh: "shape b" using broker_wfD(3) [OF assms(1)] .
  show ?thesis
  proof (cases o')
    case (OpEnqueue newID j)
    with assms p show ?thesis using Enqueue_refines [of b j newID now] by simp
  next
    case (OpDequeue opts)
    with assms(1) p show ?thesis using Dequeue_refines [of b now opts] by simp
  next
    case (OpRetryDead ids)
    with assms p show ?thesis by (simp add: RetryDead_refines)
  next
    case (OpHeartbeat w ttl)
    with sh p show ?thesis
      by (auto simp: Heartbeat_def checkOpen_def shape_def intro!: refines_frame [OF assms(1)])
  next
    case (OpAcquireLease name w ttl)
    with sh p show ?thesis
      by (auto simp: AcquireLease_def checkOpen_def shape_def split: option.splits
          intro!: refines_frame [OF assms(1)])
  next
    case (OpReleaseLease name w)
    with sh p show ?thesis
      by (auto simp: ReleaseLease_def checkOpen_def shape_def split: option.splits
          intro!: refines_frame [OF assms(1)])
  next
    case (OpScheduleCron i at)
    with sh p show ?thesis
      by (auto simp: ScheduleCronIfAbsent_def checkOpen_def shape_def split: option.splits
          intro!: refines_frame [OF assms(1)])
  next
    case (OpClaimCron i at nx)
    with sh p show ?thesis
      by (auto simp: ClaimCron_def checkOpen_def shape_def split: option.splits
          intro!: refines_frame [OF assms(1)])
  next
    case (OpRemoveCron i)
    with sh p show ?thesis
      by (auto simp: RemoveCron_def checkOpen_def shape_def split: option.splits
          intro!: refines_frame [OF assms(1)])
  next
    case OpClose
    with sh p show ?thesis
      by (auto simp: Close_def shape_def intro!: refines_frame [OF assms(1)])
  qed (use assms(1) p in \<open>auto simp: Ack_refines Nack_refines Kill_refines Extend_refines Reap_refines
        Promote_refines PurgeDead_refines\<close>)
qed

interpretation mem: lifecycle_broker exec jobs broker_wf admissible allowed given
  by unfold_locales (use exec_refines_broker in \<open>auto simp: refines_def broker_wfD\<close>)

lemma broker_wf_New: "broker_wf New"
  by (simp add: broker_wf_def core_wf_def shape_def placed_def known_queues_def store_wf_def New_def lstate_def)

section \<open>Reachable brokers\<close>

inductive reachable :: "broker \<Rightarrow> bool" where
  reachable_New: "reachable New"
| reachable_exec: "reachable b \<Longrightarrow> admissible p b \<Longrightarrow> reachable (exec p b)"

lemma reachable_wf: "reachable b \<Longrightarrow> broker_wf b"
  by (induction rule: reachable.induct) (auto intro: broker_wf_New mem.exec_invar)

lemma reachable_run: "reachable b \<Longrightarrow> run_ok admissible exec ops b \<Longrightarrow> reachable (run exec ops b)"
  by (induction ops arbitrary: b) (auto intro: reachable.intros)

end
