(* ===== verification/Memory_Example.thy ===== *)
theory Memory_Example
  imports Memory_Exec
begin

text \<open>
  A small concrete history of the in-process broker, on which the properties of the broker are
  instantiated: job \<open>a\<close> is claimed by worker \<open>w1\<close> until instant 31, job \<open>b\<close> is ready, job \<open>c\<close> is
  scheduled for instant 50.
\<close>

definition example_job :: "string \<Rightarrow> time \<Rightarrow> job" where
  "example_job i at = zero_job\<lparr>ID := i, Queue := ''q'', Type := ''t'', MaxAttempts := 2, RunAt := at\<rparr>"

definition example_claim :: "string \<Rightarrow> claim_opts" where
  "example_claim w = \<lparr>WorkerID = w, Queues = [''p'', ''q''], VisibilityTimeout = 20\<rparr>"

definition example_ops :: "(time \<times> op) list" where
  "example_ops = [(10, OpEnqueue ''n'' (example_job ''a'' 0)), (10, OpEnqueue ''n'' (example_job ''b'' 0)),
     (10, OpEnqueue ''n'' (example_job ''c'' 50)), (11, OpDequeue (example_claim ''w1''))]"

definition example :: broker where
  "example = run exec example_ops New"

definition example_a :: job where
  "example_a = (example_job ''a'' 0)\<lparr>Attempt := 1, State := StateActive, Owner := ''w1'', EnqueuedAt := 10,
     StartedAt := 11, Deadline := 31\<rparr>"

definition example_b :: job where
  "example_b = (example_job ''b'' 0)\<lparr>State := StatePending, EnqueuedAt := 10\<rparr>"

definition example_c :: job where
  "example_c = (example_job ''c'' 50)\<lparr>State := StateScheduled, EnqueuedAt := 10\<rparr>"

lemma example_run_ok: "run_ok admissible exec example_ops New"
  by code_simp

lemma example_reachable: "reachable example"
  unfolding example_def by (rule reachable_run [OF reachable_New example_run_ok])

lemma example_fields:
  "closed example = False"
  "jobs example ''a'' = Some example_a"
  "jobs example ''b'' = Some example_b"
  "jobs example ''c'' = Some example_c"
  "jobs example ''d'' = None"
  "pending example ''p'' = []"
  "pending example ''q'' = [''b'']"
  "active example = [(''a'', 31)]"
  "scheduled example = [(''c'', 50)]"
  "retry example = []"
  "dead example = []"
  by code_simp+

lemma example_jobs_cases: "jobs example i = Some j \<Longrightarrow> i \<in> {''a'', ''b'', ''c''}"
  by (auto simp: example_def example_ops_def example_job_def example_claim_def Enqueue_def zero_job_def checkOpen_def
      enqueue_defaults_def enqueue_store_def Dequeue_def New_def Let_def split: if_splits)

end
