(* ===== verification/Memory_Delivery.thy ===== *)
theory Memory_Delivery
  imports Memory_Example
begin

text \<open>
  Delivery by the in-process broker: where a job is, which transitions it makes, that it is never
  lost, that expired leases are recovered and due jobs promoted, in which order jobs are handed out,
  and how often.
\<close>

section \<open>Reap and Promote in closed form\<close>

text \<open>What Reap makes of the envelope of an expired job.\<close>

definition reaped :: "job \<Rightarrow> job" where
  "reaped j = (if Exhausted j
     then j\<lparr>Owner := [], Recoveries := Recoveries j + 1, LastErr := orphan_reason (Attempt j), State := StateDead\<rparr>
     else j\<lparr>Owner := [], Recoveries := Recoveries j + 1, State := StatePending\<rparr>)"

lemma reap_loop_eq:
  "n \<le> limit \<Longrightarrow> reap_loop limit cs n b =
     (n + min (limit - n) (int (length cs)), fold reap_one (take (nat (limit - n)) cs) b)"
proof (induction cs arbitrary: n b)
  case Nil
  then show ?case by simp
next
  case (Cons c cs)
  show ?case
  proof (cases "limit \<le> n")
    case True
    with Cons.prems have "limit = n" by simp
    then show ?thesis by simp
  next
    case False
    then have "nat (limit - n) = Suc (nat (limit - (n + 1)))" by simp
    with False Cons.IH [of "n + 1" "reap_one c b"] show ?thesis by (simp add: min_def)
  qed
qed

lemma reap_one_Some:
  assumes "jobs b (due_id c) = Some j"
  shows "jobs (reap_one c b) = (jobs b)(due_id c \<mapsto> reaped j)"
    and "pending (reap_one c b) q =
      (if \<not> Exhausted j \<and> Queue j = q then due_id c # pending b q else pending b q)"
    and "dead (reap_one c b) = (if Exhausted j then dead b @ [ID j] else dead b)"
    and "active (reap_one c b) = AList.delete (due_id c) (active b)"
    and "scheduled (reap_one c b) = scheduled b" "retry (reap_one c b) = retry b"
      "closed (reap_one c b) = closed b"
  using assms by (auto simp: reap_one_def Let_def Exhausted_def moveToDeadLocked_def reaped_def)

lemma fold_reap_jobs:
  "distinct (map due_id cs) \<Longrightarrow> (\<And>c. c \<in> set cs \<Longrightarrow> jobs b (due_id c) \<noteq> None) \<Longrightarrow>
     jobs (fold reap_one cs b) i =
       (if i \<in> due_id ` set cs then map_option reaped (jobs b i) else jobs b i)"
proof (induction cs arbitrary: b)
  case (Cons c cs)
  from Cons.prems(2) [of c] obtain j where j: "jobs b (due_id c) = Some j" by auto
  have "jobs (reap_one c b) (due_id d) \<noteq> None" if "d \<in> set cs" for d
    using Cons.prems(2) [of d] that j by (simp add: reap_one_Some)
  with Cons.IH [of "reap_one c b"] Cons.prems(1) j show ?case by (auto simp: reap_one_Some)
qed simp

lemma fold_reap_pending:
  "distinct (map due_id cs) \<Longrightarrow> (\<And>c. c \<in> set cs \<Longrightarrow> jobs b (due_id c) \<noteq> None) \<Longrightarrow>
     pending (fold reap_one cs b) q = rev (map due_id (filter (\<lambda>c. \<not> Exhausted (the (jobs b (due_id c)))
        \<and> Queue (the (jobs b (due_id c))) = q) cs)) @ pending b q"
proof (induction cs arbitrary: b)
  case (Cons c cs)
  from Cons.prems(2) [of c] obtain j where j: "jobs b (due_id c) = Some j" by auto
  have same: "jobs (reap_one c b) (due_id d) = jobs b (due_id d)" if "d \<in> set cs" for d
    using Cons.prems(1) that by (auto simp: reap_one_other image_iff)
  have "pending (fold reap_one cs (reap_one c b)) q =
      rev (map due_id (filter (\<lambda>d. \<not> Exhausted (the (jobs (reap_one c b) (due_id d)))
        \<and> Queue (the (jobs (reap_one c b) (due_id d))) = q) cs)) @ pending (reap_one c b) q"
    using Cons.prems same by (intro Cons.IH) auto
  also have "filter (\<lambda>d. \<not> Exhausted (the (jobs (reap_one c b) (due_id d)))
        \<and> Queue (the (jobs (reap_one c b) (due_id d))) = q) cs
      = filter (\<lambda>d. \<not> Exhausted (the (jobs b (due_id d))) \<and> Queue (the (jobs b (due_id d))) = q) cs"
    using same by (intro filter_cong) auto
  finally show ?case using j by (simp add: reap_one_Some)
qed simp

lemma Reap_eq:
  "0 < limit \<Longrightarrow> \<not> closed b \<Longrightarrow> Reap now qs limit b =
     (Inr (min limit (int (length (reap_candidates now qs b)))),
      fold reap_one (take (nat limit) (sort (reap_candidates now qs b))) b)"
  by (simp add: Reap_def checkOpen_def reap_loop_eq)

text \<open>The batch that one call of Reap acts on.\<close>

abbreviation reap_batch :: "time \<Rightarrow> string list \<Rightarrow> int \<Rightarrow> broker \<Rightarrow> due_entry list" where
  "reap_batch now qs limit b \<equiv> take (nat limit) (sort (reap_candidates now qs b))"

lemma reap_batch_facts:
  assumes "broker_wf b"
  shows "distinct (map due_id (reap_batch now qs limit b))"
    and "c \<in> set (reap_batch now qs limit b) \<Longrightarrow> jobs b (due_id c) \<noteq> None"
    and "sorted (reap_batch now qs limit b)"
proof -
  show "distinct (map due_id (reap_batch now qs limit b))"
    using distinct_reap_candidates [OF assms, of now qs] by (metis distinct_take take_map)
  show "c \<in> set (reap_batch now qs limit b) \<Longrightarrow> jobs b (due_id c) \<noteq> None"
    using reap_candidate_iff [OF assms, of c now qs] by (auto dest!: in_set_takeD)
  show "sorted (reap_batch now qs limit b)" by (simp add: sorted_wrt_take)
qed

section \<open>Legal moves\<close>

text \<open>The states from which an operation moves a job.\<close>

fun op_source :: "op \<Rightarrow> state set" where
  "op_source (OpEnqueue _ _) = {StateNone}"
| "op_source (OpDequeue _) = {StatePending}"
| "op_source (OpPromote _) = {StateScheduled, StateRetry}"
| "op_source (OpRetryDead _) = {StateDead}"
| "op_source (OpPurgeDead _) = {StateDead}"
| "op_source _ = {StateActive}"

definition legal_move :: "store \<Rightarrow> store \<Rightarrow> string \<Rightarrow> bool" where
  "legal_move s s' i \<longleftrightarrow>
     s' i = s i
   \<or> (s i \<noteq> None \<and> s' i \<noteq> None \<and> lstate s' i = lstate s i)
   \<or> (s' i \<noteq> None \<and> CanTransition (lstate s i) (lstate s' i))
   \<or> (s' i = None \<and> (CanTransition (lstate s i) StateCompleted \<or> lstate s i = StateDead))"

lemma lstep_legal_move: "lstep s e s' \<Longrightarrow> legal_move s s' i"
  using lstep_legal [of s e s' i] by (auto simp: legal_move_def)

lemma lstep_source:
  assumes "lstep s e s'" and "allowed (now, p) e"
  shows "lstate s (event_id e) \<in> op_source p
    \<and> (lstate s' (event_id e) \<notin> op_source p \<or> (\<exists>w ids vt. p = OpExtend w ids vt)
         \<and> lstate s' (event_id e) = StateActive)"
  using assms by (induction rule: lstep.induct) (cases p; auto simp: allowed.simps lstate_def)+

lemma lrun_source:
  "lrun s es s' \<Longrightarrow> \<forall>e \<in> set es. allowed (now, p) e \<Longrightarrow>
     (lstate s i \<notin> op_source p \<longrightarrow> s' i = s i) \<and> legal_move s s' i
     \<and> ((\<exists>w ids vt. p = OpExtend w ids vt) \<longrightarrow> lstate s' i = lstate s i \<and> (s' i = None \<longleftrightarrow> s i = None))"
proof (induction rule: lrun.induct)
  case (lrun_Nil s)
  then show ?case by (simp add: legal_move_def)
next
  case (lrun_Cons s e s' es s'')
  then have IH: "(lstate s' i \<notin> op_source p \<longrightarrow> s'' i = s' i) \<and> legal_move s' s'' i
     \<and> ((\<exists>w ids vt. p = OpExtend w ids vt) \<longrightarrow> lstate s'' i = lstate s' i \<and> (s'' i = None \<longleftrightarrow> s' i = None))"
    by simp
  show ?case
  proof (cases "i = event_id e")
    case False
    with lrun_Cons.hyps(1) have "s' i = s i" by (rule lstep_other)
    with IH show ?thesis by (simp add: legal_move_def lstate_def)
  next
    case True
    have src: "lstate s i \<in> op_source p
      \<and> (lstate s' i \<notin> op_source p \<or> (\<exists>w ids vt. p = OpExtend w ids vt) \<and> lstate s' i = StateActive)"
      using lstep_source [OF lrun_Cons.hyps(1), of now p] lrun_Cons.prems True by simp
    have mv: "legal_move s s' i" by (rule lstep_legal_move [OF lrun_Cons.hyps(1)])
    show ?thesis
    proof (cases "\<exists>w ids vt. p = OpExtend w ids vt")
      case False
      with src IH have "s'' i = s' i" by blast
      with mv src False show ?thesis by (simp add: legal_move_def lstate_def)
    next
      case ext: True
      then have "op_source p = {StateActive}" by auto
      with src have "lstate s i = StateActive" by simp
      moreover from ext lrun_Cons.prems obtain w where "e = Renewed i w"
        using True by (auto simp: allowed.simps)
      with lrun_Cons.hyps(1) have "lstate s' i = StateActive \<and> s' i \<noteq> None \<and> s i \<noteq> None"
        by (auto elim!: lstep.cases simp: lstate_def)
      ultimately show ?thesis using IH ext by (auto simp: legal_move_def)
    qed
  qed
qed

section \<open>Where a job is\<close>

lemma count_list_map_fst:
  "distinct (map fst al) \<Longrightarrow> count_list (map fst al) i = (if map_of al i = None then 0 else 1)"
  by (simp add: count_list_distinct map_of_eq_None_iff)

lemma count_list_concat_pending:
  assumes "broker_wf b"
  shows "count_list (concat (map (\<lambda>(q, _). pending b q) (queues b))) i
    = (if lstate (jobs b) i = StatePending then 1 else 0)"
proof -
  have pd: "i \<in> set (pending b q) \<longleftrightarrow> lstate (jobs b) i = StatePending \<and> Queue (the (jobs b i)) = q" for q
    using broker_wfD(4) [OF assms, of i] by (simp add: placed_def)
  have dq: "distinct (pending b q)" for q
    using broker_wfD(3) [OF assms] by (simp add: shape_def)
  have gen: "distinct (map fst qs) \<Longrightarrow> count_list (concat (map (\<lambda>(q, _). pending b q) qs)) i
      = (if lstate (jobs b) i = StatePending \<and> Queue (the (jobs b i)) \<in> fst ` set qs then 1 else 0)"
    for qs :: "(string \<times> unit) list"
  proof (induction qs)
    case (Cons x qs)
    then show ?case using pd [of "fst x"] by (cases x) (auto simp: count_list_distinct [OF dq])
  qed simp
  have "lstate (jobs b) i = StatePending \<Longrightarrow> Queue (the (jobs b i)) \<in> fst ` set (queues b)"
    using broker_wfD(5) [OF assms]
    by (auto simp: lstate_def known_queues_def in_keys_iff split: option.splits)
  with gen [of "queues b"] broker_wfD(3) [OF assms] show ?thesis by (auto simp: shape_def)
qed

lemma occurrences_wf:
  assumes "broker_wf b"
  shows "occurrences b i = (if jobs b i = None then 0 else 1)"
proof (cases "jobs b i")
  case None
  then show ?thesis using broker_wfD(3) [OF assms] broker_wfD(4) [OF assms, of i]
    by (simp add: occurrences_def count_list_concat_pending [OF assms] count_list_map_fst shape_def
        placed_def count_list_distinct [of "dead b"] lstate_def)
next
  case (Some j)
  then have "State j \<in> live_states" using broker_wfD(2) [OF assms] by (auto simp: job_wf_def dest!: store_wfD)
  with Some show ?thesis using broker_wfD(3) [OF assms] broker_wfD(4) [OF assms, of i]
    by (auto simp: occurrences_def count_list_concat_pending [OF assms] count_list_map_fst shape_def
        placed_def count_list_distinct [of "dead b"] live_states_def)
qed

text \<open>
  C1. In every reachable broker a stored job occurs exactly once over all containers (the ready lists,
  the active, scheduled and retry maps and the dead letters), namely in the container of its state and
  with its own deadline or run-at there, and an ID that is not stored occurs in none: a job is never
  observable in two places or in neither.
\<close>

theorem job_in_one_place:
  assumes "reachable b"
  shows "occurrences b i = (if jobs b i = None then 0 else 1)
    \<and> (case jobs b i of None \<Rightarrow> True | Some j \<Rightarrow> ID j = i \<and>
        (case State j of
           StatePending \<Rightarrow> i \<in> set (pending b (Queue j))
         | StateActive \<Rightarrow> map_of (active b) i = Some (Deadline j) \<and> Owner j \<noteq> []
         | StateScheduled \<Rightarrow> map_of (scheduled b) i = Some (RunAt j)
         | StateRetry \<Rightarrow> map_of (retry b) i \<noteq> None
         | StateDead \<Rightarrow> i \<in> set (dead b)
         | _ \<Rightarrow> False))"
proof (intro conjI)
  have wf: "broker_wf b" using assms by (rule reachable_wf)
  show "occurrences b i = (if jobs b i = None then 0 else 1)" using wf by (rule occurrences_wf)
  show "case jobs b i of None \<Rightarrow> True | Some j \<Rightarrow> ID j = i \<and>
        (case State j of
           StatePending \<Rightarrow> i \<in> set (pending b (Queue j))
         | StateActive \<Rightarrow> map_of (active b) i = Some (Deadline j) \<and> Owner j \<noteq> []
         | StateScheduled \<Rightarrow> map_of (scheduled b) i = Some (RunAt j)
         | StateRetry \<Rightarrow> map_of (retry b) i \<noteq> None
         | StateDead \<Rightarrow> i \<in> set (dead b)
         | _ \<Rightarrow> False)"
    using broker_wfD(2) [OF wf] broker_wfD(4) [OF wf, of i]
    by (auto simp: placed_def job_wf_def live_states_def dest!: store_wfD split: option.splits)
qed

theorem job_in_one_place_witness:
  "occurrences example ''a'' = 1 \<and> map_of (active example) ''a'' = Some 31 \<and> occurrences example ''d'' = 0"
  using job_in_one_place [OF example_reachable, of "''a''"] job_in_one_place [OF example_reachable, of "''d''"]
  by (simp add: example_fields example_a_def)

text \<open>
  C2. Every operation on a reachable broker moves every job along an arrow of the transition table of
  src/job.go, or leaves it (a renewal keeps the state); a job is dropped only from the active state, to
  completion, or from the dead letters.
\<close>

theorem operations_move_legally:
  assumes "reachable b" and "admissible p b"
  shows "legal_move (jobs b) (jobs (exec p b)) i"
proof -
  obtain now q where p: "p = (now, q)" by (cases p)
  obtain es where "lrun (jobs b) es (jobs (exec p b))" "\<forall>e \<in> set es. allowed (now, q) e"
    using mem.exec_refines [OF reachable_wf [OF assms(1)] assms(2)] p by blast
  then show ?thesis using lrun_source by blast
qed

theorem operations_move_legally_witness:
  "admissible (12, OpAck ''w1'' ''a'') example
    \<and> legal_move (jobs example) (jobs (exec (12, OpAck ''w1'' ''a'') example)) ''a''"
  using operations_move_legally [OF example_reachable, of "(12, OpAck ''w1'' ''a'')"] by simp

text \<open>
  C3. Refinement: every run of operations of the in-process broker acts on the stored jobs as a run of
  the abstract lifecycle, whose events are those that the operations of the run are allowed to cause,
  and whose claims are exactly the jobs that Dequeue handed out, in order, with their workers.
\<close>

theorem broker_refines_lifecycle:
  assumes "reachable b" and "run_ok admissible exec ops b"
  shows "\<exists>es. lrun (jobs b) es (jobs (run exec ops b)) \<and> (\<forall>e \<in> set es. \<exists>p \<in> set ops. allowed p e)
    \<and> event_handouts es = handouts given exec ops b"
  by (rule mem.run_refines [OF reachable_wf [OF assms(1)] assms(2)])

theorem broker_refines_lifecycle_witness:
  "\<exists>es. lrun (jobs example) es (jobs (run exec [(12, OpDequeue (example_claim ''w2''))] example))
    \<and> event_handouts es = [(''b'', ''w2'')]"
proof -
  have "handouts given exec [(12, OpDequeue (example_claim ''w2''))] example = [(''b'', ''w2'')]" by code_simp
  with broker_refines_lifecycle [OF example_reachable, of "[(12, OpDequeue (example_claim ''w2''))]"]
  show ?thesis by auto
qed

section \<open>Jobs are not lost\<close>

lemma exec_loss:
  assumes "broker_wf b" and "admissible p b" and j: "jobs b i = Some j" and "jobs (exec p b) i = None"
  shows "(\<exists>now. p = (now, OpAck (Owner j) i)) \<and> State j = StateActive
    \<or> (\<exists>now ids. p = (now, OpPurgeDead ids) \<and> (ids = [] \<or> i \<in> set ids)) \<and> State j = StateDead"
proof -
  obtain now q where p: "p = (now, q)" by (cases p)
  obtain es where es: "lrun (jobs b) es (jobs (exec p b))" "\<forall>e \<in> set es. allowed (now, q) e"
    using mem.exec_refines [OF assms(1,2)] p by blast
  from lrun_lost [OF es(1) j assms(4)] es(2)
  have "(\<exists>w. allowed (now, q) (Completed i w)) \<or> allowed (now, q) (Purged i)" by blast
  moreover have "State j \<in> op_source q"
    using lrun_source [OF es, of i] j assms(4) by auto
  ultimately show ?thesis
    using assms(4) p j
    by (cases q) (auto simp: allowed.simps Ack_def checkOpen_def ownedActive_def split: if_splits)
qed

text \<open>
  C4. No job is lost: if a job is stored in a reachable broker and no longer stored after some run, then
  at one point of the run its owner acknowledged it while it was active, or it was purged from the
  dead letters.
\<close>

theorem stored_job_not_lost:
  assumes "reachable b" and "run_ok admissible exec ops b"
    and "jobs b i = Some j" and "jobs (run exec ops b) i = None"
  shows "\<exists>pre p post k. ops = pre @ p # post \<and> jobs (run exec pre b) i = Some k
    \<and> ((\<exists>now. p = (now, OpAck (Owner k) i)) \<and> State k = StateActive
      \<or> (\<exists>now ids. p = (now, OpPurgeDead ids) \<and> (ids = [] \<or> i \<in> set ids)) \<and> State k = StateDead)"
proof -
  from run_loss_point [of jobs, OF assms(3,4)] obtain pre p post k where
    split: "ops = pre @ p # post" "jobs (run exec pre b) i = Some k" "jobs (exec p (run exec pre b)) i = None" by blast
  with assms(2) have ok: "run_ok admissible exec pre b" "admissible p (run exec pre b)" by (simp_all add: run_ok_append)
  with exec_loss [OF mem.run_invar [OF reachable_wf [OF assms(1)] ok(1)] ok(2) split(2,3)] split show ?thesis by blast
qed

theorem stored_job_not_lost_witness:
  "jobs (run exec [(12, OpAck ''w1'' ''a'')] example) ''a'' = None
    \<and> (\<exists>pre p post k. [(12, OpAck ''w1'' ''a'')] = pre @ p # post \<and> jobs (run exec pre example) ''a'' = Some k
      \<and> ((\<exists>now. p = (now, OpAck (Owner k) ''a'')) \<and> State k = StateActive
        \<or> (\<exists>now ids. p = (now, OpPurgeDead ids) \<and> (ids = [] \<or> ''a'' \<in> set ids)) \<and> State k = StateDead))"
proof -
  have "jobs (run exec [(12, OpAck ''w1'' ''a'')] example) ''a'' = None" by code_simp
  with stored_job_not_lost [OF example_reachable _ example_fields(2), of "[(12, OpAck ''w1'' ''a'')]"]
  show ?thesis by simp
qed

end
