(* ===== verification/Memory_Maintenance.thy ===== *)
theory Memory_Maintenance
  imports Memory_Delivery
begin

text \<open>
  The maintenance operations of the in-process broker: what one call of Reap and of Promote does to the
  jobs, the ready lists and the dead letters, and that repeated calls finish the sweep.
\<close>

section \<open>Reap\<close>

lemma fold_reap_dead:
  "distinct (map due_id cs) \<Longrightarrow> (\<And>c. c \<in> set cs \<Longrightarrow> \<exists>j. jobs b (due_id c) = Some j \<and> ID j = due_id c) \<Longrightarrow>
     dead (fold reap_one cs b) = dead b @ map due_id (filter (\<lambda>c. Exhausted (the (jobs b (due_id c)))) cs)"
proof (induction cs arbitrary: b)
  case (Cons c cs)
  from Cons.prems(2) [of c] obtain j where j: "jobs b (due_id c) = Some j" "ID j = due_id c" by auto
  have same: "jobs (reap_one c b) (due_id d) = jobs b (due_id d)" if "d \<in> set cs" for d
    using Cons.prems(1) that by (auto simp: reap_one_other image_iff)
  have "dead (fold reap_one cs (reap_one c b)) = dead (reap_one c b)
      @ map due_id (filter (\<lambda>d. Exhausted (the (jobs (reap_one c b) (due_id d)))) cs)"
    using Cons.prems same by (intro Cons.IH) auto
  also have "filter (\<lambda>d. Exhausted (the (jobs (reap_one c b) (due_id d)))) cs
      = filter (\<lambda>d. Exhausted (the (jobs b (due_id d)))) cs"
    using same by (intro filter_cong) auto
  finally show ?case using j by (simp add: reap_one_Some)
qed simp

lemma Reap_broker_wf: "broker_wf b \<Longrightarrow> broker_wf (snd (Reap now qs limit b))"
  by (rule refines_wf [OF Reap_refines])

text \<open>
  What Reap has to recover: the active jobs of the wanted queues (all of them for an empty list) whose deadline
  is not after \<open>now\<close>.
\<close>

definition expired_leases :: "time \<Rightarrow> string list \<Rightarrow> broker \<Rightarrow> due_entry set" where
  "expired_leases now qs b = {Due i (Deadline j) |i j. jobs b i = Some j \<and> State j = StateActive \<and> Deadline j \<le> now
     \<and> (qs = [] \<or> Queue j \<in> set qs)}"

lemma set_reap_candidates: "broker_wf b \<Longrightarrow> set (reap_candidates now qs b) = expired_leases now qs b"
  by (auto simp: expired_leases_def reap_candidate_iff) (metis due_entry.collapse)+

lemma length_reap_candidates: "broker_wf b \<Longrightarrow> distinct (reap_candidates now qs b)"
  using distinct_reap_candidates [of b now qs]
  by (metis distinct_map mset_eq_imp_distinct_iff mset_sort)

lemma sort_reap_candidates:
  assumes "broker_wf b"
  shows "sort (reap_candidates now qs b) = sorted_list_of_set (expired_leases now qs b)"
    and "length (reap_candidates now qs b) = card (expired_leases now qs b)"
  using length_reap_candidates [OF assms, of now qs] set_reap_candidates [OF assms, of now qs]
  by (auto simp: sorted_list_of_set_sort_remdups distinct_remdups_id distinct_card simp flip: set_reap_candidates [OF assms])

text \<open>
  C14. One call of Reap on a reachable open broker acts on exactly the first \<open>limit\<close> of the expired leases
  of the wanted queues, oldest deadline first with ties by ID, and returns their number. Each of them
  loses its owner and gains a recovery; one with attempts left goes to the head of its ready list (so
  that the batch precedes all waiting work, latest deadline in front), one without goes to the end of
  the dead letters with the orphan reason. Every other job is untouched.
\<close>

theorem Reap_functional:
  fixes now :: time and qs :: "string list"
  assumes "reachable b" and "\<not> closed b" and "0 < limit"
  defines "batch \<equiv> take (nat limit) (sorted_list_of_set (expired_leases now qs b))" and "b' \<equiv> snd (Reap now qs limit b)"
  shows "fst (Reap now qs limit b) = Inr (int (length batch))
    \<and> sorted batch \<and> distinct (map due_id batch)
    \<and> (\<forall>i. jobs b' i = (if i \<in> due_id ` set batch then map_option reaped (jobs b i) else jobs b i))
    \<and> (\<forall>q. pending b' q = rev (map due_id (filter (\<lambda>c. \<not> Exhausted (the (jobs b (due_id c)))
          \<and> Queue (the (jobs b (due_id c))) = q) batch)) @ pending b q)
    \<and> dead b' = dead b @ map due_id (filter (\<lambda>c. Exhausted (the (jobs b (due_id c)))) batch)"
proof -
  have wf: "broker_wf b" using assms(1) by (rule reachable_wf)
  have batch: "batch = reap_batch now qs limit b" by (simp add: batch_def sort_reap_candidates [OF wf])
  note facts = reap_batch_facts [OF wf, where now = now and qs = qs and limit = limit, folded batch]
  have b': "b' = fold reap_one batch b" and res: "fst (Reap now qs limit b) = Inr (int (length batch))"
    using assms(2,3) by (simp_all add: b'_def batch Reap_eq min.commute)
  have "\<exists>j. jobs b (due_id c) = Some j \<and> ID j = due_id c" if "c \<in> set batch" for c
    using facts(2) [OF that] job_ID [OF wf] by auto
  then show ?thesis
    unfolding b' using res facts
    by (simp add: fold_reap_jobs fold_reap_pending fold_reap_dead)
qed

theorem Reap_functional_witness:
  "fst (Reap 100 [] 5 example) = Inr 1 \<and> pending (snd (Reap 100 [] 5 example)) ''q'' = [''a'', ''b'']
    \<and> jobs (snd (Reap 100 [] 5 example)) ''a'' = Some (reaped example_a)"
proof -
  have "reap_batch 100 [] 5 example = [Due ''a'' 31]" by code_simp
  then have "take 5 (sorted_list_of_set (expired_leases 100 [] example)) = [Due ''a'' 31]"
    by (simp add: sort_reap_candidates [OF reachable_wf [OF example_reachable]])
  moreover have "\<not> Exhausted example_a \<and> Queue example_a = ''q''" by code_simp
  ultimately show ?thesis
    using Reap_functional [OF example_reachable, of 5 100 "[]"] by (simp add: example_fields)
qed

lemma reap_candidates_after:
  assumes wf: "broker_wf b" and "\<not> closed b" and "0 < limit"
  shows "set (reap_candidates now qs (snd (Reap now qs limit b)))
    = set (reap_candidates now qs b) - set (reap_batch now qs limit b)" (is "set (reap_candidates now qs ?b) = _")
proof -
  have b': "?b = fold reap_one (reap_batch now qs limit b) b" using assms by (simp add: Reap_eq)
  have js: "jobs ?b i = (if i \<in> due_id ` set (reap_batch now qs limit b)
      then map_option reaped (jobs b i) else jobs b i)" for i
    unfolding b' using reap_batch_facts [OF wf, where now = now and qs = qs and limit = limit] by (intro fold_reap_jobs) auto
  have na: "State (reaped j) \<noteq> StateActive" for j by (simp add: reaped_def)
  have sub: "c \<in> set (reap_candidates now qs b)" if "c \<in> set (reap_batch now qs limit b)" for c
    using that by (auto dest: in_set_takeD)
  have same: "c = d" if "c \<in> set (reap_candidates now qs b)" "d \<in> set (reap_candidates now qs b)"
    "due_id c = due_id d" for c d
    using that unfolding reap_candidate_iff [OF wf] by (metis due_entry.expand option.inject)
  have "c \<in> set (reap_candidates now qs ?b) \<longleftrightarrow>
      c \<in> set (reap_candidates now qs b) \<and> due_id c \<notin> due_id ` set (reap_batch now qs limit b)" for c
    unfolding reap_candidate_iff [OF Reap_broker_wf [OF wf]] reap_candidate_iff [OF wf] js
    using na by (auto split: if_splits)
  moreover have "c \<in> set (reap_candidates now qs b) \<Longrightarrow>
      due_id c \<in> due_id ` set (reap_batch now qs limit b) \<longleftrightarrow> c \<in> set (reap_batch now qs limit b)" for c
    using sub same by blast
  ultimately show ?thesis by blast
qed

fun reap_sweep :: "nat \<Rightarrow> time \<Rightarrow> string list \<Rightarrow> int \<Rightarrow> broker \<Rightarrow> broker" where
  "reap_sweep 0 now qs limit b = b"
| "reap_sweep (Suc n) now qs limit b = reap_sweep n now qs limit (snd (Reap now qs limit b))"

lemma length_candidates_after:
  assumes "broker_wf b" and "\<not> closed b" and "0 < limit"
  shows "length (reap_candidates now qs (snd (Reap now qs limit b)))
    = length (reap_candidates now qs b) - nat limit"
proof -
  let ?cs = "reap_candidates now qs b" and ?cs' = "reap_candidates now qs (snd (Reap now qs limit b))"
  have d: "distinct ?cs" "distinct ?cs'"
    using assms by (simp_all add: length_reap_candidates Reap_broker_wf)
  have "set (reap_batch now qs limit b) \<subseteq> set ?cs" by (auto dest: in_set_takeD)
  moreover have "distinct (reap_batch now qs limit b)" using d(1) by simp
  ultimately have "card (set ?cs - set (reap_batch now qs limit b)) = length ?cs - length (reap_batch now qs limit b)"
    using d(1) by (simp add: card_Diff_subset distinct_card)
  then have "length ?cs' = length ?cs - length (reap_batch now qs limit b)"
    using d(2) by (metis reap_candidates_after [OF assms] distinct_card)
  then show ?thesis by (simp add: min_def split: if_splits)
qed

lemma Reap_closed: "closed (snd (Reap now qs limit b)) = closed b"
proof -
  have "closed (reap_one c b) = closed b" for c b
    by (auto simp: reap_one_def moveToDeadLocked_def Let_def split: option.splits)
  then have "closed (fold reap_one cs b) = closed b" for cs b
    by (induction cs arbitrary: b) auto
  then show ?thesis
    using Reap_eq [of limit b now qs] by (cases "closed b \<or> limit \<le> 0") (auto simp: Reap_def checkOpen_def)
qed

lemma reap_sweep_recovers:
  assumes "broker_wf b" and "\<not> closed b" and "0 < limit" and "card (expired_leases now qs b) \<le> n * nat limit"
  shows "expired_leases now qs (reap_sweep n now qs limit b) = {}
    \<and> (\<forall>c \<in> expired_leases now qs b. \<exists>k. jobs (reap_sweep n now qs limit b) (due_id c) = Some k
         \<and> State k \<in> {StatePending, StateDead} \<and> Owner k = [])
    \<and> (\<forall>i k. jobs b i = Some k \<and> State k \<in> {StatePending, StateDead}
         \<longrightarrow> jobs (reap_sweep n now qs limit b) i = Some k)"
  using assms(1,2,4)
proof (induction n arbitrary: b)
  case 0
  then have "finite (expired_leases now qs b)" by (simp flip: set_reap_candidates)
  with 0 show ?case by simp
next
  case (Suc n)
  let ?b = "snd (Reap now qs limit b)" and ?batch = "reap_batch now qs limit b"
  have wf: "broker_wf ?b" and op: "\<not> closed ?b" using Suc.prems by (simp_all add: Reap_broker_wf Reap_closed)
  have le: "card (expired_leases now qs ?b) \<le> n * nat limit"
    using Suc.prems assms(3) wf by (simp add: length_candidates_after flip: sort_reap_candidates(2))
  note IH = Suc.IH [OF wf op le]
  have b': "?b = fold reap_one ?batch b" using Suc.prems assms(3) by (simp add: Reap_eq)
  have js: "jobs ?b i = (if i \<in> due_id ` set ?batch then map_option reaped (jobs b i) else jobs b i)" for i
    unfolding b' using reap_batch_facts [OF Suc.prems(1), where now = now and qs = qs and limit = limit] by (intro fold_reap_jobs) auto
  have keep: "jobs ?b i = Some k" if "jobs b i = Some k" "State k \<in> {StatePending, StateDead}" for i k
    using that reap_candidate_iff [OF Suc.prems(1), of _ now qs] js [of i] by (auto dest!: in_set_takeD)
  have "\<exists>k. jobs (reap_sweep n now qs limit ?b) (due_id c) = Some k \<and> State k \<in> {StatePending, StateDead} \<and> Owner k = []"
    if c: "c \<in> expired_leases now qs b" for c
  proof (cases "c \<in> set ?batch")
    case True
    from c obtain j where "jobs b (due_id c) = Some j" by (auto simp: expired_leases_def)
    with True js have "jobs ?b (due_id c) = Some (reaped j)" by auto
    moreover have "State (reaped j) \<in> {StatePending, StateDead} \<and> Owner (reaped j) = []" by (simp add: reaped_def)
    ultimately show ?thesis using IH by blast
  next
    case False
    with c have "c \<in> expired_leases now qs ?b"
      using reap_candidates_after [OF Suc.prems(1,2) assms(3), of now qs]
      by (simp add: set_reap_candidates [OF Suc.prems(1)] set_reap_candidates [OF wf])
    with IH show ?thesis by blast
  qed
  with IH keep show ?case by auto
qed

text \<open>
  C15. Orphans are recovered: with a positive limit, calling Reap often enough (at least the number of
  expired leases divided by the limit) leaves no active job in the wanted queues past its deadline, and
  every job whose lease had expired is then pending or dead, without an owner.
\<close>

theorem Reap_recovers_orphans:
  assumes "reachable b" and "\<not> closed b" and "0 < limit" and "card (expired_leases now qs b) \<le> n * nat limit"
  shows "expired_leases now qs (reap_sweep n now qs limit b) = {}
    \<and> (\<forall>c \<in> expired_leases now qs b. \<exists>k. jobs (reap_sweep n now qs limit b) (due_id c) = Some k
         \<and> State k \<in> {StatePending, StateDead} \<and> Owner k = [])"
  using reap_sweep_recovers [OF reachable_wf [OF assms(1)] assms(2-4)] by blast

theorem Reap_recovers_orphans_witness:
  "Due ''a'' 31 \<in> expired_leases 100 [''q''] example \<and> expired_leases 100 [''q''] (reap_sweep 1 100 [''q''] 1 example) = {}
    \<and> (\<exists>k. jobs (reap_sweep 1 100 [''q''] 1 example) ''a'' = Some k \<and> State k \<in> {StatePending, StateDead})"
proof -
  have "reap_candidates 100 [''q''] example = [Due ''a'' 31]" by code_simp
  then have "expired_leases 100 [''q''] example = {Due ''a'' 31}"
    by (simp flip: set_reap_candidates [OF reachable_wf [OF example_reachable]])
  with Reap_recovers_orphans [OF example_reachable, of 1 100 "[''q'']" 1] show ?thesis
    by (auto simp: example_fields)
qed

section \<open>Promote\<close>

definition promote_one :: "due_entry \<times> which_set \<Rightarrow> broker \<Rightarrow> broker" where
  "promote_one x b = promote_job (snd x) (due_id (fst x)) (the (jobs b (due_id (fst x)))) b"

abbreviation promote_batch :: "time \<Rightarrow> int \<Rightarrow> broker \<Rightarrow> (due_entry \<times> which_set) list" where
  "promote_batch now limit b \<equiv> take (nat limit) (sort_key fst (promote_candidates now b))"

lemma promote_one_facts:
  "jobs b (due_id (fst x)) = Some j \<Longrightarrow>
     jobs (promote_one x b) = (jobs b)(due_id (fst x) \<mapsto> j\<lparr>State := StatePending\<rparr>)"
  "jobs b (due_id (fst x)) = Some j \<Longrightarrow>
     pending (promote_one x b) q = pending b q @ (if Queue j = q then [due_id (fst x)] else [])"
  by (cases "snd x"; simp add: promote_one_def promote_job_def Let_def)+

lemma promote_loop_eq:
  "n \<le> limit \<Longrightarrow> distinct (map (due_id \<circ> fst) cs) \<Longrightarrow> (\<And>x. x \<in> set cs \<Longrightarrow> jobs b (due_id (fst x)) \<noteq> None) \<Longrightarrow>
     promote_loop limit cs n b =
       (n + min (limit - n) (int (length cs)), fold promote_one (take (nat (limit - n)) cs) b)"
proof (induction cs arbitrary: n b)
  case Nil
  then show ?case by simp
next
  case (Cons x cs)
  show ?case
  proof (cases "limit \<le> n")
    case True
    with Cons.prems have "limit = n" by simp
    then show ?thesis by (cases x) simp
  next
    case False
    from Cons.prems(3) [of x] obtain j where j: "jobs b (due_id (fst x)) = Some j" by auto
    have "jobs (promote_one x b) (due_id (fst y)) \<noteq> None" if "y \<in> set cs" for y
      using Cons.prems(3) [of y] that j by (simp add: promote_one_facts)
    with False Cons.IH [of "n + 1" "promote_one x b"] Cons.prems(2)
    have IH: "promote_loop limit cs (n + 1) (promote_one x b) = (n + 1 + min (limit - (n + 1)) (int (length cs)),
        fold promote_one (take (nat (limit - (n + 1))) cs) (promote_one x b))" by simp
    have "nat (limit - n) = Suc (nat (limit - (n + 1)))" using False by simp
    moreover have "promote_loop limit (x # cs) n b = promote_loop limit cs (n + 1) (promote_one x b)"
      using False j by (cases x) (simp add: promote_one_def)
    ultimately show ?thesis using IH False by (simp add: min_def)
  qed
qed

lemma fold_promote_jobs:
  "distinct (map (due_id \<circ> fst) cs) \<Longrightarrow> (\<And>x. x \<in> set cs \<Longrightarrow> jobs b (due_id (fst x)) \<noteq> None) \<Longrightarrow>
     jobs (fold promote_one cs b) i = (if i \<in> (due_id \<circ> fst) ` set cs
       then map_option (\<lambda>j. j\<lparr>State := StatePending\<rparr>) (jobs b i) else jobs b i)"
proof (induction cs arbitrary: b)
  case (Cons x cs)
  from Cons.prems(2) [of x] obtain j where j: "jobs b (due_id (fst x)) = Some j" by auto
  have "jobs (promote_one x b) (due_id (fst y)) \<noteq> None" if "y \<in> set cs" for y
    using Cons.prems(2) [of y] that j by (simp add: promote_one_facts)
  with Cons.IH [of "promote_one x b"] Cons.prems(1) j show ?case by (auto simp: promote_one_facts)
qed simp

lemma fold_promote_pending:
  "distinct (map (due_id \<circ> fst) cs) \<Longrightarrow> (\<And>x. x \<in> set cs \<Longrightarrow> jobs b (due_id (fst x)) \<noteq> None) \<Longrightarrow>
     pending (fold promote_one cs b) q = pending b q
       @ map (due_id \<circ> fst) (filter (\<lambda>x. Queue (the (jobs b (due_id (fst x)))) = q) cs)"
proof (induction cs arbitrary: b)
  case (Cons x cs)
  from Cons.prems(2) [of x] obtain j where j: "jobs b (due_id (fst x)) = Some j" by auto
  have same: "jobs (promote_one x b) (due_id (fst y)) = jobs b (due_id (fst y))" if "y \<in> set cs" for y
    using Cons.prems(1) that j by (auto simp: promote_one_facts image_iff)
  have "pending (fold promote_one cs (promote_one x b)) q = pending (promote_one x b) q
      @ map (due_id \<circ> fst) (filter (\<lambda>y. Queue (the (jobs (promote_one x b) (due_id (fst y)))) = q) cs)"
    using Cons.prems same by (intro Cons.IH) auto
  also have "filter (\<lambda>y. Queue (the (jobs (promote_one x b) (due_id (fst y)))) = q) cs
      = filter (\<lambda>y. Queue (the (jobs b (due_id (fst y)))) = q) cs"
    using same by (intro filter_cong) auto
  finally show ?case using j by (simp add: promote_one_facts)
qed simp

lemma promote_batch_facts:
  assumes "broker_wf b"
  shows "distinct (map (due_id \<circ> fst) (promote_batch now limit b))"
    and "x \<in> set (promote_batch now limit b) \<Longrightarrow> jobs b (due_id (fst x)) \<noteq> None"
  using distinct_promote_candidates [OF assms, of now] promote_candidate_iff [OF assms, of x now]
  by (auto simp: distinct_take take_map [symmetric] dest!: in_set_takeD)

text \<open>
  One call of Promote on a reachable open broker moves exactly the first \<open>limit\<close> of the due entries of
  the scheduled and retry sets, soonest first with ties by ID, and returns their number. Each becomes
  pending and is appended to its queue's ready list in that order; nothing else changes place, and in
  particular no job that is not due is promoted.
\<close>

theorem Promote_functional:
  fixes now :: time
  assumes "reachable b" and "\<not> closed b" and "0 < limit"
  defines "batch \<equiv> promote_batch now limit b" and "b' \<equiv> snd (Promote now limit b)"
  shows "fst (Promote now limit b) = Inr (int (length batch))
    \<and> sorted (map fst batch) \<and> distinct (map (due_id \<circ> fst) batch)
    \<and> (\<forall>x \<in> set batch. due_at (fst x) \<le> now \<and> lstate (jobs b) (due_id (fst x)) = set_state (snd x))
    \<and> (\<forall>i. jobs b' i = (if i \<in> (due_id \<circ> fst) ` set batch
          then map_option (\<lambda>j. j\<lparr>State := StatePending\<rparr>) (jobs b i) else jobs b i))
    \<and> (\<forall>q. pending b' q = pending b q
          @ map (due_id \<circ> fst) (filter (\<lambda>x. Queue (the (jobs b (due_id (fst x)))) = q) batch))"
proof -
  have wf: "broker_wf b" using assms(1) by (rule reachable_wf)
  note facts = promote_batch_facts [OF wf, where now = now and limit = limit, folded batch_def]
  have ne: "jobs b (due_id (fst x)) \<noteq> None" if "x \<in> set (sort_key fst (promote_candidates now b))" for x
    using that promote_candidate_iff [OF wf, of x now] by auto
  have "promote_loop limit (sort_key fst (promote_candidates now b)) 0 b
      = (0 + min (limit - 0) (int (length (sort_key fst (promote_candidates now b)))),
         fold promote_one (take (nat (limit - 0)) (sort_key fst (promote_candidates now b))) b)"
    using assms(3) ne distinct_promote_candidates [OF wf] by (intro promote_loop_eq) auto
  then have b': "b' = fold promote_one batch b"
    and res: "fst (Promote now limit b) = Inr (int (length batch))"
    using assms(2,3) by (simp_all add: b'_def batch_def Promote_def checkOpen_def min.commute)
  have "sorted (map fst batch)"
    by (simp add: batch_def sorted_wrt_take take_map [symmetric])
  moreover have "due_at (fst x) \<le> now \<and> lstate (jobs b) (due_id (fst x)) = set_state (snd x)"
    if "x \<in> set batch" for x
    using that promote_candidate_iff [OF wf, of x now] by (auto simp: batch_def dest!: in_set_takeD)
  ultimately show ?thesis
    unfolding b' using res facts
    by (simp add: fold_promote_jobs fold_promote_pending)
qed

theorem Promote_functional_witness:
  "fst (Promote 100 5 example) = Inr 1 \<and> pending (snd (Promote 100 5 example)) ''q'' = [''b'', ''c'']
    \<and> jobs (snd (Promote 100 5 example)) ''c'' = Some (example_c\<lparr>State := StatePending\<rparr>)"
proof -
  have "promote_batch 100 5 example = [(Due ''c'' 50, InScheduled)]" by code_simp
  moreover have "Queue example_c = ''q''" by code_simp
  ultimately show ?thesis
    using Promote_functional [OF example_reachable, of 5 100] by (simp add: example_fields)
qed

end
