(* ===== verification/Memory_Inspect.thy ===== *)
theory Memory_Inspect
  imports Memory_Delivery
begin

text \<open>
  Inspection of the in-process broker: Stats counts every stored job once, ListDead pages through the dead
  letters newest first, RetryDead and PurgeDead act on exactly the selected dead letters.
\<close>

section \<open>Stats\<close>

definition count_jobs :: "broker \<Rightarrow> string \<Rightarrow> state \<Rightarrow> int" where
  "count_jobs b q s = int (card {i. \<exists>j. jobs b i = Some j \<and> Queue j = q \<and> State j = s})"

definition in_queue :: "broker \<Rightarrow> string \<Rightarrow> string \<Rightarrow> bool" where
  "in_queue b q i \<longleftrightarrow> (\<exists>j. jobs b i = Some j \<and> Queue j = q)"

definition titled :: "(string \<times> queue_stats) list \<Rightarrow> bool" where
  "titled m \<longleftrightarrow> (\<forall>q s. map_of m q = Some s \<longrightarrow> qs_Queue s = q)"

lemma map_of_bump:
  assumes "titled m" and "jobs b i = Some j" and "map_of m (Queue j) = Some s"
  shows "map_of (bump b f i m) = (map_of m)(Queue j \<mapsto> f s)"
proof -
  have "qs_Queue s = Queue j" using assms(1,3) by (simp add: titled_def)
  then have "s\<lparr>qs_Queue := Queue j\<rparr> = s" by (cases s) simp
  with assms(2,3) show ?thesis by (simp add: bump_def stats_lookup_def)
qed

lemma fold_bump:
  assumes "\<And>s. qs_Queue (f s) = qs_Queue s"
  shows "titled m \<Longrightarrow> \<forall>(i, _) \<in> set al. \<exists>j. jobs b i = Some j \<and> map_of m (Queue j) \<noteq> None \<Longrightarrow>
    titled (fold (\<lambda>(i, _). bump b f i) al m)
    \<and> map_of (fold (\<lambda>(i, _). bump b f i) al m) q
        = map_option (f ^^ length (filter (\<lambda>(i, _). in_queue b q i) al)) (map_of m q)"
proof (induction al arbitrary: m)
  case Nil
  then show ?case by (simp add: option.map_ident)
next
  case (Cons x al)
  obtain i at where x: "x = (i, at)" by (cases x)
  with Cons.prems(2) obtain j s where j: "jobs b i = Some j" "map_of m (Queue j) = Some s" by auto
  note bump = map_of_bump [OF Cons.prems(1) j, of f]
  have "titled (bump b f i m)" using Cons.prems(1) j by (auto simp: titled_def bump assms)
  moreover have "\<forall>(i', _) \<in> set al. \<exists>j'. jobs b i' = Some j' \<and> map_of (bump b f i m) (Queue j') \<noteq> None"
    using Cons.prems(2) by (fastforce simp: bump)
  ultimately show ?case
    using Cons.IH [of "bump b f i m"] x j
    by (auto simp: bump in_queue_def funpow_swap1 option.map_comp comp_def)
qed

lemma funpow_counters:
  "((\<lambda>s. s\<lparr>qs_Active := qs_Active s + 1\<rparr>) ^^ n) s = s\<lparr>qs_Active := qs_Active s + int n\<rparr>"
  "((\<lambda>s. s\<lparr>qs_Scheduled := qs_Scheduled s + 1\<rparr>) ^^ n) s = s\<lparr>qs_Scheduled := qs_Scheduled s + int n\<rparr>"
  "((\<lambda>s. s\<lparr>qs_Retry := qs_Retry s + 1\<rparr>) ^^ n) s = s\<lparr>qs_Retry := qs_Retry s + int n\<rparr>"
  by (induction n) (simp_all add: add.commute)

lemma length_filter_keys:
  assumes "distinct (map fst al)"
  shows "length (filter (\<lambda>(i, _). P i) al) = card {i. map_of al i \<noteq> None \<and> P i}"
proof -
  have "distinct (map fst (filter (\<lambda>(i, _). P i) al))" using assms by (rule distinct_map_filter)
  then have "length (filter (\<lambda>(i, _). P i) al) = card (set (map fst (filter (\<lambda>(i, _). P i) al)))"
    by (metis distinct_card length_map)
  also have "set (map fst (filter (\<lambda>(i, _). P i) al)) = {i. i \<in> fst ` set al \<and> P i}" by force
  finally show ?thesis by (simp add: in_keys_iff)
qed

lemma length_filter_state:
  assumes "distinct (map fst al)" and "\<And>i. map_of al i \<noteq> None \<longleftrightarrow> lstate (jobs b) i = s" and "s \<noteq> StateNone"
  shows "int (length (filter (\<lambda>(i, _). in_queue b q i) al)) = count_jobs b q s"
  unfolding length_filter_keys [OF assms(1)] count_jobs_def
  using assms(2,3)
  by (intro arg_cong [of _ _ int] arg_cong [of _ _ card])
    (auto simp: in_queue_def lstate_def split: option.splits)

text \<open>The map under construction has an entry, with its own name, for the queue of every stored job.\<close>

definition stats_ready :: "broker \<Rightarrow> (string \<times> queue_stats) list \<Rightarrow> bool" where
  "stats_ready b m \<longleftrightarrow> titled m \<and> (\<forall>i j. jobs b i = Some j \<longrightarrow> map_of m (Queue j) \<noteq> None)"

lemma stats_stage:
  assumes "stats_ready b m" and "distinct (map fst (al :: (string \<times> time) list))"
    and "\<And>i. map_of al i \<noteq> None \<longleftrightarrow> lstate (jobs b) i = s" and "s \<noteq> StateNone"
    and "\<And>t. qs_Queue (f t) = qs_Queue t"
  shows "stats_ready b (fold (\<lambda>(i, _). bump b f i) al m)"
    and "map_of (fold (\<lambda>(i, _). bump b f i) al m) q = map_option (f ^^ nat (count_jobs b q s)) (map_of m q)"
proof -
  have "\<exists>j. jobs b i = Some j \<and> map_of m (Queue j) \<noteq> None" if "(i, at) \<in> set al" for i at
  proof -
    have "map_of al i = Some at" using assms(2) that by (rule map_of_is_SomeI)
    then have "lstate (jobs b) i = s" using assms(3) [of i] by simp
    then obtain j where "jobs b i = Some j" using assms(4) by (auto simp: lstate_def split: option.splits)
    with assms(1) show ?thesis by (auto simp: stats_ready_def)
  qed
  then have al: "\<forall>(i, _) \<in> set al. \<exists>j. jobs b i = Some j \<and> map_of m (Queue j) \<noteq> None" by auto
  have ti: "titled m" using assms(1) by (simp add: stats_ready_def)
  note st = fold_bump [OF assms(5) ti al, THEN conjunct1] fold_bump [OF assms(5) ti al, THEN conjunct2]
  show "stats_ready b (fold (\<lambda>(i, _). bump b f i) al m)" using assms(1) by (auto simp: stats_ready_def st)
  have "length (filter (\<lambda>(i, _). in_queue b q i) al) = nat (count_jobs b q s)"
    using length_filter_state [OF assms(2,3,4), of q] by linarith
  with st(2) show "map_of (fold (\<lambda>(i, _). bump b f i) al m) q = map_option (f ^^ nat (count_jobs b q s)) (map_of m q)"
    by simp
qed

lemma stats_base:
  assumes "distinct (map fst qs)"
  shows "map_of (fold (\<lambda>(q, _). AList.update q (g q)) qs m) q = (if q \<in> fst ` set qs then Some (g q) else map_of m q)"
  using assms by (induction qs arbitrary: m) auto

lemma length_pending_wf:
  assumes "broker_wf b"
  shows "int (length (pending b q)) = count_jobs b q StatePending"
proof -
  have "set (pending b q) = {i. \<exists>j. jobs b i = Some j \<and> Queue j = q \<and> State j = StatePending}"
    using broker_wfD(4) [OF assms] by (auto simp: placed_def lstate_def split: option.splits)
  moreover have "distinct (pending b q)" using broker_wfD(3) [OF assms] by (simp add: shape_def)
  ultimately show ?thesis using distinct_card [of "pending b q"] by (simp add: count_jobs_def)
qed

lemma count_jobs_nonneg [simp]: "0 \<le> count_jobs b q s"
  by (simp add: count_jobs_def)

text \<open>
  Stats of a reachable open broker is exact: it lists exactly the queues that were ever enqueued to,
  and for each of them the numbers of pending, active, scheduled and retrying jobs are the numbers of stored
  jobs of that queue in that state; the dead count is the number of stored dead jobs.
\<close>

theorem Stats_exact:
  assumes "reachable b" and "\<not> closed b"
  shows "\<exists>s. Stats now b = Inr s
    \<and> (\<forall>q. map_of (st_Queues s) q = (if map_of (queues b) q = None then None
         else Some \<lparr>qs_Queue = q, qs_Pending = count_jobs b q StatePending, qs_Active = count_jobs b q StateActive,
                   qs_Scheduled = count_jobs b q StateScheduled, qs_Retry = count_jobs b q StateRetry\<rparr>))
    \<and> st_Dead s = int (card {i. lstate (jobs b) i = StateDead})
    \<and> st_Processed s = processed b \<and> st_Failed s = failed b"
proof -
  have wf: "broker_wf b" using assms(1) by (rule reachable_wf)
  have sh: "distinct (map fst (active b))" "distinct (map fst (scheduled b))"
      "distinct (map fst (retry b))" "distinct (dead b)" "distinct (map fst (queues b))"
    using broker_wfD(3) [OF wf] by (simp_all add: shape_def)
  have pl: "map_of (active b) i \<noteq> None \<longleftrightarrow> lstate (jobs b) i = StateActive"
      "map_of (scheduled b) i \<noteq> None \<longleftrightarrow> lstate (jobs b) i = StateScheduled"
      "map_of (retry b) i \<noteq> None \<longleftrightarrow> lstate (jobs b) i = StateRetry"
      "i \<in> set (dead b) \<longleftrightarrow> lstate (jobs b) i = StateDead" for i
    using broker_wfD(4) [OF wf, of i] by (simp_all add: placed_def)
  define m0 where "m0 = fold (\<lambda>(q, _). AList.update q \<lparr>qs_Queue = q, qs_Pending = int (length (pending b q)),
      qs_Active = 0, qs_Scheduled = 0, qs_Retry = 0\<rparr>) (queues b) []"
  define m1 where "m1 = fold (\<lambda>(i, _). bump b (\<lambda>qs. qs\<lparr>qs_Active := qs_Active qs + 1\<rparr>) i) (active b) m0"
  define m2 where "m2 = fold (\<lambda>(i, _). bump b (\<lambda>qs. qs\<lparr>qs_Scheduled := qs_Scheduled qs + 1\<rparr>) i) (scheduled b) m1"
  define m3 where "m3 = fold (\<lambda>(i, _). bump b (\<lambda>qs. qs\<lparr>qs_Retry := qs_Retry qs + 1\<rparr>) i) (retry b) m2"
  have m0: "map_of m0 q = (if map_of (queues b) q = None then None else Some \<lparr>qs_Queue = q,
      qs_Pending = int (length (pending b q)), qs_Active = 0, qs_Scheduled = 0, qs_Retry = 0\<rparr>)" for q
    unfolding m0_def stats_base [OF sh(5)] by (simp add: in_keys_iff)
  have "stats_ready b m0" using broker_wfD(5) [OF wf] by (simp add: stats_ready_def titled_def m0 known_queues_def)
  note s1 = stats_stage [OF this sh(1) pl(1), where f = "\<lambda>qs. qs\<lparr>qs_Active := qs_Active qs + 1\<rparr>", simplified, folded m1_def]
  note s2 = stats_stage [OF s1(1) sh(2) pl(2), where f = "\<lambda>qs. qs\<lparr>qs_Scheduled := qs_Scheduled qs + 1\<rparr>", simplified, folded m2_def]
  note s3 = stats_stage [OF s2(1) sh(3) pl(3), where f = "\<lambda>qs. qs\<lparr>qs_Retry := qs_Retry qs + 1\<rparr>", simplified, folded m3_def]
  have "{i. lstate (jobs b) i = StateDead} = set (dead b)" using pl(4) by auto
  then have dd: "int (length (dead b)) = int (card {i. lstate (jobs b) i = StateDead})"
    using distinct_card [OF sh(4)] by simp
  have stats: "Stats now b = Inr \<lparr>st_Queues = m3, st_Dead = int (length (dead b)), st_Processed = processed b,
      st_Failed = failed b, st_Workers = int (length (filter (\<lambda>(_, w). now < we_expiresAt w) (workers b)))\<rparr>"
    using assms(2) by (simp add: Stats_def checkOpen_def m0_def m1_def m2_def m3_def)
  have "map_of m3 q = (if map_of (queues b) q = None then None
      else Some \<lparr>qs_Queue = q, qs_Pending = count_jobs b q StatePending, qs_Active = count_jobs b q StateActive,
                qs_Scheduled = count_jobs b q StateScheduled, qs_Retry = count_jobs b q StateRetry\<rparr>)" for q
    by (simp add: s3(2) s2(2) s1(2) m0 length_pending_wf [OF wf] funpow_counters)
  with stats dd show ?thesis by simp
qed

theorem Stats_exact_witness:
  "\<exists>s. Stats 12 example = Inr s \<and> st_Dead s = 0 \<and> map_of (st_Queues s) ''p'' = None
    \<and> map_of (st_Queues s) ''q'' = Some \<lparr>qs_Queue = ''q'', qs_Pending = count_jobs example ''q'' StatePending,
        qs_Active = count_jobs example ''q'' StateActive, qs_Scheduled = count_jobs example ''q'' StateScheduled,
        qs_Retry = count_jobs example ''q'' StateRetry\<rparr>"
proof -
  have "map_of (queues example) ''p'' = None" "map_of (queues example) ''q'' = Some ()" by code_simp+
  moreover have "lstate (jobs example) i \<noteq> StateDead" for i
    using example_jobs_cases [of i]
    by (cases "jobs example i") (auto simp: lstate_def example_fields example_a_def example_b_def example_c_def)
  ultimately show ?thesis
    using Stats_exact [OF example_reachable, of 12] by (auto simp: example_fields)
qed

section \<open>The dead letters\<close>

definition example_dead :: broker where
  "example_dead = run exec [(12, OpKill ''w1'' ''a'' ''boom''), (13, OpDequeue (example_claim ''w1'')),
     (14, OpKill ''w1'' ''b'' ''bad'')] example"

lemma example_dead_reachable: "reachable example_dead"
  unfolding example_dead_def by (rule reachable_run [OF example_reachable]) simp

lemma example_dead_fields:
  "closed example_dead = False" "dead example_dead = [''a'', ''b'']" "pending example_dead ''q'' = []"
  "map_option Queue (jobs example_dead ''a'') = Some ''q''" "map_option Queue (jobs example_dead ''b'') = Some ''q''"
  by code_simp+

lemma dead_stored: "broker_wf b \<Longrightarrow> i \<in> set (dead b) \<Longrightarrow> \<exists>j. jobs b i = Some j \<and> State j = StateDead"
  using broker_wfD(4) [of b i] by (auto simp: placed_def lstate_def split: option.splits)

lemma list_dead_loop_eq:
  "\<forall>i \<in> set ids. jobs b i \<noteq> None \<Longrightarrow> int (length out) \<le> limit \<Longrightarrow>
     list_dead_loop b limit ids out = out @ map (the \<circ> jobs b) (take (nat (limit - int (length out))) ids)"
proof (induction ids arbitrary: out)
  case (Cons i ids)
  then obtain j where j: "jobs b i = Some j" by auto
  show ?case
  proof (cases "int (length out) < limit")
    case True
    then have "nat (limit - int (length out)) = Suc (nat (limit - (int (length out) + 1)))" by simp
    with True j Cons show ?thesis by (simp add: algebra_simps)
  qed (use Cons.prems in simp)
qed simp

lemma ListDead_page:
  assumes "reachable b" and "\<not> closed b" and "0 \<le> offset" and "0 < limit"
  shows "ListDead offset limit b = Inr (map (the \<circ> jobs b) (take (nat limit) (drop (nat offset) (rev (dead b)))))"
proof -
  have "jobs b i \<noteq> None" if "i \<in> set (dead b)" for i
    using dead_stored [OF reachable_wf [OF assms(1)] that] by auto
  then have "\<forall>i \<in> set (rev (take (length (dead b) - nat offset) (dead b))). jobs b i \<noteq> None"
    by (auto dest!: in_set_takeD)
  from list_dead_loop_eq [OF this, of "[]" limit] assms show ?thesis
    by (simp add: ListDead_def checkOpen_def drop_rev)
qed

lemma concat_pages: "length xs \<le> n * k \<Longrightarrow> concat (map (\<lambda>p. take k (drop (p * k) xs)) [0..<n]) = xs"
proof (induction n arbitrary: xs)
  case (Suc n)
  have "concat (map (\<lambda>p. take k (drop (p * k) (drop k xs))) [0..<n]) = drop k xs"
    using Suc.prems by (intro Suc.IH) simp
  moreover have "[0..<Suc n] = 0 # map Suc [0..<n]" by (simp add: upt_conv_Cons map_Suc_upt del: upt_Suc)
  ultimately show ?case by (simp add: comp_def add.commute del: upt_Suc)
qed simp

text \<open>
  ListDead pages through the dead letters of a reachable open broker newest first: page \<open>p\<close> of size
  \<open>limit\<close> holds the entries from \<open>p * limit\<close> on, and enough consecutive pages list every dead job exactly once.
\<close>

theorem ListDead_pages:
  assumes "reachable b" and "\<not> closed b" and "0 < limit" and "length (dead b) \<le> n * limit"
  shows "concat (map (\<lambda>p. projr (ListDead (int (p * limit)) (int limit) b)) [0..<n]) = map (the \<circ> jobs b) (rev (dead b))
    \<and> (\<forall>p. length (projr (ListDead (int (p * limit)) (int limit) b)) \<le> limit)"
proof -
  have page: "ListDead (int (p * limit)) (int limit) b
      = Inr (map (the \<circ> jobs b) (take limit (drop (p * limit) (rev (dead b)))))" for p
    using ListDead_page [OF assms(1,2), of "int (p * limit)" "int limit"] assms(3) by (simp del: of_nat_mult)
  have "concat (map (\<lambda>p. take limit (drop (p * limit) (rev (dead b)))) [0..<n]) = rev (dead b)"
    using assms(4) by (intro concat_pages) simp
  from arg_cong [OF this, of "map (the \<circ> jobs b)"] show ?thesis
    by (simp add: page map_concat comp_def del: of_nat_mult)
qed

theorem ListDead_pages_witness:
  "projr (ListDead 0 1 example_dead) @ projr (ListDead 1 1 example_dead)
    = [the (jobs example_dead ''b''), the (jobs example_dead ''a'')]"
  using ListDead_pages [OF example_dead_reachable, of 1 2] by (simp add: example_dead_fields numeral_2_eq_2)

text \<open>What replaying makes of an envelope.\<close>

definition replayed :: "job \<Rightarrow> job" where
  "replayed j = j\<lparr>State := StatePending, Attempt := 0, Recoveries := 0, Owner := []\<rparr>"

lemma replayed_simps [simp]: "Queue (replayed j) = Queue j" "replayed (replayed j) = replayed j"
  by (simp_all add: replayed_def)

lemma retry_dead_loop_eq:
  "distinct (dead b) \<Longrightarrow> \<forall>i \<in> set ids. jobs b i \<noteq> None \<Longrightarrow>
     (case retry_dead_loop ids n b of (m, b') \<Rightarrow> m = n + int (length ids)
       \<and> (\<forall>i. jobs b' i = (if i \<in> set ids then map_option replayed (jobs b i) else jobs b i))
       \<and> (\<forall>q. pending b' q = pending b q @ filter (\<lambda>i. Queue (the (jobs b i)) = q) ids)
       \<and> dead b' = filter (\<lambda>i. i \<notin> set ids) (dead b) \<and> closed b' = closed b)"
proof (induction ids arbitrary: n b)
  case (Cons i ids)
  then obtain j where j: "jobs b i = Some j" by auto
  let ?b = "removeDeadLocked i (b\<lparr>jobs := (jobs b)(i \<mapsto> replayed j),
      pending := (pending b)(Queue j := pending b (Queue j) @ [i])\<rparr>)"
  have dd: "dead ?b = filter (\<lambda>k. k \<noteq> i) (dead b)"
    using Cons.prems(1) by (simp add: removeDeadLocked_def distinct_remove1_removeAll removeAll_filter_not_eq conj_commute eq_commute)
  have "\<forall>k \<in> set ids. jobs ?b k \<noteq> None" using Cons.prems by (auto simp: removeDeadLocked_def)
  moreover have "Queue (the (jobs ?b k)) = Queue (the (jobs b k))" for k using j by (simp add: removeDeadLocked_def)
  moreover have "retry_dead_loop (i # ids) n b = retry_dead_loop ids (n + 1) ?b"
    using j by (simp add: replayed_def Let_def)
  ultimately show ?case
    using Cons.IH [of ?b "n + 1"] Cons.prems j dd
    by (simp add: removeDeadLocked_def split: prod.splits)
qed simp

text \<open>
  RetryDead on a reachable open broker replays exactly the selected dead
  letters (all of them for an empty list; IDs that are not dead are ignored) and returns their number:
  each becomes pending with its attempts and recoveries reset and joins the tail of its queue in the given
  order, and it leaves the dead letters; every other job is untouched. An ID that is
  given several times counts, and joins its queue, as often.
\<close>

theorem RetryDead_functional:
  assumes "reachable b" and "\<not> closed b"
  shows "case RetryDead ids b of (r, b') \<Rightarrow>
      r = Inr (int (length (selectDeadLocked ids b)))
    \<and> (\<forall>i. jobs b' i = (if i \<in> set (selectDeadLocked ids b) then map_option replayed (jobs b i) else jobs b i))
    \<and> (\<forall>q. pending b' q = pending b q @ filter (\<lambda>i. Queue (the (jobs b i)) = q) (selectDeadLocked ids b))
    \<and> dead b' = filter (\<lambda>i. i \<notin> set (selectDeadLocked ids b)) (dead b) \<and> \<not> closed b'"
proof -
  have wf: "broker_wf b" using assms(1) by (rule reachable_wf)
  have "distinct (dead b)" using broker_wfD(3) [OF wf] by (simp add: shape_def)
  moreover have "\<forall>i \<in> set (selectDeadLocked ids b). jobs b i \<noteq> None"
    using dead_stored [OF wf] by (fastforce simp: selectDeadLocked_def split: if_splits)
  ultimately show ?thesis
    using retry_dead_loop_eq [of b "selectDeadLocked ids b" 0] assms(2)
    by (auto simp: RetryDead_def checkOpen_def selectDeadLocked_def split: prod.splits)
qed

theorem RetryDead_functional_witness:
  "fst (RetryDead [''b'', ''x''] example_dead) = Inr 1 \<and> dead (snd (RetryDead [''b'', ''x''] example_dead)) = [''a'']
    \<and> pending (snd (RetryDead [''b'', ''x''] example_dead)) ''q'' = [''b'']
    \<and> jobs (snd (RetryDead [''b'', ''x''] example_dead)) ''b'' = map_option replayed (jobs example_dead ''b'')"
  using RetryDead_functional [OF example_dead_reachable, of "[''b'', ''x'']"] example_dead_fields(5)
  by (auto simp: example_dead_fields(1-4) selectDeadLocked_def split: prod.splits)

lemma count_list_filter: "P x \<Longrightarrow> count_list (filter P xs) x = count_list xs x"
  by (induction xs) auto

text \<open>Two claims in a row of an ID that is on the ready list twice.\<close>

lemma dequeue_twice:
  assumes "pending b q = [i, i]" and "jobs b i = Some j" and "ID j = i" and "\<not> closed b" and "w1 \<noteq> []" and "w2 \<noteq> []" and "0 < vt"
  shows "handouts given exec [(t1, OpDequeue \<lparr>WorkerID = w1, Queues = [q], VisibilityTimeout = vt\<rparr>),
      (t2, OpDequeue \<lparr>WorkerID = w2, Queues = [q], VisibilityTimeout = vt\<rparr>)] b = [(i, w1), (i, w2)]"
  using assms by (simp add: Dequeue_def checkOpen_def Let_def)

text \<open>
  C27. RetryDead does not check its list for repetitions. On a reachable open broker a dead job is put on the
  ready list of its queue as often as the list names it, where every other operation keeps it there once; so
  after it has been named twice, two workers that poll its otherwise empty queue are both handed the job.
\<close>

theorem RetryDead_repeated_ID:
  assumes "reachable b" and "\<not> closed b" and "i \<in> set (dead b)" and "jobs b i = Some j" and "ids \<noteq> []"
    and "w1 \<noteq> []" and "w2 \<noteq> []" and "0 < vt"
  shows "count_list (pending (snd (RetryDead ids b)) (Queue j)) i = count_list ids i
    \<and> (pending b (Queue j) = [] \<longrightarrow>
        handouts given exec [(t1, OpDequeue \<lparr>WorkerID = w1, Queues = [Queue j], VisibilityTimeout = vt\<rparr>),
          (t2, OpDequeue \<lparr>WorkerID = w2, Queues = [Queue j], VisibilityTimeout = vt\<rparr>)] (snd (RetryDead [i, i] b)) = [(i, w1), (i, w2)])"
proof (intro conjI impI)
  have wf: "broker_wf b" using assms(1) by (rule reachable_wf)
  obtain k where "jobs b i = Some k" "State k = StateDead" using dead_stored [OF wf assms(3)] by auto
  then have "i \<notin> set (pending b (Queue j))" using broker_wfD(4) [OF wf, of i] by (auto simp: placed_def lstate_def)
  then show "count_list (pending (snd (RetryDead ids b)) (Queue j)) i = count_list ids i"
    using RetryDead_functional [OF assms(1,2), of ids] assms(3-5)
    by (auto simp: selectDeadLocked_def count_list_filter split: prod.splits)
  assume "pending b (Queue j) = []"
  then show "handouts given exec [(t1, OpDequeue \<lparr>WorkerID = w1, Queues = [Queue j], VisibilityTimeout = vt\<rparr>),
      (t2, OpDequeue \<lparr>WorkerID = w2, Queues = [Queue j], VisibilityTimeout = vt\<rparr>)] (snd (RetryDead [i, i] b)) = [(i, w1), (i, w2)]"
    using RetryDead_functional [OF assms(1,2), of "[i, i]"] assms(3,4,6-8) job_ID [OF wf assms(4)]
    by (intro dequeue_twice [where j = "replayed j"]) (auto simp: selectDeadLocked_def replayed_def split: prod.splits)
qed

theorem RetryDead_repeated_ID_witness:
  "count_list (pending (snd (RetryDead [''a'', ''b'', ''a''] example_dead)) ''q'') ''a'' = 2
    \<and> handouts given exec [(20, OpDequeue \<lparr>WorkerID = ''w1'', Queues = [''q''], VisibilityTimeout = 9\<rparr>),
        (20, OpDequeue \<lparr>WorkerID = ''w2'', Queues = [''q''], VisibilityTimeout = 9\<rparr>)] (snd (RetryDead [''a'', ''a''] example_dead))
      = [(''a'', ''w1''), (''a'', ''w2'')]"
proof -
  have "map_option Queue (jobs example_dead ''a'') = Some ''q'' \<and> pending example_dead ''q'' = []" by code_simp
  then obtain j where j: "jobs example_dead ''a'' = Some j" "Queue j = ''q''" "pending example_dead ''q'' = []" by auto
  from RetryDead_repeated_ID [OF example_dead_reachable _ _ j(1), of "[''a'', ''b'', ''a'']" "''w1''" "''w2''" 9 20 20] j(2,3) show ?thesis
    by (simp add: example_dead_fields)
qed

lemma purge_dead_loop_eq:
  "distinct (dead b) \<Longrightarrow> \<forall>i \<in> set ids. i \<in> set (dead b) \<longrightarrow> jobs b i \<noteq> None \<Longrightarrow>
   \<forall>i \<in> set ids. jobs b i \<noteq> None \<longrightarrow> i \<in> set (dead b) \<Longrightarrow>
     (case purge_dead_loop ids n b of (m, b') \<Rightarrow> m = n + int (card (set ids \<inter> set (dead b)))
       \<and> (\<forall>i. jobs b' i = (if i \<in> set ids then None else jobs b i)) \<and> pending b' = pending b
       \<and> dead b' = filter (\<lambda>i. i \<notin> set ids) (dead b))"
proof (induction ids arbitrary: n b)
  case Nil
  then show ?case by simp
next
  case (Cons i ids)
  show ?case
  proof (cases "jobs b i")
    case None
    then have nd: "i \<notin> set (dead b)" using Cons.prems(2) by auto
    then have ff: "filter (\<lambda>k. k \<notin> set (i # ids)) (dead b) = filter (\<lambda>k. k \<notin> set ids) (dead b)"
      and ss: "set (i # ids) \<inter> set (dead b) = set ids \<inter> set (dead b)"
      by (auto intro: filter_cong)
    have jj: "(if k \<in> set (i # ids) then None else jobs b k) = (if k \<in> set ids then None else jobs b k)" for k
      using None by simp
    have eq: "purge_dead_loop (i # ids) n b = purge_dead_loop ids n b" using None by simp
    have "\<forall>k \<in> set ids. k \<in> set (dead b) \<longrightarrow> jobs b k \<noteq> None" "\<forall>k \<in> set ids. jobs b k \<noteq> None \<longrightarrow> k \<in> set (dead b)"
      using Cons.prems(2,3) by simp_all
    from Cons.IH [OF Cons.prems(1) this] show ?thesis unfolding eq ff ss jj .
  next
    case (Some j)
    let ?b = "removeDeadLocked i (b\<lparr>jobs := (jobs b)(i := None)\<rparr>)"
    have d: "i \<in> set (dead b)" using Cons.prems(3) Some by auto
    have dd: "dead ?b = filter (\<lambda>k. k \<noteq> i) (dead b)"
      using Cons.prems(1) by (simp add: removeDeadLocked_def distinct_remove1_removeAll removeAll_filter_not_eq eq_commute)
    have "set (i # ids) \<inter> set (dead b) = insert i (set ids \<inter> set (dead ?b))" "i \<notin> set ids \<inter> set (dead ?b)"
      using d by (auto simp: dd)
    then have card: "card (set (i # ids) \<inter> set (dead b)) = Suc (card (set ids \<inter> set (dead ?b)))" by simp
    have ff: "filter (\<lambda>k. k \<notin> set ids) (dead ?b) = filter (\<lambda>k. k \<notin> set (i # ids)) (dead b)"
      unfolding dd filter_filter by (rule filter_cong) auto
    have jj: "jobs ?b = (jobs b)(i := None)" and pp: "pending ?b = pending b" by (simp_all add: removeDeadLocked_def)
    have IH: "case purge_dead_loop ids (n + 1) ?b of (m, b') \<Rightarrow> m = n + 1 + int (card (set ids \<inter> set (dead ?b)))
       \<and> (\<forall>k. jobs b' k = (if k \<in> set ids then None else jobs ?b k)) \<and> pending b' = pending ?b
       \<and> dead b' = filter (\<lambda>k. k \<notin> set ids) (dead ?b)"
      using Cons.prems by (intro Cons.IH) (simp_all add: dd jj)
    have eq: "purge_dead_loop (i # ids) n b = purge_dead_loop ids (n + 1) ?b" using Some by simp
    have kk: "(if k \<in> set (i # ids) then None else jobs b k) = (if k \<in> set ids then None else ((jobs b)(i := None)) k)" for k
      by simp
    from IH show ?thesis unfolding eq card ff jj pp kk of_nat_Suc add.assoc by assumption
  qed
qed

text \<open>
  PurgeDead on a reachable open broker deletes exactly the selected dead letters and returns their number,
  counting an ID that is named several times once; every other job and every ready list is untouched.
\<close>

theorem PurgeDead_functional:
  assumes "reachable b" and "\<not> closed b"
  shows "case PurgeDead ids b of (r, b') \<Rightarrow>
      r = Inr (int (card (set (selectDeadLocked ids b))))
    \<and> (\<forall>i. jobs b' i = (if i \<in> set (selectDeadLocked ids b) then None else jobs b i)) \<and> pending b' = pending b
    \<and> dead b' = filter (\<lambda>i. i \<notin> set (selectDeadLocked ids b)) (dead b)"
proof -
  have wf: "broker_wf b" using assms(1) by (rule reachable_wf)
  have dd: "distinct (dead b)" using broker_wfD(3) [OF wf] by (simp add: shape_def)
  have sub: "set (selectDeadLocked ids b) \<subseteq> set (dead b)" by (auto simp: selectDeadLocked_def)
  then have "set (selectDeadLocked ids b) \<inter> set (dead b) = set (selectDeadLocked ids b)" by auto
  then show ?thesis
    using purge_dead_loop_eq [of b "selectDeadLocked ids b" 0] dd sub dead_stored [OF wf] assms(2)
    by (fastforce simp: PurgeDead_def checkOpen_def split: prod.splits)
qed

theorem PurgeDead_functional_witness:
  "fst (PurgeDead [''b'', ''b'', ''x''] example_dead) = Inr 1
    \<and> dead (snd (PurgeDead [''b'', ''b'', ''x''] example_dead)) = [''a'']
    \<and> jobs (snd (PurgeDead [''b'', ''b'', ''x''] example_dead)) ''b'' = None"
  using PurgeDead_functional [OF example_dead_reachable, of "[''b'', ''b'', ''x'']"]
  by (auto simp: example_dead_fields(1-4) selectDeadLocked_def split: prod.splits)

end
