(* ===== verification/Calendar.thy ===== *)
theory Calendar
  imports Prelude
begin

text \<open>
  The civil calendar that src/internal/cron/cron.go relies on: \<^verbatim>\<open>Year\<close>, \<^verbatim>\<open>Month\<close>, \<^verbatim>\<open>Day\<close>, \<^verbatim>\<open>Weekday\<close>, \<^verbatim>\<open>Hour\<close>,
  \<^verbatim>\<open>Minute\<close>, \<^verbatim>\<open>Date\<close>, \<^verbatim>\<open>AddDate\<close> and \<^verbatim>\<open>Truncate\<close> of Go's \<^verbatim>\<open>time\<close> package, in UTC: the proleptic Gregorian
  calendar, with days counted from 1 January of year 1, a Monday. Other locations are not modelled.
\<close>

abbreviation Day_ns :: duration where "Day_ns \<equiv> 86400000000000"

definition leap :: "int \<Rightarrow> bool" where
  "leap y \<longleftrightarrow> y mod 4 = 0 \<and> (y mod 100 \<noteq> 0 \<or> y mod 400 = 0)"

definition days_before_year :: "int \<Rightarrow> int" where
  "days_before_year y = 365 * (y - 1) + (y - 1) div 4 - (y - 1) div 100 + (y - 1) div 400"

text \<open>The number of days before month \<open>m\<close> (1 to 12) in a year.\<close>

definition days_before_month :: "int \<Rightarrow> int \<Rightarrow> int" where
  "days_before_month y m =
     [0, 31, 59, 90, 120, 151, 181, 212, 243, 273, 304, 334, 365] ! nat (m - 1)
     + (if 2 < m \<and> leap y then 1 else 0)"

text \<open>The year of a day number, by cycles of 400, 100, 4 and 1 years.\<close>

definition year_of_day :: "int \<Rightarrow> int" where
  "year_of_day n =
     (let n400 = n div 146097; r400 = n mod 146097;
          n100 = min 3 (r400 div 36524); r100 = r400 - 36524 * n100;
          n4 = r100 div 1461; r4 = r100 mod 1461;
          n1 = min 3 (r4 div 365)
      in 400 * n400 + 100 * n100 + 4 * n4 + n1 + 1)"

definition month_of_yday :: "int \<Rightarrow> int \<Rightarrow> int" where
  "month_of_yday y d = int (length (filter (\<lambda>m. days_before_month y m \<le> d) [1..12]))"

definition Year :: "time \<Rightarrow> int" where
  "Year t = year_of_day (t div Day_ns)"

definition YearDay0 :: "time \<Rightarrow> int" where
  "YearDay0 t = t div Day_ns - days_before_year (Year t)"

definition Month :: "time \<Rightarrow> int" where
  "Month t = month_of_yday (Year t) (YearDay0 t)"

definition Day :: "time \<Rightarrow> int" where
  "Day t = YearDay0 t - days_before_month (Year t) (Month t) + 1"

definition Weekday :: "time \<Rightarrow> int" where
  "Weekday t = (t div Day_ns + 1) mod 7"

definition Hour_of :: "time \<Rightarrow> int" where
  "Hour_of t = t div Hour mod 24"

definition Minute_of :: "time \<Rightarrow> int" where
  "Minute_of t = t div Minute mod 60"

text \<open>\<^verbatim>\<open>time.Date(y, m, d, h, 0, 0, 0, UTC)\<close>: months outside 1 to 12 carry into the year, other fields into days.\<close>

definition Date :: "int \<Rightarrow> int \<Rightarrow> int \<Rightarrow> int \<Rightarrow> time" where
  "Date y m d h =
     (let y' = y + (m - 1) div 12; m' = (m - 1) mod 12 + 1
      in (days_before_year y' + days_before_month y' m' + d - 1) * Day_ns + h * Hour)"

text \<open>\<^verbatim>\<open>t.AddDate(0, months, days)\<close>, which keeps the time of day.\<close>

definition AddDate :: "int \<Rightarrow> int \<Rightarrow> time \<Rightarrow> time" where
  "AddDate months days t = Date (Year t) (Month t + months) (Day t + days) 0 + t mod Day_ns"

definition Truncate :: "time \<Rightarrow> duration \<Rightarrow> time" where
  "Truncate t d = t - t mod d"

section \<open>Years\<close>

definition year_length :: "int \<Rightarrow> int" where
  "year_length y = (if leap y then 366 else 365)"

lemma div_pred:
  assumes "0 < (n :: int)"
  shows "y div n = (y - 1) div n + (if y mod n = 0 then 1 else 0)"
proof -
  have y: "y = n * (y div n) + y mod n" by simp
  have m: "0 \<le> y mod n" "y mod n < n" using assms by simp_all
  show ?thesis
  proof (cases "y mod n = 0")
    case True
    then have "(y - 1) div n = y div n - 1"
      using y assms by (intro int_div_pos_eq [of _ _ _ "n - 1"]) (auto simp: algebra_simps)
    with True show ?thesis by simp
  next
    case False
    then have "(y - 1) div n = y div n"
      using y m by (intro int_div_pos_eq [of _ _ _ "y mod n - 1"]) auto
    with False show ?thesis by simp
  qed
qed

lemma days_before_year_Suc: "days_before_year (y + 1) = days_before_year y + year_length y"
proof -
  have key: "365 * y + a - b + c = 365 * (y - 1) + a' - b' + c' + (if p \<and> (\<not> q \<or> r) then 366 else 365)"
    if "a = a' + (if p then 1 else 0)" "b = b' + (if q then 1 else 0)" "c = c' + (if r then 1 else 0)"
      "q \<longrightarrow> p" "r \<longrightarrow> q" for a b c a' b' c' :: int and p q r
    using that by (cases p; cases q; cases r) simp_all
  have "y mod 100 = 0 \<longrightarrow> y mod 4 = 0" "y mod 400 = 0 \<longrightarrow> y mod 100 = 0"
    using dvd_trans [of 4 100 y] dvd_trans [of 100 400 y] unfolding mod_eq_0_iff_dvd by simp_all
  from key [OF div_pred [OF zero_less_numeral] div_pred [OF zero_less_numeral] div_pred [OF zero_less_numeral] this]
  show ?thesis unfolding days_before_year_def year_length_def leap_def add_diff_cancel_right' .
qed

lemma days_before_year_add: "days_before_year y + 365 * int k \<le> days_before_year (y + int k)"
proof (induction k)
  case (Suc k)
  have "365 \<le> year_length (y + int k)" by (simp add: year_length_def)
  with Suc days_before_year_Suc [of "y + int k"] show ?case by (simp add: ac_simps)
qed simp

lemma days_before_year_mono: "y \<le> z \<Longrightarrow> days_before_year y \<le> days_before_year z"
  using days_before_year_add [of y "nat (z - y)"] by simp

lemma year_cycles:
  assumes "0 \<le> c" "c \<le> 3" "0 \<le> e" "e \<le> 24" "0 \<le> f" "f \<le> 3"
  shows "days_before_year (400 * q + 100 * c + 4 * e + f + 1) = 146097 * q + 36524 * c + 1461 * e + 365 * (f :: int)"
proof -
  have "(400 * q + 100 * c + 4 * e + f) div 4 = 100 * q + 25 * c + e"
    using assms by (intro int_div_pos_eq [of _ _ _ f]) auto
  moreover have "(400 * q + 100 * c + 4 * e + f) div 100 = 4 * q + c"
    using assms by (intro int_div_pos_eq [of _ _ _ "4 * e + f"]) auto
  moreover have "(400 * q + 100 * c + 4 * e + f) div 400 = q"
    using assms by (intro int_div_pos_eq [of _ _ _ "100 * c + 4 * e + f"]) auto
  ultimately show ?thesis by (simp add: days_before_year_def)
qed

lemma leap_cycles:
  assumes "0 \<le> c" "c \<le> 3" "0 \<le> e" "e \<le> 24"
  shows "leap (400 * q + 100 * c + 4 * e + 3 + 1) \<longleftrightarrow> e < 24 \<or> c = (3 :: int)"
proof -
  define y where "y = 400 * q + 100 * c + 4 * e + 3 + 1"
  have y4: "y mod 4 = 0" unfolding y_def by (rule int_mod_pos_eq [of _ _ "100 * q + 25 * c + e + 1"]) simp_all
  consider "e < 24" | "e = 24" "c < 3" | "e = 24" "c = 3" using assms by linarith
  then have "leap y \<longleftrightarrow> e < 24 \<or> c = 3"
  proof cases
    case 1
    then have "y mod 100 = 4 * e + 4"
      unfolding y_def using assms by (intro int_mod_pos_eq [of _ _ "4 * q + c"]) simp_all
    with 1 assms(3) y4 show ?thesis by (simp add: leap_def)
  next
    case 2
    then have "y mod 100 = 0" "y mod 400 = 100 * c + 100"
      unfolding y_def using assms by (intro int_mod_pos_eq [of _ _ "4 * q + c + 1"] int_mod_pos_eq [of _ _ q]; simp)+
    with 2 assms(1) show ?thesis by (simp add: leap_def)
  next
    case 3
    then have "y mod 400 = 0" unfolding y_def by (intro int_mod_pos_eq [of _ _ "q + 1"]) simp_all
    with 3 y4 show ?thesis by (simp add: leap_def)
  qed
  then show ?thesis by (simp only: y_def)
qed

lemma year_of_day_bounds:
  "days_before_year (year_of_day n) \<le> n \<and> n < days_before_year (year_of_day n + 1)"
proof -
  define q where "q = n div 146097"
  define r400 where "r400 = n mod 146097"
  define c where "c = min 3 (r400 div 36524)"
  define r100 where "r100 = r400 - 36524 * c"
  define e where "e = r100 div 1461"
  define r4 where "r4 = r100 mod 1461"
  define f where "f = min 3 (r4 div 365)"
  have n: "n = 146097 * q + r400" "0 \<le> r400" "r400 < 146097" by (simp_all add: q_def r400_def)
  have r4': "r100 = 1461 * e + r4" "0 \<le> r4" "r4 < 1461" by (simp_all add: e_def r4_def)
  have qc: "r400 = 36524 * (r400 div 36524) + r400 mod 36524" "0 \<le> r400 mod 36524" "r400 mod 36524 < 36524" by simp_all
  have qf: "r4 = 365 * (r4 div 365) + r4 mod 365" "0 \<le> r4 mod 365" "r4 mod 365 < 365" by simp_all
  have c: "0 \<le> c" "c \<le> 3" "0 \<le> r100" "c = 3 \<or> r100 < 36524" "r100 \<le> 36524"
    using qc n(2,3) unfolding c_def r100_def by (auto simp: min_def)
  have e: "0 \<le> e" "e \<le> 24" using r4' c(3,5) by linarith+
  have f: "0 \<le> f" "f \<le> 3" "0 \<le> r4 - 365 * f" "f < 3 \<Longrightarrow> r4 - 365 * f < 365"
    using qf r4'(2,3) unfolding f_def by (auto simp: min_def)
  have y: "year_of_day n = 400 * q + 100 * c + 4 * e + f + 1"
    unfolding year_of_day_def Let_def q_def c_def r100_def e_def r4_def f_def r400_def by simp
  have start: "days_before_year (year_of_day n) = 146097 * q + 36524 * c + 1461 * e + 365 * f"
    unfolding y by (rule year_cycles [OF c(1,2) e f(1,2)])
  have n': "n = 146097 * q + 36524 * c + 1461 * e + r4" using n(1) r4'(1) by (simp add: r100_def)
  have "n < days_before_year (year_of_day n) + year_length (year_of_day n)"
  proof (cases "f = 3")
    case True
    have "leap (year_of_day n) \<longleftrightarrow> e < 24 \<or> c = 3" unfolding y True by (rule leap_cycles [OF c(1,2) e])
    with True start n' r4' c(4,5) e show ?thesis by (auto simp: year_length_def)
  next
    case False
    with f start n' show ?thesis by (simp add: year_length_def)
  qed
  with start n' f(3) show ?thesis by (simp add: days_before_year_Suc)
qed

lemma year_of_day_unique:
  assumes "days_before_year y \<le> n" and "n < days_before_year (y + 1)"
  shows "year_of_day n = y"
  using assms year_of_day_bounds [of n] days_before_year_mono [of "y + 1" "year_of_day n"]
    days_before_year_mono [of "year_of_day n + 1" y]
  by linarith

section \<open>Months and days\<close>

definition month_length :: "int \<Rightarrow> int \<Rightarrow> int" where
  "month_length y m = days_before_month y (m + 1) - days_before_month y m"

lemma twelve_cases:
  fixes m :: int
  assumes "1 \<le> m" and "m \<le> 12"
  obtains "m = 1" | "m = 2" | "m = 3" | "m = 4" | "m = 5" | "m = 6" | "m = 7" | "m = 8" | "m = 9"
    | "m = 10" | "m = 11" | "m = 12"
proof -
  have "m = 1 \<or> m = 2 \<or> m = 3 \<or> m = 4 \<or> m = 5 \<or> m = 6 \<or> m = 7 \<or> m = 8 \<or> m = 9 \<or> m = 10 \<or> m = 11 \<or> m = 12"
    using assms by presburger
  with that show thesis by blast
qed

lemma days_before_month_values:
  "days_before_month y 1 = 0" "days_before_month y 2 = 31"
  "days_before_month y 3 = 59 + of_bool (leap y)" "days_before_month y 4 = 90 + of_bool (leap y)"
  "days_before_month y 5 = 120 + of_bool (leap y)" "days_before_month y 6 = 151 + of_bool (leap y)"
  "days_before_month y 7 = 181 + of_bool (leap y)" "days_before_month y 8 = 212 + of_bool (leap y)"
  "days_before_month y 9 = 243 + of_bool (leap y)" "days_before_month y 10 = 273 + of_bool (leap y)"
  "days_before_month y 11 = 304 + of_bool (leap y)" "days_before_month y 12 = 334 + of_bool (leap y)"
  "days_before_month y 13 = 365 + of_bool (leap y)"
  by (simp_all add: days_before_month_def nth_Cons_numeral)

lemma year_length_month: "days_before_month y 13 = year_length y"
  by (simp add: days_before_month_values year_length_def)

lemma months_upto: "[1..12] = [1, 2, 3, 4, 5, 6, 7, 8, 9, 10, 11, 12 :: int]"
  by code_simp

lemma month_of_yday_unique:
  assumes "1 \<le> m" and "m \<le> 12" and "days_before_month y m \<le> d" and "d < days_before_month y (m + 1)"
  shows "month_of_yday y d = m"
  using assms(1,2)
proof (cases rule: twelve_cases)
qed (use assms(3,4) in
  \<open>cases "leap y"; simp add: month_of_yday_def months_upto days_before_month_values\<close>)+

lemma month_of_yday_bounds:
  assumes "0 \<le> d" and "d < year_length y"
  shows "1 \<le> month_of_yday y d \<and> month_of_yday y d \<le> 12
    \<and> days_before_month y (month_of_yday y d) \<le> d \<and> d < days_before_month y (month_of_yday y d + 1)"
proof -
  have "\<exists>m. 1 \<le> m \<and> m \<le> 12 \<and> days_before_month y m \<le> d \<and> d < days_before_month y (m + 1)"
  proof (rule ccontr)
    assume *: "\<not> ?thesis"
    have step: "days_before_month y (m + 1) \<le> d" if "1 \<le> m" "m \<le> 12" "days_before_month y m \<le> d" for m
      using * that by force
    have "days_before_month y (1 + int k) \<le> d" if "k \<le> 12" for k
      using that
    proof (induction k)
      case 0
      then show ?case using assms(1) by (simp add: days_before_month_values)
    next
      case (Suc k)
      then show ?case using step [of "1 + int k"] by (simp add: ac_simps)
    qed
    from this [of 12] assms(2) show False by (simp add: year_length_month)
  qed
  then obtain m where m: "1 \<le> m" "m \<le> 12" "days_before_month y m \<le> d" "d < days_before_month y (m + 1)" by blast
  with month_of_yday_unique [OF m] show ?thesis by simp
qed

section \<open>Round trips\<close>

lemma YearDay0_bounds: "0 \<le> YearDay0 t" "YearDay0 t < year_length (Year t)"
  using year_of_day_bounds [of "t div Day_ns"] by (simp_all add: YearDay0_def Year_def days_before_year_Suc)

lemmas Month_bounds = month_of_yday_bounds [OF YearDay0_bounds, folded Month_def]

lemma Month_range: "1 \<le> Month t" "Month t \<le> 12"
  using Month_bounds [of t] by simp_all

lemma Day_bounds: "1 \<le> Day t" "Day t \<le> month_length (Year t) (Month t)"
  using Month_bounds [of t] by (simp_all add: Day_def month_length_def)

lemma Date_valid:
  "1 \<le> m \<Longrightarrow> m \<le> 12 \<Longrightarrow>
     Date y m d h = (days_before_year y + days_before_month y m + d - 1) * Day_ns + h * Hour"
  by (simp add: Date_def div_pos_pos_trivial mod_pos_pos_trivial)

lemma Date_parts: "Date (Year t) (Month t) (Day t) 0 = t div Day_ns * Day_ns"
  unfolding Date_valid [OF Month_range] by (simp add: Day_def YearDay0_def)

lemma Date_next_month:
  assumes "1 \<le> m" and "m \<le> 12"
  shows "Date y (m + 1) 1 0 = (days_before_year y + days_before_month y (m + 1)) * Day_ns"
proof (cases "m = 12")
  case True
  then show ?thesis using days_before_year_Suc [of y]
    by (simp add: Date_def days_before_month_values year_length_def)
next
  case False
  with assms show ?thesis by (subst Date_valid) simp_all
qed

lemma parts_of_day:
  assumes "1 \<le> m" and "m \<le> 12" and "1 \<le> d" and "d \<le> month_length y m"
    and "t div Day_ns = days_before_year y + days_before_month y m + d - 1"
  shows "Year t = y" "Month t = m" "Day t = d"
proof -
  let ?k = "days_before_month y m + d - 1"
  have "0 \<le> days_before_month y m" using assms(1,2)
    by (cases rule: twelve_cases) (simp_all add: days_before_month_values)
  moreover have "days_before_month y (m + 1) \<le> year_length y" using assms(1,2)
    by (cases rule: twelve_cases) (simp_all add: days_before_month_values year_length_def)
  ultimately have k: "0 \<le> ?k" "?k < year_length y" "days_before_month y m \<le> ?k" "?k < days_before_month y (m + 1)"
    using assms(3,4) by (simp_all add: month_length_def)
  show y: "Year t = y"
    unfolding Year_def using k assms(5) by (intro year_of_day_unique) (simp_all add: days_before_year_Suc)
  have yd: "YearDay0 t = ?k" using assms(5) by (simp add: YearDay0_def y)
  show m: "Month t = m"
    unfolding Month_def y yd by (rule month_of_yday_unique [OF assms(1,2) k(3,4)])
  show "Day t = d" by (simp add: Day_def y m yd)
qed

text \<open>
  The calendar is a bijection: an instant is the date of its year, month and day plus its time of
  day, and every valid date has exactly that year, month and day, at every hour of the day.
\<close>

theorem civil_round_trip:
  "Date (Year t) (Month t) (Day t) 0 + t mod Day_ns = t
    \<and> (1 \<le> m \<and> m \<le> 12 \<and> 1 \<le> d \<and> d \<le> month_length y m \<and> 0 \<le> h \<and> h < 24
        \<longrightarrow> Year (Date y m d h) = y \<and> Month (Date y m d h) = m \<and> Day (Date y m d h) = d \<and> Hour_of (Date y m d h) = h)"
proof (intro conjI impI)
  show "Date (Year t) (Month t) (Day t) 0 + t mod Day_ns = t" by (simp add: Date_parts)
next
  assume *: "1 \<le> m \<and> m \<le> 12 \<and> 1 \<le> d \<and> d \<le> month_length y m \<and> 0 \<le> h \<and> h < 24"
  then have D: "Date y m d h = (days_before_year y + days_before_month y m + d - 1) * Day_ns + h * Hour"
    by (intro Date_valid) simp_all
  have dv: "Date y m d h div Day_ns = days_before_year y + days_before_month y m + d - 1"
    unfolding D using * by (intro int_div_pos_eq [of _ _ _ "h * Hour"]) simp_all
  show "Year (Date y m d h) = y" "Month (Date y m d h) = m" "Day (Date y m d h) = d"
    using parts_of_day [OF _ _ _ _ dv] * by blast+
  have hr: "Date y m d h div Hour = 24 * (days_before_year y + days_before_month y m + d - 1) + h"
    unfolding D by (intro int_div_pos_eq [of _ _ _ 0]) simp_all
  show "Hour_of (Date y m d h) = h" unfolding Hour_of_def by (rule int_mod_pos_eq [OF hr]) (use * in simp_all)
qed

theorem civil_round_trip_witness:
  "Year (Date 2024 2 29 5) = 2024 \<and> Month (Date 2024 2 29 5) = 2 \<and> Day (Date 2024 2 29 5) = 29"
proof -
  have "month_length 2024 2 = 29" by code_simp
  then show ?thesis using civil_round_trip [of 0 2 29 2024 5] by simp
qed

end
