(* ===== verification/Cron_Next.thy ===== *)
theory Cron_Next
  imports Calendar
begin

text \<open>
  When a cron schedule fires, src/internal/cron/cron.go: the parsed schedule, \<^verbatim>\<open>dayMatches\<close>, \<^verbatim>\<open>bitSet\<close> and the
  search loop of \<^verbatim>\<open>Next\<close>, in UTC. A field is a 64-bit mask. The loop terminates because every pass moves
  its instant forward and the search is bounded by \<^verbatim>\<open>searchLimit\<close>.
\<close>

unbundle bit_operations_syntax

definition searchLimit :: duration where
  "searchLimit = 5 * 365 * 24 * Hour"

record Schedule =
  minute :: "64 word"
  hour :: "64 word"
  dom :: "64 word"
  month :: "64 word"
  dow :: "64 word"
  domStar :: bool
  dowStar :: bool
  every :: duration

definition bitSet :: "64 word \<Rightarrow> nat \<Rightarrow> bool" where
  "bitSet m v \<longleftrightarrow> (if 63 < v then False else m AND push_bit v 1 \<noteq> 0)"

definition dayMatches :: "Schedule \<Rightarrow> time \<Rightarrow> bool" where
  "dayMatches s t =
     (let domOK = bitSet (dom s) (nat (Day t));
          dowOK = bitSet (dow s) (nat (Weekday t))
      in if domStar s \<and> dowStar s then True
         else if domStar s then dowOK
         else if dowStar s then domOK
         else domOK \<or> dowOK)"

text \<open>One pass of the search: the next instant to look at, or \<open>None\<close> when the schedule fires at \<open>t\<close>.\<close>

definition next_pass :: "Schedule \<Rightarrow> time \<Rightarrow> time option" where
  "next_pass s t =
     (if \<not> bitSet (month s) (nat (Month t)) then Some (AddDate 1 0 (Date (Year t) (Month t) 1 0))
      else if \<not> dayMatches s t then Some (AddDate 0 1 (Date (Year t) (Month t) (Day t) 0))
      else if \<not> bitSet (hour s) (nat (Hour_of t)) then Some (Date (Year t) (Month t) (Day t) (Hour_of t) + Hour)
      else if \<not> bitSet (minute s) (nat (Minute_of t)) then Some (t + Minute)
      else None)"

lemma div_bounds:
  assumes "0 < (n :: int)"
  shows "t div n * n \<le> t" and "t < (t div n + 1) * n"
  using div_mult_mod_eq [of t n] pos_mod_bound [OF assms, of t] pos_mod_sign [OF assms, of t]
  unfolding distrib_right mult_1 by linarith+

section \<open>Every pass moves forward\<close>

lemma Date_first: "Date (Year t) (Month t) 1 0 = (days_before_year (Year t) + days_before_month (Year t) (Month t)) * Day_ns"
  unfolding Date_valid [OF Month_range] by simp

lemma month_length_pos: "1 \<le> m \<Longrightarrow> m \<le> 12 \<Longrightarrow> 1 \<le> month_length y m"
  by (erule (1) twelve_cases) (simp_all add: month_length_def days_before_month_values)

lemma first_of_month_parts:
  "Year (Date (Year t) (Month t) 1 0) = Year t" "Month (Date (Year t) (Month t) 1 0) = Month t"
  "Day (Date (Year t) (Month t) 1 0) = 1"
proof -
  have "Date (Year t) (Month t) 1 0 div Day_ns = days_before_year (Year t) + days_before_month (Year t) (Month t) + 1 - 1"
    unfolding Date_first by simp
  from parts_of_day [OF Month_range _ month_length_pos [OF Month_range] this]
  show "Year (Date (Year t) (Month t) 1 0) = Year t" "Month (Date (Year t) (Month t) 1 0) = Month t"
    "Day (Date (Year t) (Month t) 1 0) = 1"
    by simp_all
qed

lemma next_month_eq:
  "AddDate 1 0 (Date (Year t) (Month t) 1 0)
     = (days_before_year (Year t) + days_before_month (Year t) (Month t + 1)) * Day_ns"
proof -
  have "Date (Year t) (Month t) 1 0 mod Day_ns = 0" unfolding Date_first by simp
  then show ?thesis
    using Date_next_month [OF Month_range, of "Year t" t] by (simp add: AddDate_def first_of_month_parts)
qed

lemma start_of_day_parts:
  "Year (t div Day_ns * Day_ns) = Year t" "Month (t div Day_ns * Day_ns) = Month t" "Day (t div Day_ns * Day_ns) = Day t"
  by (simp_all add: Year_def Month_def Day_def YearDay0_def)

lemma next_day_eq: "AddDate 0 1 (Date (Year t) (Month t) (Day t) 0) = (t div Day_ns + 1) * Day_ns"
proof -
  have "Date (Year t) (Month t) (Day t + 1) 0 = t div Day_ns * Day_ns + Day_ns"
    using Date_parts [of t] unfolding Date_valid [OF Month_range] by (simp add: algebra_simps)
  then show ?thesis by (simp add: AddDate_def Date_parts start_of_day_parts)
qed

lemma next_hour_eq: "Date (Year t) (Month t) (Day t) (Hour_of t) + Hour = (t div Hour + 1) * Hour"
proof -
  have "Date (Year t) (Month t) (Day t) (Hour_of t) = t div Day_ns * Day_ns + Hour_of t * Hour"
    using Date_parts [of t] unfolding Date_valid [OF Month_range] by simp
  moreover have "t div Hour = 24 * (t div Day_ns) + Hour_of t"
  proof -
    have "t div Day_ns = t div Hour div 24" using zdiv_zmult2_eq [of 24 t Hour] by simp
    then show ?thesis by (simp add: Hour_of_def)
  qed
  ultimately show ?thesis by (simp add: algebra_simps)
qed

lemma in_month:
  "(days_before_year (Year t) + days_before_month (Year t) (Month t)) * Day_ns \<le> t
   \<and> t < (days_before_year (Year t) + days_before_month (Year t) (Month t + 1)) * Day_ns"
proof -
  have d: "days_before_year (Year t) + days_before_month (Year t) (Month t) \<le> t div Day_ns"
    "t div Day_ns + 1 \<le> days_before_year (Year t) + days_before_month (Year t) (Month t + 1)"
    using Month_bounds [of t] by (simp_all add: YearDay0_def)
  have "t div Day_ns * Day_ns \<le> t" "t < (t div Day_ns + 1) * Day_ns" using div_bounds [of Day_ns t] by simp_all
  with mult_right_mono [OF d(1), of Day_ns] mult_right_mono [OF d(2), of Day_ns] show ?thesis by simp
qed

lemma next_pass_later:
  assumes "next_pass s t = Some u"
  shows "t < u"
proof -
  have "t < (t div Day_ns + 1) * Day_ns" "t < (t div Hour + 1) * Hour"
    using div_bounds [of _ t] by simp_all
  then show ?thesis using assms in_month [of t]
    by (auto simp: next_pass_def next_month_eq next_day_eq next_hour_eq split: if_splits)
qed

text \<open>The loop \<^verbatim>\<open>for t.Before(limit)\<close>; the zero time is 0.\<close>

function next_search :: "Schedule \<Rightarrow> time \<Rightarrow> time \<Rightarrow> time" where
  "next_search s limit t =
     (if t < limit then (case next_pass s t of None \<Rightarrow> t | Some u \<Rightarrow> next_search s limit u) else 0)"
  by pat_completeness auto
termination
proof (relation "measure (\<lambda>(s, limit, t). nat (limit - t))")
  fix s limit t u
  assume "t < limit" "next_pass s t = Some u"
  with next_pass_later [of s t u]
  show "((s, limit, u), s, limit, t) \<in> measure (\<lambda>(s, limit, t). nat (limit - t))" by simp
qed simp

declare next_search.simps [simp del]

definition Schedule_Next :: "Schedule \<Rightarrow> time \<Rightarrow> time" where
  "Schedule_Next s t =
     (if 0 < every s then t + every s
      else let t' = Truncate t Minute + Minute in next_search s (t' + searchLimit) t')"

section \<open>What is skipped\<close>

text \<open>The specification of a tick: an instant on the minute whose fields are all in the schedule.\<close>

definition fires :: "Schedule \<Rightarrow> time \<Rightarrow> bool" where
  "fires s t \<longleftrightarrow> t mod Minute = 0 \<and> bitSet (month s) (nat (Month t)) \<and> dayMatches s t
     \<and> bitSet (hour s) (nat (Hour_of t)) \<and> bitSet (minute s) (nat (Minute_of t))"

lemma div_mono_same:
  assumes "0 < (n :: int)" and "t \<le> v" and "v < (t div n + 1) * n"
  shows "v div n = t div n"
proof (rule antisym)
  show "t div n \<le> v div n" using assms by (simp add: zdiv_mono1)
  have "v div n * n < (t div n + 1) * n" using div_bounds(1) [OF assms(1), of v] assms(3) by simp
  then have "v div n < t div n + 1" using assms(1) by (simp only: mult_less_cancel_right)
  then show "v div n \<le> t div n" by simp
qed

lemma same_month:
  assumes "t \<le> v" and "v < (days_before_year (Year t) + days_before_month (Year t) (Month t + 1)) * Day_ns"
  shows "Month v = Month t"
proof -
  let ?D = "days_before_year (Year t) + days_before_month (Year t) (Month t)"
  have "?D * Day_ns \<le> v" using in_month [of t] assms(1) by linarith
  then have lo: "?D \<le> v div Day_ns" using zdiv_mono1 [of "?D * Day_ns" v Day_ns] by simp
  have hi: "v div Day_ns < days_before_year (Year t) + days_before_month (Year t) (Month t + 1)"
    using assms(2) by (simp add: div_less_iff_less_mult)
  show ?thesis
    by (rule parts_of_day(2) [OF Month_range, where y = "Year t" and d = "v div Day_ns - ?D + 1"])
      (use lo hi in \<open>simp_all add: month_length_def\<close>)
qed

lemma same_day:
  assumes "v div Day_ns = t div Day_ns"
  shows "dayMatches s v = dayMatches s t"
  using assms by (simp add: dayMatches_def Day_def Weekday_def Month_def Year_def YearDay0_def)

lemma minute_multiple: "(k * Hour) mod Minute = 0" "(k * Day_ns) mod Minute = 0"
  using mod_mult_self1_is_0 [of Minute "k * 60"] mod_mult_self1_is_0 [of Minute "k * 1440"] by (simp_all add: ac_simps)

lemma next_pass_skips:
  assumes "next_pass s t = Some u" and "t mod Minute = 0"
  shows "u mod Minute = 0" and "t \<le> v \<Longrightarrow> v < u \<Longrightarrow> \<not> fires s v"
proof -
  show "u mod Minute = 0" using assms
    by (auto simp: next_pass_def next_month_eq next_day_eq next_hour_eq minute_multiple split: if_splits)
  assume v: "t \<le> v" "v < u"
  consider (month) "\<not> bitSet (month s) (nat (Month t))" "u = (days_before_year (Year t) + days_before_month (Year t) (Month t + 1)) * Day_ns"
    | (day) "\<not> dayMatches s t" "u = (t div Day_ns + 1) * Day_ns"
    | (hour) "\<not> bitSet (hour s) (nat (Hour_of t))" "u = (t div Hour + 1) * Hour"
    | (minute) "\<not> bitSet (minute s) (nat (Minute_of t))" "u = t + Minute"
    using assms(1) by (auto simp: next_pass_def next_month_eq next_day_eq next_hour_eq split: if_splits)
  then show "\<not> fires s v"
  proof cases
    case month
    then show ?thesis using same_month [of t v] v by (simp add: fires_def)
  next
    case day
    then show ?thesis using same_day [OF div_mono_same [of Day_ns t v], of s] v by (simp add: fires_def)
  next
    case hour
    then show ?thesis using div_mono_same [of Hour t v] v by (simp add: fires_def Hour_of_def)
  next
    case minute
    have "v = t" if "v mod Minute = 0"
    proof -
      have "(v - t) mod Minute = 0" using that assms(2) by (metis diff_self mod_0 mod_diff_eq)
      moreover have "0 \<le> v - t" "v - t < Minute" using v minute(2) by simp_all
      ultimately show ?thesis by (simp add: mod_pos_pos_trivial)
    qed
    with minute show ?thesis by (auto simp: fires_def)
  qed
qed

lemma next_search_spec:
  "t mod Minute = 0 \<Longrightarrow>
     (next_search s limit t = 0 \<and> (\<forall>v. t \<le> v \<and> v < limit \<longrightarrow> \<not> fires s v))
   \<or> (t \<le> next_search s limit t \<and> next_search s limit t < limit \<and> fires s (next_search s limit t)
      \<and> (\<forall>v. t \<le> v \<and> v < next_search s limit t \<longrightarrow> \<not> fires s v))"
proof (induction s limit t rule: next_search.induct)
  case (1 s limit t)
  show ?case
  proof (cases "t < limit")
    case False
    then show ?thesis by (auto simp: next_search.simps [of s limit t])
  next
    case True
    show ?thesis
    proof (cases "next_pass s t")
      case None
      then have "fires s t" using "1.prems" by (auto simp: next_pass_def fires_def split: if_splits)
      with None True show ?thesis by (auto simp: next_search.simps [of s limit t])
    next
      case (Some u)
      note skip = next_pass_skips [OF Some "1.prems"] next_pass_later [OF Some]
      have eq: "next_search s limit t = next_search s limit u"
        using True Some by (simp add: next_search.simps [of s limit t])
      from "1.IH" [OF True Some skip(1)] skip(2,3) show ?thesis unfolding eq
        by (meson le_less_linear less_le_trans less_imp_le order.trans)
    qed
  qed
qed

lemma first_minute:
  assumes "first = Truncate t Minute + Minute"
  shows "t < first" "first \<le> t + Minute" "first mod Minute = 0" "v mod Minute = 0 \<Longrightarrow> t < v \<Longrightarrow> first \<le> v"
proof -
  have f: "first = (t div Minute + 1) * Minute"
    using assms div_mult_mod_eq [of t Minute] unfolding Truncate_def by (simp add: minus_mod_eq_div_mult)
  show "t < first" unfolding f by (rule div_bounds(2)) simp
  show "first \<le> t + Minute" unfolding f using div_bounds(1) [of Minute t] by simp
  show "first mod Minute = 0" unfolding f by simp
  assume v: "v mod Minute = 0" "t < v"
  then have "v = v div Minute * Minute" using div_mult_mod_eq [of v Minute] by simp
  moreover have "t div Minute < v div Minute"
  proof -
    have "t div Minute * Minute < v div Minute * Minute"
      using v div_bounds(1) [of Minute t] calculation by simp
    then show ?thesis by (simp only: mult_less_cancel_right)
  qed
  then have "(t div Minute + 1) * Minute \<le> v div Minute * Minute" by (intro mult_right_mono) simp_all
  ultimately show "first \<le> v" using f by simp
qed

lemma Schedule_Next_cases:
  assumes "0 \<le> t"
  shows "(0 < every s \<longrightarrow> Schedule_Next s t = t + every s)
    \<and> (every s \<le> 0 \<longrightarrow>
        (Schedule_Next s t = 0 \<and> (\<forall>v. t < v \<and> v \<le> t + searchLimit \<longrightarrow> \<not> fires s v))
      \<or> (t < Schedule_Next s t \<and> Schedule_Next s t < t + Minute + searchLimit \<and> fires s (Schedule_Next s t)
          \<and> (\<forall>v. t < v \<and> v < Schedule_Next s t \<longrightarrow> \<not> fires s v)))"
proof (intro conjI impI)
  assume "every s \<le> 0"
  define first where "first = Truncate t Minute + Minute"
  have nx: "Schedule_Next s t = next_search s (first + searchLimit) first"
    using \<open>every s \<le> 0\<close> by (simp add: Schedule_Next_def first_def Let_def)
  note fm = first_minute [OF first_def]
  have lift: "first \<le> v" if "fires s v" "t < v" for v using fm(4) that by (simp add: fires_def)
  from next_search_spec [OF fm(3), of s "first + searchLimit"] show
    "(Schedule_Next s t = 0 \<and> (\<forall>v. t < v \<and> v \<le> t + searchLimit \<longrightarrow> \<not> fires s v))
      \<or> (t < Schedule_Next s t \<and> Schedule_Next s t < t + Minute + searchLimit \<and> fires s (Schedule_Next s t)
          \<and> (\<forall>v. t < v \<and> v < Schedule_Next s t \<longrightarrow> \<not> fires s v))"
  proof
    assume *: "next_search s (first + searchLimit) first = 0
      \<and> (\<forall>v. first \<le> v \<and> v < first + searchLimit \<longrightarrow> \<not> fires s v)"
    have "\<not> fires s v" if "t < v" "v \<le> t + searchLimit" for v
      using * that lift [of v] fm(1) by auto
    with * show ?thesis unfolding nx by blast
  next
    assume *: "first \<le> next_search s (first + searchLimit) first
      \<and> next_search s (first + searchLimit) first < first + searchLimit
      \<and> fires s (next_search s (first + searchLimit) first)
      \<and> (\<forall>v. first \<le> v \<and> v < next_search s (first + searchLimit) first \<longrightarrow> \<not> fires s v)"
    then have "t < next_search s (first + searchLimit) first"
      "next_search s (first + searchLimit) first < t + Minute + searchLimit" using fm(1,2) by linarith+
    with * lift show ?thesis unfolding nx by blast
  qed
qed (simp add: Schedule_Next_def)

text \<open>
  C32. Next of a field schedule is sound, minimal and complete within its limit. From any instant at or
  after the zero time the search terminates, and either it returns the first instant after \<open>t\<close>
  at which the schedule fires, or it returns the zero time and the schedule does not fire in the five years
  after \<open>t\<close>. An \<^verbatim>\<open>@every\<close> schedule fires one period later.
\<close>

theorem Schedule_Next_correct:
  assumes "0 \<le> t"
  shows "(0 < every s \<longrightarrow> Schedule_Next s t = t + every s)
    \<and> (every s \<le> 0 \<longrightarrow>
        (Schedule_Next s t = 0 \<and> (\<forall>v. t < v \<and> v \<le> t + searchLimit \<longrightarrow> \<not> fires s v))
      \<or> (t < Schedule_Next s t \<and> Schedule_Next s t < t + Minute + searchLimit \<and> fires s (Schedule_Next s t)
          \<and> (\<forall>v. t < v \<and> v < Schedule_Next s t \<longrightarrow> \<not> fires s v)))"
  using assms by (rule Schedule_Next_cases)

theorem Schedule_Next_correct_witness:
  "let s = \<lparr>minute = 2, hour = 1, dom = 0, month = 8190, dow = 127, domStar = True, dowStar = True, every = 0\<rparr>
   in Schedule_Next s 0 = Minute \<and> fires s Minute"
proof -
  let ?s = "\<lparr>minute = 2, hour = 1, dom = 0, month = 8190, dow = 127, domStar = True, dowStar = True, every = 0\<rparr>"
  have "Schedule_Next ?s 0 = Minute" by code_simp
  with Schedule_Next_correct [of 0 ?s] show ?thesis by (simp add: Let_def)
qed

section \<open>Leap days across a century\<close>

lemma bitSet_iff: "bitSet m v \<longleftrightarrow> bit m v"
proof (cases "63 < v")
  case True
  then have "\<not> bit m v" using bit_imp_le_length [of m v] by auto
  with True show ?thesis by (simp add: bitSet_def)
next
  case False
  then show ?thesis by (simp add: bitSet_def and_exp_eq_0_iff_not_bit flip: push_bit_eq_mult) 
qed

text \<open>The schedule of \<^verbatim>\<open>0 0 29 2 *\<close>: midnight on every 29 February.\<close>

definition leap_day_schedule :: Schedule where
  "leap_day_schedule = \<lparr>minute = 1, hour = 1, dom = 2 ^ 29, month = 4, dow = 127, domStar = False,
     dowStar = True, every = 0\<rparr>"

lemma bitSet_power: "k < 64 \<Longrightarrow> bitSet (2 ^ k) v \<longleftrightarrow> v = k"
  by (auto simp: bitSet_iff bit_simps)

lemma fires_leap_day:
  "fires leap_day_schedule t \<longleftrightarrow> t mod Minute = 0 \<and> Month t = 2 \<and> Day t = 29 \<and> Hour_of t = 0 \<and> Minute_of t = 0"
proof -
  have "bitSet (4 :: 64 word) v \<longleftrightarrow> v = 2" "bitSet (1 :: 64 word) v \<longleftrightarrow> v = 0" for v
    using bitSet_power [of 2 v] bitSet_power [of 0 v] by simp_all
  moreover have "bitSet (dom leap_day_schedule) v \<longleftrightarrow> v = 29" for v
    unfolding leap_day_schedule_def Schedule.select_convs by (rule bitSet_power) simp
  moreover have "0 \<le> Hour_of t" "0 \<le> Minute_of t" by (simp_all add: Hour_of_def Minute_of_def)
  ultimately show ?thesis
    using Month_range [of t] Day_bounds [of t]
    by (simp add: fires_def dayMatches_def Let_def) (auto simp: leap_day_schedule_def nat_eq_iff)
qed

lemma midnight_eq:
  assumes "t mod Minute = 0" and "Hour_of t = 0" and "Minute_of t = 0"
  shows "t = t div Day_ns * Day_ns"
proof -
  have "t = t div Minute * Minute" using assms(1) div_mult_mod_eq [of t Minute] by simp
  moreover have "t div Minute = t div Minute div 60 * 60"
    using assms(3) div_mult_mod_eq [of "t div Minute" 60] by (simp add: Minute_of_def)
  moreover have "t div Minute div 60 = t div Hour" using zdiv_zmult2_eq [of 60 t Minute] by simp
  moreover have "t div Hour = t div Hour div 24 * 24"
    using assms(2) div_mult_mod_eq [of "t div Hour" 24] by (simp add: Hour_of_def)
  moreover have "t div Hour div 24 = t div Day_ns" using zdiv_zmult2_eq [of 24 t Hour] by simp
  ultimately show ?thesis by linarith
qed

lemma leap_day_date:
  assumes "fires leap_day_schedule t"
  shows "leap (Year t)" and "t = Date (Year t) 2 29 0"
proof -
  have t: "t mod Minute = 0" "Month t = 2" "Day t = 29" "Hour_of t = 0" "Minute_of t = 0"
    using assms by (simp_all add: fires_leap_day)
  then show "leap (Year t)" using Day_bounds(2) [of t]
    by (cases "leap (Year t)") (auto simp: month_length_def days_before_month_values)
  have "t = t div Day_ns * Day_ns" using t by (intro midnight_eq)
  then show "t = Date (Year t) 2 29 0" using Date_parts [of t] t by simp
qed

lemma Year_mono: "t \<le> u \<Longrightarrow> Year t \<le> Year u"
proof -
  assume "t \<le> u"
  then have "t div Day_ns \<le> u div Day_ns" by (simp add: zdiv_mono1)
  then show ?thesis
    using year_of_day_bounds [of "t div Day_ns"] year_of_day_bounds [of "u div Day_ns"]
      days_before_year_mono [of "Year u + 1" "Year t"] by (fastforce simp: Year_def)
qed

text \<open>
  C39. The five-year limit is too short for leap days: asked on 29 February 2096 for the next fire of
  \<^verbatim>\<open>0 0 29 2 *\<close>, Next returns the zero time (the value for "never"), although the schedule fires on
  29 February 2104; 2100 is not a leap year.
\<close>

theorem Next_misses_leap_day:
  "Schedule_Next leap_day_schedule (Date 2096 2 29 0) = 0 \<and> fires leap_day_schedule (Date 2104 2 29 0)
    \<and> Date 2096 2 29 0 < Date 2104 2 29 0"
proof (intro conjI)
  let ?t = "Date 2096 2 29 0" and ?r = "Schedule_Next leap_day_schedule (Date 2096 2 29 0)"
  show "fires leap_day_schedule (Date 2104 2 29 0)" "Date 2096 2 29 0 < Date 2104 2 29 0" by code_simp+
  show "?r = 0"
  proof (rule ccontr)
    assume "?r \<noteq> 0"
    moreover have "0 \<le> ?t" "every leap_day_schedule \<le> 0" by code_simp+
    ultimately have r: "?t < ?r" "?r < ?t + Minute + searchLimit" "fires leap_day_schedule ?r"
      using Schedule_Next_cases [of ?t leap_day_schedule] by auto
    have "Year ?t = 2096" "Year (?t + Minute + searchLimit) = 2101" by code_simp+
    then have "2096 \<le> Year ?r" "Year ?r \<le> 2101" using Year_mono [of ?t ?r] Year_mono [of ?r "?t + Minute + searchLimit"] r by simp_all
    moreover have "Year ?r \<noteq> 2096" using leap_day_date(2) [OF r(3)] r(1) by auto
    ultimately have "Year ?r = 2097 \<or> Year ?r = 2098 \<or> Year ?r = 2099 \<or> Year ?r = 2100 \<or> Year ?r = 2101" by linarith
    moreover have "\<not> leap 2097 \<and> \<not> leap 2098 \<and> \<not> leap 2099 \<and> \<not> leap 2100 \<and> \<not> leap 2101" by code_simp
    ultimately show False using leap_day_date(1) [OF r(3)] by auto
  qed
qed

end
