(* ===== verification/Cron_Parse.thy ===== *)
theory Cron_Parse
  imports Cron_Next Go_Strings
begin

text \<open>
  Parsing of cron specifications, src/internal/cron/cron.go: \<^verbatim>\<open>parseValue\<close>, \<^verbatim>\<open>parseTerm\<close>, \<^verbatim>\<open>parseField\<close> and
  \<^verbatim>\<open>Parse\<close>. An error carries what the message of the code prints. The unsigned 64-bit loop counter of
  \<^verbatim>\<open>parseTerm\<close> stays below \<open>2^33\<close> (values are at most 59, steps below \<open>2^32\<close>), so it is a \<open>nat\<close> here.
\<close>

unbundle bit_operations_syntax

datatype cron_error =
    EmptySpec
  | BadDuration string
  | NonPositive duration
  | FieldCount nat string
  | EmptyTerm string
  | InvalidStep string string
  | Inverted string string
  | InvalidValue string string
  | OutOfRange nat nat nat string

record fieldSpec =
  fs_name :: string
  fs_min :: nat
  fs_max :: nat
  fs_names :: "string \<rightharpoonup> nat"

definition monthNames :: "string \<rightharpoonup> nat" where
  "monthNames = map_of [(''jan'', 1), (''feb'', 2), (''mar'', 3), (''apr'', 4), (''may'', 5), (''jun'', 6),
     (''jul'', 7), (''aug'', 8), (''sep'', 9), (''oct'', 10), (''nov'', 11), (''dec'', 12)]"

definition dayNames :: "string \<rightharpoonup> nat" where
  "dayNames = map_of [(''sun'', 0), (''mon'', 1), (''tue'', 2), (''wed'', 3), (''thu'', 4), (''fri'', 5), (''sat'', 6)]"

definition descriptors :: "string \<rightharpoonup> string" where
  "descriptors = map_of [(''@yearly'', ''0 0 1 1 *''), (''@annually'', ''0 0 1 1 *''), (''@monthly'', ''0 0 1 * *''),
     (''@weekly'', ''0 0 * * 0''), (''@daily'', ''0 0 * * *''), (''@midnight'', ''0 0 * * *''), (''@hourly'', ''0 * * * *'')]"

definition parseValue :: "string \<Rightarrow> fieldSpec \<Rightarrow> cron_error + nat" where
  "parseValue s f =
     (let s = TrimSpace s
      in case fs_names f (ToLower s) of
           Some v \<Rightarrow> Inr v
         | None \<Rightarrow>
             (case ParseUint32 s of
                None \<Rightarrow> Inl (InvalidValue s (fs_name f))
              | Some v \<Rightarrow>
                  if fs_name f = ''day of week'' \<and> v = 7 then Inr 0
                  else if v < fs_min f \<or> fs_max f < v then Inl (OutOfRange v (fs_min f) (fs_max f) (fs_name f))
                  else Inr v))"

text \<open>The loop \<^verbatim>\<open>for v := low; v <= high; v += step\<close>; the step is never 0.\<close>

function term_loop :: "nat \<Rightarrow> nat \<Rightarrow> nat \<Rightarrow> 64 word \<Rightarrow> 64 word" where
  "term_loop step high v bits =
     (if v \<le> high \<and> step \<noteq> 0 then term_loop step high (v + step) (bits OR push_bit v 1) else bits)"
  by pat_completeness auto
termination
  by (relation "measure (\<lambda>(step, high, v, bits). Suc high - v)") auto

declare term_loop.simps [simp del]

text \<open>The bounds of a term after its step has been split off.\<close>

definition term_bounds :: "string \<Rightarrow> nat \<Rightarrow> fieldSpec \<Rightarrow> cron_error + nat \<times> nat" where
  "term_bounds term step f =
     (if term = ''*'' then Inr (fs_min f, fs_max f)
      else if CHR ''-'' \<in> set term then
        (case parseValue (takeWhile (\<lambda>c. c \<noteq> CHR ''-'') term) f of
           Inl e \<Rightarrow> Inl e
         | Inr low \<Rightarrow>
             (case parseValue (tl (dropWhile (\<lambda>c. c \<noteq> CHR ''-'') term)) f of
                Inl e \<Rightarrow> Inl e
              | Inr high \<Rightarrow> if high < low then Inl (Inverted term (fs_name f)) else Inr (low, high)))
      else
        (case parseValue term f of
           Inl e \<Rightarrow> Inl e
         | Inr v \<Rightarrow> Inr (v, if 1 < step then fs_max f else v)))"

definition parseTerm :: "string \<Rightarrow> fieldSpec \<Rightarrow> cron_error + 64 word" where
  "parseTerm term f =
     (if CHR ''/'' \<in> set term then
        (let stepStr = tl (dropWhile (\<lambda>c. c \<noteq> CHR ''/'') term);
             term = takeWhile (\<lambda>c. c \<noteq> CHR ''/'') term
         in case ParseUint32 stepStr of
              None \<Rightarrow> Inl (InvalidStep stepStr (fs_name f))
            | Some step \<Rightarrow>
                if step = 0 then Inl (InvalidStep stepStr (fs_name f))
                else (case term_bounds term step f of
                        Inl e \<Rightarrow> Inl e
                      | Inr (low, high) \<Rightarrow> Inr (term_loop step high low 0)))
      else (case term_bounds term 1 f of
              Inl e \<Rightarrow> Inl e
            | Inr (low, high) \<Rightarrow> Inr (term_loop 1 high low 0)))"

fun field_loop :: "string list \<Rightarrow> fieldSpec \<Rightarrow> 64 word \<Rightarrow> cron_error + 64 word" where
  "field_loop [] f bits = Inr bits"
| "field_loop (term # terms) f bits =
     (let term = TrimSpace term
      in if term = [] then Inl (EmptyTerm (fs_name f))
         else case parseTerm term f of
             Inl e \<Rightarrow> Inl e
           | Inr termBits \<Rightarrow> field_loop terms f (bits OR termBits))"

definition parseField :: "string \<Rightarrow> fieldSpec \<Rightarrow> cron_error + 64 word" where
  "parseField field f = field_loop (split_on (\<lambda>c. c = CHR '','') field) f 0"

definition spec_minute :: fieldSpec where
  "spec_minute = \<lparr>fs_name = ''minute'', fs_min = 0, fs_max = 59, fs_names = Map.empty\<rparr>"

definition spec_hour :: fieldSpec where
  "spec_hour = \<lparr>fs_name = ''hour'', fs_min = 0, fs_max = 23, fs_names = Map.empty\<rparr>"

definition spec_dom :: fieldSpec where
  "spec_dom = \<lparr>fs_name = ''day of month'', fs_min = 1, fs_max = 31, fs_names = Map.empty\<rparr>"

definition spec_month :: fieldSpec where
  "spec_month = \<lparr>fs_name = ''month'', fs_min = 1, fs_max = 12, fs_names = monthNames\<rparr>"

definition spec_dow :: fieldSpec where
  "spec_dow = \<lparr>fs_name = ''day of week'', fs_min = 0, fs_max = 6, fs_names = dayNames\<rparr>"

definition zero_schedule :: Schedule where
  "zero_schedule = \<lparr>minute = 0, hour = 0, dom = 0, month = 0, dow = 0, domStar = False, dowStar = False, every = 0\<rparr>"

text \<open>The loop over the five fields, in their order.\<close>

definition parse_fields :: "string list \<Rightarrow> cron_error + Schedule" where
  "parse_fields fs =
     (case parseField (fs ! 0) spec_minute of Inl e \<Rightarrow> Inl e | Inr b0 \<Rightarrow>
     (case parseField (fs ! 1) spec_hour of Inl e \<Rightarrow> Inl e | Inr b1 \<Rightarrow>
     (case parseField (fs ! 2) spec_dom of Inl e \<Rightarrow> Inl e | Inr b2 \<Rightarrow>
     (case parseField (fs ! 3) spec_month of Inl e \<Rightarrow> Inl e | Inr b3 \<Rightarrow>
     (case parseField (fs ! 4) spec_dow of Inl e \<Rightarrow> Inl e | Inr b4 \<Rightarrow>
        Inr \<lparr>minute = b0, hour = b1, dom = b2, month = b3, dow = b4, domStar = fs ! 2 = ''*'',
             dowStar = fs ! 4 = ''*'', every = 0\<rparr>)))))"

definition Parse :: "(int \<Rightarrow> int \<Rightarrow> int \<Rightarrow> int) \<Rightarrow> string \<Rightarrow> cron_error + Schedule" where
  "Parse fmul spec =
     (let spec = TrimSpace spec
      in if spec = [] then Inl EmptySpec
         else if take 7 spec = ''@every '' then
           (case ParseDuration fmul (TrimSpace (drop 7 spec)) of
              None \<Rightarrow> Inl (BadDuration (TrimSpace (drop 7 spec)))
            | Some d \<Rightarrow> if d \<le> 0 then Inl (NonPositive d) else Inr (zero_schedule\<lparr>every := d\<rparr>))
         else
           (let spec = (case descriptors (ToLower spec) of None \<Rightarrow> spec | Some e \<Rightarrow> e);
                fs = Fields spec
            in if length fs \<noteq> 5 then Inl (FieldCount (length fs) spec) else parse_fields fs))"

section \<open>Terms\<close>

lemma bit_term_loop:
  "step \<noteq> 0 \<Longrightarrow> high < 64 \<Longrightarrow>
     bit (term_loop step high v bits) k \<longleftrightarrow> bit bits k \<or> (v \<le> k \<and> k \<le> high \<and> (k - v) mod step = 0)"
proof (induction step high v bits rule: term_loop.induct)
  case (1 step high v bits)
  show ?case
  proof (cases "v \<le> high")
    case True
    have key: "(v \<le> k \<and> k \<le> high \<and> (k - v) mod step = 0)
        \<longleftrightarrow> k = v \<or> (v + step \<le> k \<and> k \<le> high \<and> (k - (v + step)) mod step = 0)"
      using True "1.prems"(1) by (auto simp: le_mod_geq mod_if [of "k - v"])
    have "bit (term_loop step high (v + step) (bits OR push_bit v 1)) k
        \<longleftrightarrow> bit (bits OR push_bit v 1) k \<or> (v + step \<le> k \<and> k \<le> high \<and> (k - (v + step)) mod step = 0)"
      using True "1.prems" by (intro "1.IH") simp_all
    moreover have "bit (bits OR push_bit v 1) k \<longleftrightarrow> bit bits k \<or> k = v"
      using True "1.prems"(2) by (auto simp: bit_simps)
    ultimately show ?thesis using True "1.prems"(1) key by (auto simp: term_loop.simps [of step high v])
  qed (auto simp: term_loop.simps [of step high v])
qed

section \<open>Masks stay in range\<close>

definition wf_spec :: "fieldSpec \<Rightarrow> bool" where
  "wf_spec f \<longleftrightarrow> fs_min f \<le> fs_max f \<and> fs_max f < 64 \<and> (fs_name f = ''day of week'' \<longrightarrow> fs_min f = 0 \<and> fs_max f < 7)
     \<and> (\<forall>k v. fs_names f k = Some v \<longrightarrow> fs_min f \<le> v \<and> v \<le> fs_max f \<and> k \<noteq> [] \<and> \<not> is_digit (hd k))"

lemma names_cases: "map_of al k = Some v \<Longrightarrow> list_all P al \<Longrightarrow> P (k, v)"
  by (auto simp: list_all_iff dest: map_of_SomeD)

lemma wf_specs: "wf_spec spec_minute" "wf_spec spec_hour" "wf_spec spec_dom" "wf_spec spec_month" "wf_spec spec_dow"
proof -
  have "list_all (\<lambda>(k, v). 1 \<le> v \<and> v \<le> 12 \<and> k \<noteq> [] \<and> \<not> is_digit (hd k)) [(''jan'', 1 :: nat), (''feb'', 2), (''mar'', 3),
      (''apr'', 4), (''may'', 5), (''jun'', 6), (''jul'', 7), (''aug'', 8), (''sep'', 9), (''oct'', 10), (''nov'', 11), (''dec'', 12)]"
    by code_simp
  from names_cases [OF _ this, folded monthNames_def]
  have "monthNames k = Some v \<Longrightarrow> 1 \<le> v \<and> v \<le> 12 \<and> k \<noteq> [] \<and> \<not> is_digit (hd k)" for k v by fastforce
  then show "wf_spec spec_month" by (simp add: wf_spec_def spec_month_def)
  have "list_all (\<lambda>(k, v). v \<le> 6 \<and> k \<noteq> [] \<and> \<not> is_digit (hd k)) [(''sun'', 0 :: nat), (''mon'', 1), (''tue'', 2), (''wed'', 3),
      (''thu'', 4), (''fri'', 5), (''sat'', 6)]"
    by code_simp
  from names_cases [OF _ this, folded dayNames_def]
  have "dayNames k = Some v \<Longrightarrow> v \<le> 6 \<and> k \<noteq> [] \<and> \<not> is_digit (hd k)" for k v by fastforce
  then show "wf_spec spec_dow" by (simp add: wf_spec_def spec_dow_def)
qed (simp_all add: wf_spec_def spec_minute_def spec_hour_def spec_dom_def)

lemma parseValue_range:
  "wf_spec f \<Longrightarrow> parseValue s f = Inr v \<Longrightarrow> fs_min f \<le> v \<and> v \<le> fs_max f"
  by (auto simp: parseValue_def wf_spec_def Let_def split: option.splits if_splits)

lemma term_bounds_range:
  assumes "wf_spec f" and "term_bounds term step f = Inr (low, high)"
  shows "fs_min f \<le> low \<and> low \<le> high \<and> high \<le> fs_max f"
  using assms parseValue_range [OF assms(1)]
  by (fastforce simp: term_bounds_def wf_spec_def split: if_splits sum.splits)

text \<open>A mask that has a bit set, and only bits in a range.\<close>

definition mask_in :: "nat \<Rightarrow> nat \<Rightarrow> 64 word \<Rightarrow> bool" where
  "mask_in lo hi m \<longleftrightarrow> (\<exists>k. bitSet m k) \<and> (\<forall>k. bitSet m k \<longrightarrow> lo \<le> k \<and> k \<le> hi)"

lemma term_loop_mask:
  "wf_spec f \<Longrightarrow> step \<noteq> 0 \<Longrightarrow> fs_min f \<le> low \<and> low \<le> high \<and> high \<le> fs_max f \<Longrightarrow>
     mask_in (fs_min f) (fs_max f) (term_loop step high low 0)"
  by (auto simp: mask_in_def bitSet_iff bit_term_loop wf_spec_def intro!: exI [of _ low])

lemma parseTerm_mask:
  assumes "wf_spec f" and "parseTerm term f = Inr m"
  shows "mask_in (fs_min f) (fs_max f) m"
  using assms(2) term_bounds_range [OF assms(1)] term_loop_mask [OF assms(1)]
  by (auto simp: parseTerm_def Let_def split: if_splits option.splits sum.splits prod.splits)

lemma mask_in_or:
  "mask_in lo hi b \<Longrightarrow> (\<forall>k. bitSet a k \<longrightarrow> lo \<le> k \<and> k \<le> hi) \<Longrightarrow> mask_in lo hi (a OR b)"
  by (auto simp: mask_in_def bitSet_iff bit_or_iff)

lemma field_loop_mask:
  "wf_spec f \<Longrightarrow> field_loop terms f bits = Inr m \<Longrightarrow> \<forall>k. bitSet bits k \<longrightarrow> fs_min f \<le> k \<and> k \<le> fs_max f \<Longrightarrow>
     (terms \<noteq> [] \<longrightarrow> mask_in (fs_min f) (fs_max f) m) \<and> (\<forall>k. bitSet bits k \<longrightarrow> bitSet m k)
     \<and> (\<forall>k. bitSet m k \<longrightarrow> fs_min f \<le> k \<and> k \<le> fs_max f)"
proof (induction terms arbitrary: bits)
  case (Cons tm terms)
  from Cons.prems(2) obtain tb where tb: "parseTerm (TrimSpace tm) f = Inr tb" "field_loop terms f (bits OR tb) = Inr m"
    by (auto simp: Let_def split: if_splits sum.splits)
  have "mask_in (fs_min f) (fs_max f) (bits OR tb)"
    using parseTerm_mask [OF Cons.prems(1) tb(1)] Cons.prems(3) by (rule mask_in_or)
  then have ok: "\<exists>k. bitSet (bits OR tb) k" "\<forall>k. bitSet (bits OR tb) k \<longrightarrow> fs_min f \<le> k \<and> k \<le> fs_max f"
    by (simp_all add: mask_in_def)
  from Cons.IH [OF Cons.prems(1) tb(2) ok(2)]
  have "\<forall>k. bitSet (bits OR tb) k \<longrightarrow> bitSet m k" "\<forall>k. bitSet m k \<longrightarrow> fs_min f \<le> k \<and> k \<le> fs_max f" by simp_all
  with ok(1) show ?case by (auto simp: mask_in_def bitSet_iff bit_or_iff)
qed simp

lemma parseField_mask:
  assumes "wf_spec f" and "parseField s f = Inr m"
  shows "mask_in (fs_min f) (fs_max f) m"
proof -
  have "\<forall>k. bitSet 0 k \<longrightarrow> fs_min f \<le> k \<and> k \<le> fs_max f" by (simp add: bitSet_def)
  from field_loop_mask [OF assms(1) assms(2) [unfolded parseField_def] this] split_on_nonempty
  show ?thesis by blast
qed

text \<open>The invariant of parsed schedules.\<close>

definition wf_schedule :: "Schedule \<Rightarrow> bool" where
  "wf_schedule s \<longleftrightarrow> (0 < every s \<and> s = zero_schedule\<lparr>every := every s\<rparr>)
     \<or> (every s = 0 \<and> mask_in 0 59 (minute s) \<and> mask_in 0 23 (hour s) \<and> mask_in 1 31 (dom s)
         \<and> mask_in 1 12 (month s) \<and> mask_in 0 6 (dow s))"

lemmas spec_defs = spec_minute_def spec_hour_def spec_dom_def spec_month_def spec_dow_def

lemma parse_fields_wf: "parse_fields fs = Inr s \<Longrightarrow> wf_schedule s"
  using wf_specs parseField_mask
  by (fastforce simp: parse_fields_def wf_schedule_def spec_defs split: sum.splits)

lemma parse_wf:
  assumes "Parse fmul spec = Inr s"
  shows "wf_schedule s"
proof -
  have "wf_schedule (zero_schedule\<lparr>every := d\<rparr>)" if "0 < d" for d
    using that by (simp add: wf_schedule_def zero_schedule_def)
  then show ?thesis using assms parse_fields_wf
    by (auto simp: Parse_def Let_def split: if_splits option.splits)
qed

text \<open>
  C34. Parse only produces well-formed schedules: an accepted specification is either a positive \<^verbatim>\<open>@every\<close>
  period with empty masks, or five masks that each have a bit set and only bits of the legal range of
  their field (so matching never looks at a bit that no date can have).
\<close>

theorem Parse_well_formed:
  assumes "Parse fmul spec = Inr s"
  shows "wf_schedule s"
  using assms by (rule parse_wf)

theorem Parse_well_formed_witness:
  "\<exists>s. Parse (\<lambda>_ _ _. 0) ''*/15 9-17 * JAN,7 mon-fri'' = Inr s \<and> wf_schedule s \<and> month s = 130"
proof -
  have "map_sum (\<lambda>_. ()) month (Parse (\<lambda>_ _ _. 0) ''*/15 9-17 * JAN,7 mon-fri'') = Inr 130"
    by code_simp
  then show ?thesis using Parse_well_formed by (cases "Parse (\<lambda>_ _ _. 0) ''*/15 9-17 * JAN,7 mon-fri''") auto
qed

section \<open>Printing and parsing\<close>

text \<open>A field in canonical form, its text and its mask.\<close>

datatype cron_field = Star | Values "nat list"

fun field_text :: "cron_field \<Rightarrow> string" where
  "field_text Star = ''*''"
| "field_text (Values vs) = join (CHR '','') (map itoa_nat vs)"

fun field_values :: "nat \<Rightarrow> nat \<Rightarrow> cron_field \<Rightarrow> nat list" where
  "field_values lo hi Star = [lo..<Suc hi]"
| "field_values lo hi (Values vs) = vs"

definition field_mask :: "nat \<Rightarrow> nat \<Rightarrow> cron_field \<Rightarrow> 64 word" where
  "field_mask lo hi fld = fold (\<lambda>v m. m OR push_bit v 1) (field_values lo hi fld) 0"

fun field_legal :: "nat \<Rightarrow> nat \<Rightarrow> cron_field \<Rightarrow> bool" where
  "field_legal lo hi Star \<longleftrightarrow> True"
| "field_legal lo hi (Values vs) \<longleftrightarrow> vs \<noteq> [] \<and> (\<forall>v \<in> set vs. lo \<le> v \<and> v \<le> hi)"

lemma bit_fold_push:
  "\<forall>v \<in> set vs. v < 64 \<Longrightarrow> bit (fold (\<lambda>v m. m OR push_bit v 1) vs m) k \<longleftrightarrow> bit (m :: 64 word) k \<or> k \<in> set vs"
  by (induction vs arbitrary: m) (auto simp: bit_simps)

lemma bitSet_field_mask:
  assumes "field_legal lo hi fld" and "hi < 64"
  shows "bitSet (field_mask lo hi fld) k \<longleftrightarrow> k \<in> set (field_values lo hi fld)"
proof -
  have "\<forall>v \<in> set (field_values lo hi fld). v < 64" using assms by (cases fld) (auto simp del: upt_Suc)
  from bit_fold_push [OF this, of 0 k] show ?thesis unfolding bitSet_iff field_mask_def by simp
qed

lemma ToLower_digits: "\<forall>c \<in> set s. digit_val c \<noteq> None \<Longrightarrow> ToLower s = s"
  by (induction s) (auto simp: ToLower_def lower_char_def digit_val_def split: if_splits)

lemma is_digit_hd_itoa: "is_digit (hd (itoa_nat v))"
  using itoa_nat_all_digits [of "hd (itoa_nat v)" v] by (simp add: is_digit_def)

lemma parseValue_itoa:
  assumes "wf_spec f" and "fs_min f \<le> v" and "v \<le> fs_max f"
  shows "parseValue (itoa_nat v) f = Inr v"
proof -
  have "TrimSpace (itoa_nat v) = itoa_nat v"
    using itoa_nat_all_digits [of _ v] digit_not_space by (intro TrimSpace_id) blast
  moreover have "fs_names f (ToLower (itoa_nat v)) = None"
    using assms(1) is_digit_hd_itoa [of v] itoa_nat_all_digits [of _ v]
    by (cases "fs_names f (itoa_nat v)") (auto simp: wf_spec_def ToLower_digits)
  moreover have "ParseUint32 (itoa_nat v) = Some v"
    using assms by (intro ParseUint32_itoa) (simp add: wf_spec_def)
  ultimately show ?thesis using assms by (auto simp: parseValue_def wf_spec_def)
qed

lemma itoa_no_sep: "of_char c \<notin> {48..57 :: nat} \<Longrightarrow> \<forall>d \<in> set (itoa_nat v). d \<noteq> c"
  using itoa_nat_no by blast

lemma term_bounds_itoa:
  assumes "wf_spec f" and "fs_min f \<le> v" and "v \<le> fs_max f"
  shows "term_bounds (itoa_nat v) step f = Inr (v, if 1 < step then fs_max f else v)"
proof -
  have "itoa_nat v \<noteq> ''*''" using itoa_nat_no [of "CHR ''*''" v] by auto
  moreover have "CHR ''-'' \<notin> set (itoa_nat v)" by (rule itoa_nat_no) simp
  ultimately show ?thesis using parseValue_itoa [OF assms] by (simp add: term_bounds_def)
qed

lemma parseTerm_itoa:
  assumes "wf_spec f" and "fs_min f \<le> v" and "v \<le> fs_max f"
  shows "\<exists>m. parseTerm (itoa_nat v) f = Inr m \<and> (\<forall>k. bit m k \<longleftrightarrow> k = v)"
proof -
  have "CHR ''/'' \<notin> set (itoa_nat v)" by (rule itoa_nat_no) simp
  moreover have "v < 64" using assms by (simp add: wf_spec_def)
  then have "bit (term_loop 1 v v 0) k \<longleftrightarrow> k = v" for k by (auto simp: bit_term_loop)
  ultimately show ?thesis using term_bounds_itoa [OF assms, of 1] by (simp add: parseTerm_def)
qed

lemma parseTerm_star: "parseTerm ''*'' f = Inr (term_loop 1 (fs_max f) (fs_min f) 0)"
  by (simp add: parseTerm_def term_bounds_def)

lemma field_loop_itoa:
  assumes "wf_spec f"
  shows "\<forall>v \<in> set vs. fs_min f \<le> v \<and> v \<le> fs_max f \<Longrightarrow>
    \<exists>m. field_loop (map itoa_nat vs) f bits = Inr m \<and> (\<forall>k. bit m k \<longleftrightarrow> bit bits k \<or> k \<in> set vs)"
proof (induction vs arbitrary: bits)
  case (Cons v vs)
  have "fs_min f \<le> v" "v \<le> fs_max f" using Cons.prems by simp_all
  from parseTerm_itoa [OF assms this] obtain m where
    m: "parseTerm (itoa_nat v) f = Inr m" "\<forall>k. bit m k \<longleftrightarrow> k = v" by blast
  have "TrimSpace (itoa_nat v) = itoa_nat v"
    using itoa_nat_all_digits [of _ v] digit_not_space by (intro TrimSpace_id) blast
  with m Cons.IH [of "bits OR m"] Cons.prems show ?case by (auto simp: bit_or_iff Let_def)
qed simp

lemma parseField_text:
  assumes "wf_spec f" and "field_legal (fs_min f) (fs_max f) fld"
  shows "parseField (field_text fld) f = Inr (field_mask (fs_min f) (fs_max f) fld)"
proof -
  have hi: "fs_max f < 64" "fs_min f \<le> fs_max f" using assms(1) by (simp_all add: wf_spec_def)
  have "\<exists>m. parseField (field_text fld) f = Inr m \<and> (\<forall>k. bit m k \<longleftrightarrow> k \<in> set (field_values (fs_min f) (fs_max f) fld))"
  proof (cases fld)
    case Star
    have "TrimSpace ''*'' = ''*''" by code_simp
    with Star hi show ?thesis by (auto simp: parseField_def parseTerm_star bit_term_loop)
  next
    case (Values vs)
    have "split_on (\<lambda>c. c = CHR '','') (join (CHR '','') (map itoa_nat vs)) = map itoa_nat vs"
      using assms(2) Values itoa_no_sep [of "CHR '',''"] by (intro split_on_join) auto
    with Values assms(2) field_loop_itoa [OF assms(1), of vs 0] show ?thesis by (simp add: parseField_def)
  qed
  then obtain m where m: "parseField (field_text fld) f = Inr m"
    "\<forall>k. bit m k \<longleftrightarrow> k \<in> set (field_values (fs_min f) (fs_max f) fld)" by blast
  have "m = field_mask (fs_min f) (fs_max f) fld"
    using m(2) bitSet_field_mask [OF assms(2) hi(1)] by (intro bit_word_eqI) (simp add: bitSet_iff)
  with m(1) show ?thesis by simp
qed

lemma itoa_nat_hd: "itoa_nat v = hd (itoa_nat v) # tl (itoa_nat v)"
  by simp

definition field_char :: "char \<Rightarrow> bool" where
  "field_char c \<longleftrightarrow> c = CHR ''*'' \<or> c = CHR '','' \<or> digit_val c \<noteq> None"

lemma field_char_props: "field_char c \<Longrightarrow> \<not> is_space c \<and> c \<noteq> CHR ''@''"
  by (auto simp: field_char_def is_space_def digit_val_def split: if_splits)

lemma field_text_chars: "c \<in> set (field_text fld) \<Longrightarrow> field_char c"
proof (cases fld)
  case (Values vs)
  assume "c \<in> set (field_text fld)"
  then have "c = CHR '','' \<or> (\<exists>v \<in> set vs. c \<in> set (itoa_nat v))"
    using set_join [of "CHR '',''" "map itoa_nat vs"] Values by auto
  then show ?thesis using itoa_nat_all_digits by (auto simp: field_char_def)
qed (simp add: field_char_def)

lemma field_text_nonempty: "field_legal lo hi fld \<Longrightarrow> field_text fld \<noteq> []"
proof (cases fld)
  case (Values vs)
  assume "field_legal lo hi fld"
  then obtain v ws where "vs = v # ws" using Values by (cases vs) auto
  then show ?thesis using Values by (cases ws) auto
qed simp

lemma dropWhile_hd: "xs \<noteq> [] \<Longrightarrow> \<not> P (hd xs) \<Longrightarrow> dropWhile P xs = xs"
  by (cases xs) auto

lemma TrimSpace_ends: "s \<noteq> [] \<Longrightarrow> \<not> is_space (hd s) \<Longrightarrow> \<not> is_space (last s) \<Longrightarrow> TrimSpace s = s"
  using dropWhile_hd [of s is_space] dropWhile_hd [of "rev s" is_space] by (simp add: TrimSpace_def hd_rev)

lemma descriptors_at: "hd s \<noteq> CHR ''@'' \<Longrightarrow> s \<noteq> [] \<Longrightarrow> descriptors (ToLower s) = None"
proof -
  assume s: "hd s \<noteq> CHR ''@''" "s \<noteq> []"
  have "list_all (\<lambda>(k, v). hd k = CHR ''@'') [(''@yearly'', ''0 0 1 1 *''), (''@annually'', ''0 0 1 1 *''), (''@monthly'', ''0 0 1 * *''),
     (''@weekly'', ''0 0 * * 0''), (''@daily'', ''0 0 * * *''), (''@midnight'', ''0 0 * * *''), (''@hourly'', ''0 * * * *'')]"
    by simp
  from names_cases [OF _ this, folded descriptors_def] have "descriptors k = Some v \<Longrightarrow> hd k = CHR ''@''" for k v by fastforce
  moreover have "hd (ToLower s) \<noteq> CHR ''@''"
  proof
    assume at: "hd (ToLower s) = CHR ''@''"
    have "hd (ToLower s) = lower_char (hd s)" using s(2) by (simp add: ToLower_def hd_map)
    then have "of_char (lower_char (hd s)) = (of_char (CHR ''@'') :: nat)" using at by (simp only:)
    then have "of_char (lower_char (hd s)) = (64 :: nat)" by simp
    then have "of_char (hd s) = (64 :: nat)" by (auto simp: lower_char_def of_char_of split: if_splits)
    then have "hd s = char_of (64 :: nat)" by (metis char_of_char)
    moreover have "char_of (64 :: nat) = CHR ''@''" by code_simp
    ultimately show False using s(1) by (simp only:)
  qed
  ultimately show ?thesis by (cases "descriptors (ToLower s)") auto
qed

lemma Parse_words:
  assumes "\<And>w. w \<in> set [w0, w1, w2, w3, w4] \<Longrightarrow> w \<noteq> [] \<and> (\<forall>c \<in> set w. \<not> is_space c)" and "hd w0 \<noteq> CHR ''@''"
  shows "Parse fmul (join (CHR '' '') [w0, w1, w2, w3, w4]) = parse_fields [w0, w1, w2, w3, w4]"
proof -
  let ?ws = "[w0, w1, w2, w3, w4]"
  let ?s = "join (CHR '' '') ?ws"
  have "split_on is_space ?s = ?ws" using assms(1) by (intro split_on_join) (auto simp: is_space_def)
  then have fields: "Fields ?s = ?ws" using assms(1) by (simp add: Fields_def)
  have hd: "hd ?s = hd w0" and last: "last ?s = last w4" and sne: "?s \<noteq> []" using assms(1) by auto
  have "\<not> is_space (hd w0)" "\<not> is_space (last w4)" using assms(1) [of w0] assms(1) [of w4] by simp_all
  with hd last sne have trim: "TrimSpace ?s = ?s" by (intro TrimSpace_ends) (simp_all only: not_False_eq_True)
  have "take 7 ?s \<noteq> ''@every ''" using sne assms(2) hd by (metis hd_take list.sel(1) zero_less_numeral)
  then show ?thesis
    using trim sne fields descriptors_at [of ?s] assms(2) hd by (simp add: Parse_def Let_def del: join.simps)
qed

lemma parse_fields_text:
  assumes "field_legal 0 59 f0" and "field_legal 0 23 f1" and "field_legal 1 31 f2" and "field_legal 1 12 f3"
    and w: "w \<noteq> []" "\<forall>c \<in> set w. \<not> is_space c"
  shows "Parse fmul (join (CHR '' '') [field_text f0, field_text f1, field_text f2, field_text f3, w]) = (case parseField w spec_dow of
      Inl e \<Rightarrow> Inl e
    | Inr m \<Rightarrow> Inr \<lparr>minute = field_mask 0 59 f0, hour = field_mask 0 23 f1, dom = field_mask 1 31 f2,
          month = field_mask 1 12 f3, dow = m, domStar = (field_text f2 = ''*''), dowStar = (w = ''*''), every = 0\<rparr>)"
proof -
  have ne: "field_text f0 \<noteq> []" "field_text f1 \<noteq> []" "field_text f2 \<noteq> []" "field_text f3 \<noteq> []"
    using assms field_text_nonempty by blast+
  have ns: "\<not> is_space c" if "c \<in> set (field_text f)" for c f using field_text_chars [OF that] field_char_props by blast
  have "hd (field_text f0) \<noteq> CHR ''@''" using ne(1) field_text_chars field_char_props hd_in_set by blast
  then have "Parse fmul (join (CHR '' '') [field_text f0, field_text f1, field_text f2, field_text f3, w])
      = parse_fields [field_text f0, field_text f1, field_text f2, field_text f3, w]"
    using ne ns w by (intro Parse_words) auto
  moreover have "parseField (field_text f0) spec_minute = Inr (field_mask 0 59 f0)"
    "parseField (field_text f1) spec_hour = Inr (field_mask 0 23 f1)" "parseField (field_text f2) spec_dom = Inr (field_mask 1 31 f2)"
    "parseField (field_text f3) spec_month = Inr (field_mask 1 12 f3)"
    using parseField_text [OF wf_specs(1), of f0] parseField_text [OF wf_specs(2), of f1] parseField_text [OF wf_specs(3), of f2]
      parseField_text [OF wf_specs(4), of f3] assms
    by (simp_all add: spec_defs)
  ultimately show ?thesis by (cases "parseField w spec_dow") (simp_all add: parse_fields_def del: join.simps)
qed

text \<open>
  C33. Round trip: printing five fields, each a star or a non-empty list of legal values in decimal, and
  parsing the text gives exactly the masks of those fields, with the star flags of the two day fields.
\<close>

theorem Parse_round_trip:
  assumes "field_legal 0 59 f0" and "field_legal 0 23 f1" and "field_legal 1 31 f2" and "field_legal 1 12 f3"
    and "field_legal 0 6 f4"
  shows "Parse fmul (join (CHR '' '') [field_text f0, field_text f1, field_text f2, field_text f3, field_text f4])
    = Inr \<lparr>minute = field_mask 0 59 f0, hour = field_mask 0 23 f1, dom = field_mask 1 31 f2,
          month = field_mask 1 12 f3, dow = field_mask 0 6 f4, domStar = (field_text f2 = ''*''),
          dowStar = (field_text f4 = ''*''), every = 0\<rparr>"
proof -
  have "field_text f4 \<noteq> []" "\<forall>c \<in> set (field_text f4). \<not> is_space c"
    using field_text_nonempty [OF assms(5)] field_text_chars field_char_props by blast+
  moreover have "parseField (field_text f4) spec_dow = Inr (field_mask 0 6 f4)"
    using parseField_text [OF wf_specs(5), of f4] assms(5) by (simp add: spec_defs)
  ultimately show ?thesis using parse_fields_text [OF assms(1-4)] by simp
qed

theorem Parse_round_trip_witness:
  "Parse (\<lambda>_ _ _. 0) (join (CHR '' '') [field_text (Values [0, 30]), field_text Star, field_text (Values [1]), field_text Star, field_text Star])
    = Inr \<lparr>minute = field_mask 0 59 (Values [0, 30]), hour = field_mask 0 23 Star, dom = field_mask 1 31 (Values [1]),
          month = field_mask 1 12 Star, dow = field_mask 0 6 Star, domStar = False, dowStar = True, every = 0\<rparr>"
proof -
  have "field_text (Values [1]) \<noteq> ''*''" by code_simp
  then show ?thesis
    using Parse_round_trip [of "Values [0, 30]" Star "Values [1]" Star Star "\<lambda>_ _ _. 0"]
    by (simp del: field_text.simps(2) join.simps)
qed

section \<open>Ranges and steps\<close>

lemma span_sep:
  "\<forall>c \<in> set w. c \<noteq> sep \<Longrightarrow> takeWhile (\<lambda>c. c \<noteq> sep) (w @ sep # r) = w"
  "\<forall>c \<in> set w. c \<noteq> sep \<Longrightarrow> dropWhile (\<lambda>c. c \<noteq> sep) (w @ sep # r) = sep # r"
  by (induction w) simp_all

text \<open>
  A term \<open>low-high/step\<close> in decimal, with legal bounds in order and a positive step below \<open>2^32\<close>, sets
  exactly the bits \<open>low\<close>, \<open>low + step\<close>, \<open>low + 2 * step\<close> and so on up to \<open>high\<close>; with the bounds the wrong way
  round it is refused as inverted.
\<close>

theorem parseTerm_range:
  assumes "f \<in> {spec_minute, spec_hour, spec_dom, spec_month, spec_dow}"
    and "fs_min f \<le> low" and "low \<le> fs_max f" and "fs_min f \<le> high" and "high \<le> fs_max f"
    and "0 < step" and "int step < 2 ^ 32"
  shows "case parseTerm (itoa_nat low @ ''-'' @ itoa_nat high @ ''/'' @ itoa_nat step) f of
      Inl e \<Rightarrow> high < low \<and> e = Inverted (itoa_nat low @ ''-'' @ itoa_nat high) (fs_name f)
    | Inr m \<Rightarrow> low \<le> high \<and> (\<forall>v. bitSet m v \<longleftrightarrow> low \<le> v \<and> v \<le> high \<and> (v - low) mod step = 0)"
proof -
  let ?r = "itoa_nat low @ CHR ''-'' # itoa_nat high"
  have wf: "wf_spec f" using assms(1) wf_specs by auto
  have slash: "\<forall>c \<in> set ?r. c \<noteq> CHR ''/''" using itoa_no_sep [of "CHR ''/''"] by auto
  have dash: "\<forall>c \<in> set (itoa_nat low). c \<noteq> CHR ''-''" using itoa_no_sep [of "CHR ''-''"] by auto
  note spans = span_sep [OF slash, of "itoa_nat step"] span_sep [OF dash, of "itoa_nat high"]
  have "?r \<noteq> ''*''" using itoa_nat_no [of "CHR ''*''" low] by (cases "itoa_nat low") auto
  then have eq: "parseTerm (?r @ CHR ''/'' # itoa_nat step) f
      = (if high < low then Inl (Inverted ?r (fs_name f)) else Inr (term_loop step high low 0))"
    using parseValue_itoa [OF wf assms(2,3)] parseValue_itoa [OF wf assms(4,5)] ParseUint32_itoa [OF assms(7)] assms(6)
    unfolding parseTerm_def term_bounds_def Let_def spans list.sel by simp
  have "high < 64" using wf assms(5) by (simp add: wf_spec_def)
  with eq assms(6) show ?thesis by (simp add: bitSet_iff bit_term_loop)
qed

theorem parseTerm_range_witness:
  "\<exists>m. parseTerm (itoa_nat 9 @ ''-'' @ itoa_nat 17 @ ''/'' @ itoa_nat 4) spec_hour = Inr m
    \<and> bitSet m 13 \<and> \<not> bitSet m 14 \<and> \<not> bitSet m 21"
  using parseTerm_range [of spec_hour 9 17 4]
  by (simp add: spec_hour_def del: append_Cons append_assoc split: sum.splits)

lemma parseField_to_seven:
  assumes "low \<le> 6"
  shows "parseField (itoa_nat low @ ''-7'') spec_dow
    = (if low = 0 then Inr 1 else Inl (Inverted (itoa_nat low @ ''-7'') ''day of week''))"
proof -
  have "low \<in> {0, 1, 2, 3, 4, 5, 6}" using assms by auto
  moreover have "list_all (\<lambda>low. parseField (itoa_nat low @ ''-7'') spec_dow
      = (if low = 0 then Inr 1 else Inl (Inverted (itoa_nat low @ ''-7'') ''day of week''))) [0, 1, 2, 3, 4, 5, 6]" by code_simp
  ultimately show ?thesis by (auto simp: list_all_iff)
qed

text \<open>
  C40. Sunday as 7 does not work at the end of a range. With any legal minute, hour, day of month and month, a
  day-of-week range \<open>low-7\<close> in decimal is refused as inverted for every \<open>low\<close> from 1 to 6, and for 0 it stands for
  Sunday alone instead of the whole week, because 7 has become 0 before the bounds are compared.
\<close>

theorem Parse_range_to_seven:
  assumes "field_legal 0 59 f0" and "field_legal 0 23 f1" and "field_legal 1 31 f2" and "field_legal 1 12 f3" and "low \<le> 6"
  shows "Parse fmul (join (CHR '' '') [field_text f0, field_text f1, field_text f2, field_text f3, itoa_nat low @ ''-7''])
    = (if low = 0 then Inr \<lparr>minute = field_mask 0 59 f0, hour = field_mask 0 23 f1, dom = field_mask 1 31 f2, month = field_mask 1 12 f3,
          dow = field_mask 0 6 (Values [0]), domStar = (field_text f2 = ''*''), dowStar = False, every = 0\<rparr>
       else Inl (Inverted (itoa_nat low @ ''-7'') ''day of week''))"
proof -
  have "\<forall>c \<in> set (itoa_nat low @ ''-7''). \<not> is_space c"
    using itoa_nat_all_digits [of _ low] digit_not_space by (auto simp: is_space_def)
  moreover have "field_mask 0 6 (Values [0]) = 1" by code_simp
  moreover have "itoa_nat low @ ''-7'' \<noteq> ''*''" by simp
  ultimately show ?thesis
    using parse_fields_text [OF assms(1-4), of "itoa_nat low @ ''-7''"] parseField_to_seven [OF assms(5)] by simp
qed

theorem Parse_range_to_seven_witness:
  "Parse (\<lambda>_ _ _. 0) (join (CHR '' '') [field_text (Values [0]), field_text (Values [0]), field_text Star, field_text Star, itoa_nat 5 @ ''-7''])
    = Inl (Inverted (itoa_nat 5 @ ''-7'') ''day of week'')"
  using Parse_range_to_seven [of "Values [0]" "Values [0]" Star Star 5 "\<lambda>_ _ _. 0"]
  by (simp del: field_text.simps(2) join.simps)

text \<open>
  A step of 1 after a bare value is ignored: \<^verbatim>\<open>5/1\<close> in the minute field sets only bit 5, although
  \<^verbatim>\<open>5/2\<close> runs to the end of the range.
\<close>

theorem parseTerm_unit_step:
  "parseTerm ''5/1'' spec_minute = Inr (2 ^ 5)
    \<and> (case parseTerm ''5/2'' spec_minute of Inl _ \<Rightarrow> False | Inr m \<Rightarrow> bitSet m 59 \<and> \<not> bitSet m 58)"
  by code_simp

end
