(* ===== verification/Client.thy ===== *)
theory Client
  imports Memory_Delivery
begin

text \<open>
  The producer API, src/client.go. An option is the function on the job (or on the client) that the code
  applies. The broker is an argument: its Enqueue, as a function from the job to the error, the job it
  completed and the new broker state. \<open>mem_enqueue\<close> is the in-process broker in that role.
\<close>

definition DefaultQueue :: string where
  "DefaultQueue = ''default''"

record client =
  defaultQueue :: string
  defaultMaxAttempts :: int

definition WithDefaultQueue :: "string \<Rightarrow> client \<Rightarrow> client" where
  "WithDefaultQueue q c = c\<lparr>defaultQueue := q\<rparr>"

definition WithDefaultMaxAttempts :: "int \<Rightarrow> client \<Rightarrow> client" where
  "WithDefaultMaxAttempts n c = c\<lparr>defaultMaxAttempts := n\<rparr>"

definition NewClient :: "(client \<Rightarrow> client) list \<Rightarrow> client" where
  "NewClient opts = fold (\<lambda>opt c. opt c) opts \<lparr>defaultQueue = DefaultQueue, defaultMaxAttempts = DefaultMaxAttempts\<rparr>"

definition QueueOption :: "string \<Rightarrow> job \<Rightarrow> job" where
  "QueueOption name j = j\<lparr>Queue := name\<rparr>"

definition MaxAttemptsOption :: "int \<Rightarrow> job \<Rightarrow> job" where
  "MaxAttemptsOption n j = j\<lparr>MaxAttempts := n\<rparr>"

text \<open>\<open>now\<close> is what \<^verbatim>\<open>time.Now()\<close> returns on the producer.\<close>

definition Delay :: "time \<Rightarrow> duration \<Rightarrow> job \<Rightarrow> job" where
  "Delay now d j = j\<lparr>RunAt := now + d\<rparr>"

definition At :: "time \<Rightarrow> job \<Rightarrow> job" where
  "At t j = j\<lparr>RunAt := t\<rparr>"

definition Unique :: "string \<Rightarrow> duration \<Rightarrow> job \<Rightarrow> job" where
  "Unique key ttl j = j\<lparr>UniqueKey := key, UniqueTTL := ttl\<rparr>"

definition Client_Enqueue :: "(job \<Rightarrow> 'b \<Rightarrow> error option \<times> job \<times> 'b) \<Rightarrow> client \<Rightarrow> task option \<Rightarrow> (job \<Rightarrow> job) list
    \<Rightarrow> 'b \<Rightarrow> (error + job) \<times> 'b" where
  "Client_Enqueue enqueue c t opts b = (case t of
       None \<Rightarrow> (Inl (Wrap ErrInvalidTask ''nil task''), b)
     | Some t \<Rightarrow>
         (let j = fold (\<lambda>opt j. opt j) opts (zero_job\<lparr>Type := task_Type t, Payload := task_Payload t,
                    Queue := defaultQueue c, MaxAttempts := defaultMaxAttempts c\<rparr>)
          in case enqueue j b of
               (Some err, _, b') \<Rightarrow> (Inl err, b')
             | (None, j', b') \<Rightarrow> (Inr j', b')))"

definition EnqueueTask :: "(job \<Rightarrow> 'b \<Rightarrow> error option \<times> job \<times> 'b) \<Rightarrow> ('p \<Rightarrow> string + string) \<Rightarrow> client \<Rightarrow> string
    \<Rightarrow> 'p option \<Rightarrow> (job \<Rightarrow> job) list \<Rightarrow> 'b \<Rightarrow> (error + job) \<times> 'b" where
  "EnqueueTask enqueue marshal c taskType payload opts b = (case NewTask marshal taskType payload of
       Inl err \<Rightarrow> (Inl err, b)
     | Inr t \<Rightarrow> Client_Enqueue enqueue c (Some t) opts b)"

text \<open>Options that leave the ID, the type and the payload alone, as all options of the package do.\<close>

definition plain_options :: "(job \<Rightarrow> job) list \<Rightarrow> bool" where
  "plain_options opts \<longleftrightarrow> (\<forall>opt \<in> set opts. \<forall>j. ID (opt j) = ID j \<and> Type (opt j) = Type j \<and> Payload (opt j) = Payload j)"

lemma fold_plain_options:
  "plain_options opts \<Longrightarrow> ID (fold (\<lambda>opt j. opt j) opts j) = ID j \<and> Type (fold (\<lambda>opt j. opt j) opts j) = Type j \<and> Payload (fold (\<lambda>opt j. opt j) opts j) = Payload j"
  by (induction opts arbitrary: j) (auto simp: plain_options_def)

lemma client_options_plain:
  "plain_options [QueueOption q, MaxAttemptsOption n, Delay now d, At t, Unique k ttl]"
  by (simp add: plain_options_def QueueOption_def MaxAttemptsOption_def Delay_def At_def Unique_def)

section \<open>What a client relies on\<close>

text \<open>
  The contract of Enqueue: an accepted job gets the ID of \<^verbatim>\<open>NewID\<close> and a positive number of attempts, keeps its
  type and payload, and is stored, in the form \<open>kept\<close>, beside the jobs that were there.
\<close>

locale job_sink =
  fixes enqueue :: "job \<Rightarrow> 'b \<Rightarrow> error option \<times> job \<times> 'b" and jobs_of :: "'b \<Rightarrow> store" and ok :: "'b \<Rightarrow> bool"
    and fresh :: "'b \<Rightarrow> bool" and newID :: string and kept :: "job \<Rightarrow> 'b \<Rightarrow> job"
  assumes accepts: "ok b \<Longrightarrow> fresh b \<Longrightarrow> ID j = [] \<Longrightarrow> enqueue j b = (None, j', b') \<Longrightarrow>
    ok b' \<and> ID j' = newID \<and> Type j' = Type j \<and> Payload j' = Payload j \<and> 0 < MaxAttempts j'
    \<and> jobs_of b' = (jobs_of b)(newID \<mapsto> kept j' b)"
begin

lemma client_accepted:
  assumes "ok b" and "fresh b" and "plain_options opts" and "Client_Enqueue enqueue c (Some t) opts b = (Inr j, b')"
  shows "ok b' \<and> ID j = newID \<and> Type j = task_Type t \<and> Payload j = task_Payload t \<and> 0 < MaxAttempts j
    \<and> jobs_of b' = (jobs_of b)(newID \<mapsto> kept j b)"
proof -
  let ?j0 = "fold (\<lambda>opt j. opt j) opts (zero_job\<lparr>Type := task_Type t, Payload := task_Payload t,
                    Queue := defaultQueue c, MaxAttempts := defaultMaxAttempts c\<rparr>)"
  have enq: "enqueue ?j0 b = (None, j, b')"
    using assms(4) by (auto simp: Client_Enqueue_def Let_def split: prod.splits option.splits)
  have "ID ?j0 = [] \<and> Type ?j0 = task_Type t \<and> Payload ?j0 = task_Payload t"
    using fold_plain_options [OF assms(3)] by (simp add: zero_job_def)
  with accepts [OF assms(1,2) _ enq] show ?thesis by simp
qed

end

text \<open>The in-process broker as the client's broker.\<close>

definition mem_enqueue :: "string \<Rightarrow> time \<Rightarrow> job \<Rightarrow> broker \<Rightarrow> error option \<times> job \<times> broker" where
  "mem_enqueue newID now j b = (case Enqueue newID now (Some j) b of (e, jo, b') \<Rightarrow> (e, the jo, b'))"

lemma mem_enqueue_exec: "snd (snd (mem_enqueue newID now j b)) = exec (now, OpEnqueue newID j) b"
  by (simp add: mem_enqueue_def split: prod.splits)

lemma mem_enqueue_stored:
  assumes "mem_enqueue newID now j b = (None, j', b')"
  shows "j' = enqueue_defaults newID now j" and "b' = enqueue_store now j' b"
    and "jobs b' = (jobs b)(ID j' \<mapsto> j'\<lparr>Owner := [], State := (if now < RunAt j' then StateScheduled else StatePending)\<rparr>)"
proof -
  show j': "j' = enqueue_defaults newID now j" and b': "b' = enqueue_store now j' b"
    using assms by (auto simp: mem_enqueue_def Enqueue_def Let_def split: if_splits option.splits prod.splits)
  show "jobs b' = (jobs b)(ID j' \<mapsto> j'\<lparr>Owner := [], State := (if now < RunAt j' then StateScheduled else StatePending)\<rparr>)"
    unfolding b' by (cases j') (auto simp: enqueue_store_def Let_def)
qed

interpretation mem_sink: job_sink "mem_enqueue newID now" jobs reachable "\<lambda>b. jobs b newID = None" newID
  "\<lambda>j b. j\<lparr>Owner := [], State := (if now < RunAt j then StateScheduled else StatePending)\<rparr>" for newID now
proof
  fix b b' j j'
  assume re: "reachable b" and new: "jobs b newID = None" and ID: "ID j = []" and enq: "mem_enqueue newID now j b = (None, j', b')"
  note st = mem_enqueue_stored [OF enq]
  have "b' = exec (now, OpEnqueue newID j) b" using mem_enqueue_exec [of newID now j b] enq by simp
  moreover have "admissible (now, OpEnqueue newID j) b" using new ID by simp
  ultimately have "reachable b'" using reachable_exec [OF re] by (simp only:)
  with st ID show "reachable b' \<and> ID j' = newID \<and> Type j' = Type j \<and> Payload j' = Payload j \<and> 0 < MaxAttempts j'
      \<and> jobs b' = (jobs b)(newID \<mapsto> j'\<lparr>Owner := [], State := (if now < RunAt j' then StateScheduled else StatePending)\<rparr>)"
    by (simp add: enqueue_defaults_def Let_def DefaultMaxAttempts_def)
qed

text \<open>
  C35. A nil error of Client.Enqueue means that the job is in the queue: on a reachable in-process broker,
  with an ID from \<^verbatim>\<open>NewID\<close> that is not stored, the returned job has the task's type and payload and a
  positive number of attempts, and exactly this job is stored, once, pending or scheduled, in a broker
  that is again reachable (so that it can only leave by an acknowledgement or a purge).
\<close>

theorem Client_Enqueue_accepted:
  assumes "reachable b" and "jobs b newID = None" and "plain_options opts"
    and "Client_Enqueue (mem_enqueue newID now) c (Some t) opts b = (Inr j, b')"
  shows "reachable b' \<and> ID j = newID \<and> Type j = task_Type t \<and> Payload j = task_Payload t \<and> 0 < MaxAttempts j
    \<and> occurrences b' newID = 1
    \<and> jobs b' newID = Some (j\<lparr>Owner := [], State := (if now < RunAt j then StateScheduled else StatePending)\<rparr>)"
  using mem_sink.client_accepted [OF assms] occurrences_wf [of b' newID] by (auto intro: reachable_wf)

theorem Client_Enqueue_accepted_witness:
  "\<exists>j b'. Client_Enqueue (mem_enqueue ''n'' 12) (NewClient []) (Some \<lparr>task_Type = ''email'', task_Payload = None\<rparr>)
      [Delay 12 30] example = (Inr j, b')
    \<and> reachable b' \<and> Type j = ''email'' \<and> occurrences b' ''n'' = 1"
proof -
  let ?r = "Client_Enqueue (mem_enqueue ''n'' 12) (NewClient []) (Some \<lparr>task_Type = ''email'', task_Payload = None\<rparr>)
      [Delay 12 30] example"
  have "map_sum id ID (fst ?r) = Inr ''n''" by code_simp
  then obtain j b' where r: "?r = (Inr j, b')" by (cases ?r; cases "fst ?r") auto
  have "jobs example ''n'' = None" by code_simp
  from Client_Enqueue_accepted [OF example_reachable this _ r] r show ?thesis
    by (simp add: plain_options_def Delay_def)
qed

end
