(* ===== verification/Cron_Entry.thy ===== *)
theory Cron_Entry
  imports Cron_Parse Client
begin

text \<open>
  Recurring job definitions, src/cron.go: the entry, its compilation and the unique key of a tick.
\<close>

record CronEntry =
  ce_ID :: string
  ce_Spec :: string
  ce_Type :: string
  ce_Payload :: "string option"
  ce_Queue :: string
  ce_MaxAttempts :: int

record compiledEntry =
  entry :: CronEntry
  schedule :: Schedule

text \<open>\<open>compile\<close> reports which check failed, with the parser's error where it is that.\<close>

datatype compile_error = NoID | NoType string | BadSpec string cron_error

definition compile :: "(int \<Rightarrow> int \<Rightarrow> int \<Rightarrow> int) \<Rightarrow> CronEntry \<Rightarrow> compile_error + compiledEntry" where
  "compile fmul e =
     (if ce_ID e = [] then Inl NoID
      else if ce_Type e = [] then Inl (NoType (ce_ID e))
      else case Parse fmul (ce_Spec e) of
          Inl err \<Rightarrow> Inl (BadSpec (ce_ID e) err)
        | Inr sched \<Rightarrow>
            (let e1 = (if ce_Queue e = [] then e\<lparr>ce_Queue := DefaultQueue\<rparr> else e);
                 e2 = (if ce_MaxAttempts e1 \<le> 0 then e1\<lparr>ce_MaxAttempts := DefaultMaxAttempts\<rparr> else e1)
             in Inr \<lparr>entry = e2, schedule = sched\<rparr>))"

definition cronUniqueKey :: "string \<Rightarrow> time \<Rightarrow> string" where
  "cronUniqueKey i fireAt = ''cron:'' @ i @ '':'' @ itoa (UnixMilli fireAt)"

lemma append_sep_inj:
  assumes "a @ s # x = b @ s # y" and "s \<notin> set x" and "s \<notin> set y"
  shows "a = b \<and> x = y"
proof -
  have "rev x @ s # rev a = rev y @ s # rev b" using arg_cong [OF assms(1), of rev] by simp
  then have "takeWhile (\<lambda>c. c \<noteq> s) (rev x @ s # rev a) = takeWhile (\<lambda>c. c \<noteq> s) (rev y @ s # rev b)" by simp
  moreover have "takeWhile (\<lambda>c. c \<noteq> s) (rev x @ s # rev a) = rev x" "takeWhile (\<lambda>c. c \<noteq> s) (rev y @ s # rev b) = rev y"
    using assms(2,3) by (intro span_sep(1), auto)+
  ultimately have "x = y" by simp
  with assms(1) show ?thesis by simp
qed

text \<open>
  A unique key names one tick of one schedule: two keys are equal exactly when the entry IDs are equal
  (even when they contain colons) and the fire times are in the same millisecond.
\<close>

theorem cronUniqueKey_inj:
  "cronUniqueKey i t = cronUniqueKey k u \<longleftrightarrow> i = k \<and> UnixMilli t = UnixMilli u"
proof
  assume "cronUniqueKey i t = cronUniqueKey k u"
  then have "(''cron:'' @ i) @ CHR '':'' # itoa (UnixMilli t) = (''cron:'' @ k) @ CHR '':'' # itoa (UnixMilli u)"
    by (simp add: cronUniqueKey_def)
  from append_sep_inj [OF this itoa_no_colon itoa_no_colon] show "i = k \<and> UnixMilli t = UnixMilli u"
    by (auto dest: itoa_inj)
qed (simp add: cronUniqueKey_def)

lemma compile_wf:
  assumes "compile fmul e = Inr ce"
  shows "wf_schedule (schedule ce) \<and> ce_ID (entry ce) = ce_ID e \<and> ce_ID (entry ce) \<noteq> [] \<and> ce_Type (entry ce) \<noteq> []
    \<and> ce_Queue (entry ce) \<noteq> [] \<and> 0 < ce_MaxAttempts (entry ce)"
  using assms parse_wf [of fmul "ce_Spec e"]
  by (auto simp: compile_def Let_def DefaultQueue_def DefaultMaxAttempts_def split: if_splits sum.splits)

end
