(* ===== verification/Int64.thy ===== *)
theory Int64
  imports Prelude "HOL-Library.Signed_Division"
begin

text \<open>
  Go's 64-bit signed integers (\<^verbatim>\<open>int\<close>, \<^verbatim>\<open>int64\<close>, \<^verbatim>\<open>time.Duration\<close>) where the code depends on their width:
  words, compared as signed numbers, with wrapping addition and multiplication and truncating division.
  A pseudo-random source is the function from the bound to the number it delivers; math/rand/v2 panics
  on a bound that is not positive, which is the value \<open>None\<close>.
\<close>

type_synonym int64 = "64 word"

definition fits64 :: "int \<Rightarrow> bool" where
  "fits64 i \<longleftrightarrow> - (2 ^ 63) \<le> i \<and> i < 2 ^ 63"

definition div64 :: "int64 \<Rightarrow> int64 \<Rightarrow> int64" where
  "div64 a b = word_of_int (sint a sdiv sint b)"

text \<open>\<^verbatim>\<open>rand.Int64N(n)\<close> and \<^verbatim>\<open>rand.IntN(n)\<close>, with the number that the generator delivers for the bound \<open>n\<close>.\<close>

definition IntN :: "(int64 \<Rightarrow> int64) \<Rightarrow> int64 \<Rightarrow> int64 option" where
  "IntN draw n = (if n <=s 0 then None else Some (draw n))"

definition uniform_range :: "(int64 \<Rightarrow> int64) \<Rightarrow> bool" where
  "uniform_range draw \<longleftrightarrow> (\<forall>n. 0 <s n \<longrightarrow> 0 <=s draw n \<and> draw n <s n)"

lemma sint_fits [simp, intro]: "fits64 (sint (a :: int64))"
  using sint_ge [of a] sint_lt [of a] by (simp add: fits64_def)

lemma sint_of_int64: "fits64 i \<Longrightarrow> sint (word_of_int i :: int64) = i"
  by (simp add: fits64_def sint_sbintrunc' signed_take_bit_int_eq_self)

lemma sint_wrap: "sint (word_of_int i :: int64) = (i + 2 ^ 63) mod 2 ^ 64 - 2 ^ 63"
  by (simp add: sint_sbintrunc' signed_take_bit_eq_take_bit_shift take_bit_eq_mod)

lemma sint_add64: "fits64 (sint a + sint b) \<Longrightarrow> sint (a + b :: int64) = sint a + sint b"
  using sint_of_int64 [of "sint a + sint b"] by (simp add: of_int_add)

lemma sint_diff64: "fits64 (sint a - sint b) \<Longrightarrow> sint (a - b :: int64) = sint a - sint b"
  using sint_of_int64 [of "sint a - sint b"] by (simp add: of_int_diff)

lemma word_of_double: "(word_of_int (sint d * 2) :: int64) = d * 2"
  by (simp add: of_int_mult)

lemma sint_double64:
  assumes "0 < sint (d :: int64)"
  shows "sint (d * 2) = (if sint d * 2 < 2 ^ 63 then sint d * 2 else sint d * 2 - 2 ^ 64)"
proof (cases "sint d * 2 < 2 ^ 63")
  case True
  with assms have "fits64 (sint d * 2)" by (simp add: fits64_def)
  with True show ?thesis using sint_of_int64 [of "sint d * 2"] word_of_double [of d] by simp
next
  case False
  have "sint d < 2 ^ 63" using sint_fits [of d] by (simp add: fits64_def)
  with False have "(sint d * 2 + 2 ^ 63) mod 2 ^ 64 = sint d * 2 - 2 ^ 63"
    using mod_add_self2 [of "sint d * 2 - 2 ^ 63" "2 ^ 64 :: int"]
    by (simp add: mod_pos_pos_trivial algebra_simps)
  with False show ?thesis using sint_wrap [of "sint d * 2"] word_of_double [of d] by simp
qed

lemma sint_div64_pos:
  assumes "0 \<le> sint a" and "0 < sint b"
  shows "sint (div64 a b) = sint a div sint b"
proof -
  have "sint a div sint b \<le> sint a" using assms zdiv_mono2 [of "sint a" 1 "sint b"] by simp
  moreover have "0 \<le> sint a div sint b" using assms by (simp add: pos_imp_zdiv_nonneg_iff)
  ultimately have "fits64 (sint a div sint b)"
    using sint_fits [of a] unfolding fits64_def by linarith
  moreover have "sint a sdiv sint b = sint a div sint b"
    using assms by (simp add: signed_divide_int_def sgn_if zsgn_def)
  ultimately show ?thesis by (simp add: div64_def sint_of_int64)
qed

lemma IntN_pos: "uniform_range draw \<Longrightarrow> 0 < sint n \<Longrightarrow>
    \<exists>r. IntN draw n = Some r \<and> 0 \<le> sint r \<and> sint r < sint n"
  by (auto simp: IntN_def uniform_range_def word_sle_eq word_sless_alt)

end
