(* ===== verification/Backoff.thy ===== *)
theory Backoff
  imports Int64 Job
begin

text \<open>
  Retry backoff, src/backoff.go: the jitter functions and the saturating exponential delay, on 64-bit
  durations. Randomness is an explicit function; a panic of the random source is \<open>None\<close>.
\<close>

type_synonym randFunc = "int64 \<Rightarrow> int64 option"
type_synonym jitterFunc = "int64 \<Rightarrow> randFunc \<Rightarrow> int64 option"

definition DefaultBackoffBase :: int64 where
  "DefaultBackoffBase = 1000000000"

definition DefaultBackoffCap :: int64 where
  "DefaultBackoffCap = 600000000000"

definition JitterNone :: jitterFunc where
  "JitterNone d rnd = Some d"

definition JitterFull :: jitterFunc where
  "JitterFull d rnd = (if d <=s 0 then Some 0 else rnd d)"

definition JitterEqual :: jitterFunc where
  "JitterEqual d rnd =
     (if d <=s 0 then Some 0
      else let half = div64 d 2 in map_option (\<lambda>r. half + r) (rnd (d - half)))"

record Exponential =
  Base :: int64
  Cap :: int64
  Jitter :: "jitterFunc option"
  rnd :: "randFunc option"

text \<open>
  The loop \<^verbatim>\<open>for range attempt - 1\<close>; its first argument counts the passes that are left. Beside the delay it
  returns the number of passes that were begun, which the code does not count.
\<close>

fun backoff_loop :: "nat \<Rightarrow> int64 \<Rightarrow> int64 \<Rightarrow> int64 \<times> nat" where
  "backoff_loop 0 ceiling d = (d, 0)"
| "backoff_loop (Suc n) ceiling d =
     (if ceiling <=s d then (d, 1)
      else let next = d * 2 in if next <s d then (ceiling, 1) else apsnd Suc (backoff_loop n ceiling next))"

text \<open>\<open>draw\<close> is the global generator of math/rand/v2, used when no source is configured.\<close>

definition Exponential_Next :: "(int64 \<Rightarrow> int64) \<Rightarrow> Exponential \<Rightarrow> int64 \<Rightarrow> int64 option" where
  "Exponential_Next draw e attempt =
     (let base0 = (if Base e <=s 0 then DefaultBackoffBase else Base e);
          ceiling = (if Cap e <=s 0 then DefaultBackoffCap else Cap e);
          base = (if ceiling <s base0 then ceiling else base0);
          jitter = (case Jitter e of None \<Rightarrow> JitterFull | Some jf \<Rightarrow> jf);
          rnd = (case rnd e of None \<Rightarrow> IntN draw | Some r \<Rightarrow> r);
          attempt = (if attempt <s 1 then 1 else attempt);
          d = fst (backoff_loop (nat (sint (attempt - 1))) ceiling base);
          d = (if ceiling <s d then ceiling else d)
      in jitter d rnd)"

section \<open>The delay before jitter\<close>

lemma backoff_loop_saturates:
  assumes "0 < sint d" and "0 < sint c"
  shows "min (sint (fst (backoff_loop n c d))) (sint c) = min (sint d * 2 ^ n) (sint c)"
  using assms(1)
proof (induction n arbitrary: d)
  case (Suc n)
  have pow: "1 \<le> (2::int) ^ n" by simp
  consider (capped) "sint c \<le> sint d" | (over) "sint d < sint c" "\<not> sint d * 2 < 2 ^ 63"
    | (double) "sint d < sint c" "sint d * 2 < 2 ^ 63"
    by linarith
  then show ?case
  proof cases
    case capped
    have "sint d * 1 \<le> sint d * 2 ^ Suc n" using Suc.prems by (intro mult_left_mono one_le_power) simp_all
    with capped have "sint c \<le> sint d * 2 ^ Suc n" by linarith
    moreover have "fst (backoff_loop (Suc n) c d) = d" using capped by (simp add: word_sle_eq)
    ultimately show ?thesis using capped by (simp only: min_absorb2)
  next
    case over
    then have "d * 2 <s d" using Suc.prems sint_double64 [of d] sint_fits [of d]
      by (simp add: word_sless_alt fits64_def)
    moreover have "sint d * 2 \<le> sint d * 2 * 2 ^ n" using Suc.prems pow by simp
    then have "sint c \<le> sint d * 2 ^ Suc n" using over sint_fits [of c]
      unfolding fits64_def power_Suc mult.assoc by linarith
    ultimately show ?thesis using over by (simp add: word_sle_eq)
  next
    case double
    then have "sint (d * 2) = sint d * 2" using Suc.prems by (simp add: sint_double64)
    with double Suc.IH [of "d * 2"] Suc.prems show ?thesis
      by (simp add: word_sle_eq word_sless_alt Let_def mult.assoc)
  qed
qed simp

lemma backoff_loop_passes:
  "0 < sint d \<Longrightarrow> 2 ^ 63 \<le> sint d * 2 ^ k \<Longrightarrow> backoff_loop (k + n) c d = backoff_loop k c d \<and> snd (backoff_loop m c d) \<le> k"
proof (induction k arbitrary: d m)
  case 0
  then show ?case using sint_fits [of d] by (simp add: fits64_def)
next
  case (Suc k)
  show ?case
  proof (cases "sint d * 2 < 2 ^ 63")
    case True
    then have "sint (d * 2) = sint d * 2" using Suc.prems by (simp add: sint_double64)
    with Suc.IH [of "d * 2"] Suc.prems show ?thesis by (cases m) (simp_all add: Let_def mult.assoc)
  next
    case False
    then have "d * 2 <s d" using Suc.prems sint_double64 [of d] sint_fits [of d]
      by (simp add: word_sless_alt fits64_def)
    then show ?thesis by (cases m) (simp_all add: Let_def)
  qed
qed

text \<open>The delay that is jittered, as an unbounded integer: \<open>min (base * 2^(attempt - 1)) cap\<close>.\<close>

definition effective_base :: "Exponential \<Rightarrow> int" where
  "effective_base e = (if sint (Base e) \<le> 0 then Second else sint (Base e))"

definition effective_cap :: "Exponential \<Rightarrow> int" where
  "effective_cap e = (if sint (Cap e) \<le> 0 then 10 * Minute else sint (Cap e))"

definition plain_delay :: "Exponential \<Rightarrow> int64 \<Rightarrow> int" where
  "plain_delay e attempt = min (effective_base e * 2 ^ nat (sint attempt - 1)) (effective_cap e)"

lemma effective_pos: "0 < effective_base e" "0 < effective_cap e"
  by (auto simp: effective_base_def effective_cap_def)

lemma plain_delay_pos: "0 < plain_delay e attempt"
  using effective_pos by (simp add: plain_delay_def)

lemma plain_delay_fits: "fits64 (plain_delay e attempt)"
proof -
  have "effective_cap e < 2 ^ 63"
    using sint_fits [of "Cap e"] by (auto simp: effective_cap_def fits64_def)
  with plain_delay_pos [of e attempt] show ?thesis by (auto simp: plain_delay_def fits64_def)
qed

lemma min_capped_base: "1 \<le> p \<Longrightarrow> 0 < b \<Longrightarrow> min (min b c * p) c = min (b * p) (c :: int)"
  if "0 < c"
proof (cases "b \<le> c")
  case False
  assume "1 \<le> p" "0 < b"
  then have "c \<le> c * p" "b \<le> b * p" using that by simp_all
  with False show ?thesis by simp
qed simp

lemma Exponential_Next_eq:
  "Exponential_Next draw e attempt =
     (case Jitter e of None \<Rightarrow> JitterFull | Some jf \<Rightarrow> jf) (word_of_int (plain_delay e attempt))
       (case rnd e of None \<Rightarrow> IntN draw | Some r \<Rightarrow> r)"
proof -
  define base0 where "base0 = (if Base e <=s 0 then DefaultBackoffBase else Base e)"
  define c where "c = (if Cap e <=s 0 then DefaultBackoffCap else Cap e)"
  define b where "b = (if c <s base0 then c else base0)"
  define a where "a = (if attempt <s 1 then 1 else attempt)"
  define l where "l = fst (backoff_loop (nat (sint (a - 1))) c b)"
  have base0: "sint base0 = effective_base e" and c: "sint c = effective_cap e"
    by (auto simp: base0_def c_def effective_base_def effective_cap_def word_sle_eq
        DefaultBackoffBase_def DefaultBackoffCap_def)
  have b: "sint b = min (effective_base e) (effective_cap e)"
    by (simp add: b_def word_sless_alt base0 c)
  have "sint (a - 1) = max (sint attempt) 1 - 1"
    using sint_fits [of attempt] by (auto simp: a_def word_sless_alt fits64_def sint_diff64)
  then have a: "nat (sint (a - 1)) = nat (sint attempt - 1)" by simp
  have "min (sint l) (sint c) = min (sint b * 2 ^ nat (sint attempt - 1)) (sint c)"
    unfolding l_def a using effective_pos [of e] by (intro backoff_loop_saturates) (simp_all add: b c)
  also have "\<dots> = plain_delay e attempt"
    using effective_pos [of e] by (simp add: b c plain_delay_def min_capped_base)
  finally have "sint (if c <s l then c else l) = plain_delay e attempt"
    by (simp add: word_sless_alt min_def split: if_splits)
  then have "word_of_int (sint (if c <s l then c else l)) = (word_of_int (plain_delay e attempt) :: int64)"
    by (rule arg_cong)
  then have "(if c <s l then c else l) = word_of_int (plain_delay e attempt)"
    by (simp only: of_int_sint scast_id)
  then show ?thesis
    unfolding Exponential_Next_def Let_def base0_def [symmetric] c_def [symmetric] b_def [symmetric]
      a_def [symmetric] l_def [symmetric] by simp
qed

section \<open>Properties\<close>

text \<open>
  C28. The delay of Exponential is exact and never overflows: before jitter it is
  \<open>min (base * 2^(attempt - 1)) cap\<close> computed on unbounded integers, with the documented defaults, for
  every 64-bit base, cap and attempt.
\<close>

theorem Exponential_Next_no_jitter:
  assumes "Jitter e = Some JitterNone"
  shows "\<exists>d. Exponential_Next draw e attempt = Some d
    \<and> sint d = min (effective_base e * 2 ^ nat (sint attempt - 1)) (effective_cap e)"
  using assms plain_delay_fits [of e attempt]
  by (simp add: Exponential_Next_eq JitterNone_def sint_of_int64) (simp add: plain_delay_def)

theorem Exponential_Next_no_jitter_witness:
  "\<exists>d. Exponential_Next (\<lambda>_. 0) \<lparr>Base = 0, Cap = 0, Jitter = Some JitterNone, rnd = None\<rparr> 100 = Some d
    \<and> sint d = 600000000000"
  using Exponential_Next_no_jitter [of "\<lparr>Base = 0, Cap = 0, Jitter = Some JitterNone, rnd = None\<rparr>" "\<lambda>_. 0" 100]
  by (simp add: effective_base_def effective_cap_def)

lemma half_less: "0 < x \<Longrightarrow> x div 2 < (x :: int)"
  by presburger

text \<open>
  Jitter: with the default jitter and a random source that delivers numbers below its bound, Next does
  not panic and returns a delay in \<open>[0, d)\<close>; with JitterEqual it returns one in \<open>[d div 2, d)\<close>, where \<open>d\<close>
  is the capped exponential delay, which is positive.
\<close>

theorem Exponential_Next_jitter:
  assumes "uniform_range draw" and "rnd e = None"
    and "Jitter e \<in> {None, Some JitterFull, Some JitterEqual}"
  shows "\<exists>d. Exponential_Next draw e attempt = Some d \<and> sint d < plain_delay e attempt
    \<and> (if Jitter e = Some JitterEqual then plain_delay e attempt div 2 \<le> sint d else 0 \<le> sint d)"
proof -
  define w :: int64 where "w = word_of_int (plain_delay e attempt)"
  have w: "sint w = plain_delay e attempt" "0 < sint w"
    using plain_delay_fits plain_delay_pos by (simp_all add: w_def sint_of_int64)
  have h: "sint (div64 w 2) = sint w div 2" using w(2) by (subst sint_div64_pos) simp_all
  then have r: "sint (w - div64 w 2) = sint w - sint w div 2"
    using w(2) sint_fits [of w] by (intro trans [OF sint_diff64]) (auto simp: fits64_def)
  have full: "\<exists>d. JitterFull w (IntN draw) = Some d \<and> 0 \<le> sint d \<and> sint d < sint w"
    using IntN_pos [OF assms(1) w(2)] w(2) by (simp add: JitterFull_def word_sle_eq)
  from IntN_pos [OF assms(1), of "w - div64 w 2"] obtain q where
    q: "IntN draw (w - div64 w 2) = Some q" "0 \<le> sint q" "sint q < sint w - sint w div 2"
    using r half_less [OF w(2)] by auto
  then have "sint (div64 w 2 + q) = sint w div 2 + sint q"
    using h w(2) sint_fits [of w] by (intro trans [OF sint_add64]) (auto simp: fits64_def)
  with q w(2) have equal: "\<exists>d. JitterEqual w (IntN draw) = Some d \<and> sint w div 2 \<le> sint d \<and> sint d < sint w"
    by (simp add: JitterEqual_def word_sle_eq Let_def)
  have "Jitter e = Some JitterEqual \<or> Jitter e = None \<or> Jitter e = Some JitterFull \<and> JitterFull \<noteq> JitterEqual"
    using assms(3) by auto
  then show ?thesis
    using full equal assms(2) w by (auto simp: Exponential_Next_eq w_def [symmetric])
qed

theorem Exponential_Next_jitter_witness:
  "\<exists>d. Exponential_Next (\<lambda>_. 0) \<lparr>Base = 0, Cap = 0, Jitter = Some JitterEqual, rnd = None\<rparr> 3 = Some d
    \<and> 2000000000 \<le> sint d \<and> sint d < 4000000000"
proof -
  have "uniform_range (\<lambda>_. 0)" by (simp add: uniform_range_def)
  moreover have "plain_delay \<lparr>Base = 0, Cap = 0, Jitter = Some JitterEqual, rnd = None\<rparr> 3 = 4000000000"
    by (simp add: plain_delay_def effective_base_def effective_cap_def)
  ultimately show ?thesis
    using Exponential_Next_jitter
      [of "\<lambda>_. 0" "\<lparr>Base = 0, Cap = 0, Jitter = Some JitterEqual, rnd = None\<rparr>" 3]
    by auto
qed

text \<open>
  C29. The doubling loop exits early: with a positive base it begins at most 63 passes, however many are asked
  for, and beyond 63 the number asked for makes no difference to the delay either. So an attempt count of
  billions costs no more than one of 64.
\<close>

theorem backoff_loop_exits:
  assumes "0 < sint base"
  shows "snd (backoff_loop n ceiling base) \<le> 63 \<and> backoff_loop (63 + n) ceiling base = backoff_loop 63 ceiling base"
  using assms backoff_loop_passes [of base 63 n ceiling n] by auto

theorem backoff_loop_exits_witness:
  "snd (backoff_loop 1000000 (-1 + 2 ^ 63) 1) \<le> 63 \<and> backoff_loop (63 + 1000000) (-1 + 2 ^ 63) 1 = backoff_loop 63 (-1 + 2 ^ 63) 1"
  using backoff_loop_exits [of 1 1000000 "-1 + 2 ^ 63"] by simp

definition default_backoff :: Exponential where
  "default_backoff = \<lparr>Base = 0, Cap = 0, Jitter = Some JitterNone, rnd = None\<rparr>"

lemma default_total: "(\<Sum>n \<leftarrow> [1..<25]. min (1000000000 * 2 ^ (n - 1)) 600000000000) = (9423 * Second :: int)"
  by code_simp

text \<open>
  The default policy without jitter: a job with the default 25 attempts fails for the last time after
  24 delays that add up to 9423 seconds, two hours and 37 minutes (with full jitter it is less).
\<close>

theorem default_policy_total:
  "sum_list (map (\<lambda>n. sint (the (Exponential_Next draw default_backoff (word_of_nat n)))) [1..<nat DefaultMaxAttempts])
    = 9423 * Second"
proof -
  have "sint (the (Exponential_Next draw default_backoff (word_of_nat n))) = min (1000000000 * 2 ^ (n - 1)) 600000000000"
    if "n \<in> set [1..<25]" for n
  proof -
    have "sint (word_of_nat n :: int64) = int n" using that sint_of_int64 [of "int n"] by (simp add: fits64_def)
    moreover have "nat (int n - 1) = n - 1" by simp
    ultimately have "plain_delay default_backoff (word_of_nat n) = min (1000000000 * 2 ^ (n - 1)) 600000000000"
      by (simp only: plain_delay_def) (simp add: effective_base_def effective_cap_def default_backoff_def)
    with plain_delay_fits [of default_backoff "word_of_nat n"] show ?thesis
      by (simp add: Exponential_Next_eq sint_of_int64) (simp add: default_backoff_def JitterNone_def sint_of_int64)
  qed
  then have "map (\<lambda>n. sint (the (Exponential_Next draw default_backoff (word_of_nat n)))) [1..<25]
      = map (\<lambda>n. min (1000000000 * 2 ^ (n - 1)) 600000000000) [1..<25]"
    by (intro map_cong refl)
  moreover have "nat DefaultMaxAttempts = 25" by (simp add: DefaultMaxAttempts_def)
  ultimately show ?thesis by (simp only: default_total)
qed

end
