(* ===== verification/Queues.thy ===== *)
theory Queues
  imports Int64
begin

text \<open>
  The queue selector, src/queues.go: the order in which a poll tries the queues. Weights and their sum
  are 64-bit integers. Call number \<open>k\<close> of \<^verbatim>\<open>rand.IntN\<close> within one \<^verbatim>\<open>next\<close> delivers \<open>draws k n\<close> for the bound
  \<open>n\<close>; its panic on a bound that is not positive makes \<^verbatim>\<open>next\<close> return \<open>None\<close>. The slices \<^verbatim>\<open>order\<close> and
  \<^verbatim>\<open>pool\<close> are emptied at the start of \<^verbatim>\<open>next\<close> and are local to it here.
\<close>

record queueSelector =
  names :: "string list"
  weights :: "int64 list"
  total :: int64
  strict :: bool

definition configured_weight :: "(string \<rightharpoonup> int64) option \<Rightarrow> string \<Rightarrow> int64" where
  "configured_weight ws n = (case ws of None \<Rightarrow> 1
     | Some m \<Rightarrow> (case m n of None \<Rightarrow> 1 | Some w \<Rightarrow> w))"

definition newQueueSelector :: "string list \<Rightarrow> (string \<rightharpoonup> int64) option \<Rightarrow> bool \<Rightarrow> queueSelector" where
  "newQueueSelector ns ws st =
     \<lparr>names = ns, weights = map (configured_weight ws) ns,
      total = fold (\<lambda>n t. t + configured_weight ws n) ns 0, strict = st\<rparr>"

text \<open>The walk along the cumulative sum: \<open>k\<close> is the position in the pool, and the default pick is 0.\<close>

fun pick_from :: "int64 list \<Rightarrow> int64 \<Rightarrow> nat list \<Rightarrow> nat \<Rightarrow> int64 \<Rightarrow> nat" where
  "pick_from ws r [] k acc = 0"
| "pick_from ws r (idx # pool) k acc =
     (let acc' = acc + ws ! idx in if r <s acc' then k else pick_from ws r pool (k + 1) acc')"

lemma pick_from_less: "pick_from ws r pool k acc = 0 \<or> pick_from ws r pool k acc < k + length pool"
proof (induction pool arbitrary: k acc)
  case (Cons idx pool)
  then show ?case using Cons.IH [of "k + 1" "acc + ws ! idx"] by (auto simp: Let_def)
qed simp

function next_loop :: "(nat \<Rightarrow> int64 \<Rightarrow> int64) \<Rightarrow> queueSelector \<Rightarrow> nat \<Rightarrow> int64 \<Rightarrow> nat list \<Rightarrow> string list
    \<Rightarrow> string list option" where
  "next_loop draws s k remaining pool order =
     (if pool = [] then Some order
      else case IntN (draws k) remaining of
          None \<Rightarrow> None
        | Some r \<Rightarrow>
            (let pick = pick_from (weights s) r pool 0 0;
                 idx = pool ! pick
             in next_loop draws s (k + 1) (remaining - weights s ! idx)
                  (take pick pool @ drop (pick + 1) pool) (order @ [names s ! idx])))"
  by pat_completeness auto

termination
proof (relation "measure (\<lambda>(draws, s, k, remaining, pool, order). length pool)")
  fix draws :: "nat \<Rightarrow> int64 \<Rightarrow> int64" and s :: queueSelector and k remaining pool order r pick idx
  assume "pool \<noteq> ([] :: nat list)" "pick = pick_from (weights s) r pool 0 0"
  then have "pick < length pool" using pick_from_less [of "weights s" r pool 0 0] by auto
  then show "((draws, s, k + 1, remaining - weights s ! idx, take pick pool @ drop (pick + 1) pool,
      order @ [names s ! idx]), draws, s, k, remaining, pool, order)
      \<in> measure (\<lambda>(draws, s, k, remaining, pool, order). length pool)"
    by auto
qed simp

declare next_loop.simps [simp del]

definition selector_next :: "(nat \<Rightarrow> int64 \<Rightarrow> int64) \<Rightarrow> queueSelector \<Rightarrow> string list option" where
  "selector_next draws s =
     (if strict s \<or> length (names s) < 2 then Some (names s)
      else next_loop draws s 0 (total s) [0..<length (names s)] [])"

section \<open>Weights and sums\<close>

definition weight_sum :: "int64 list \<Rightarrow> nat list \<Rightarrow> int" where
  "weight_sum ws pool = sum_list (map (\<lambda>i. sint (ws ! i)) pool)"

definition positive_weights :: "int64 list \<Rightarrow> nat list \<Rightarrow> bool" where
  "positive_weights ws pool \<longleftrightarrow> (\<forall>i \<in> set pool. 1 \<le> sint (ws ! i))"

lemma weight_sum_simps [simp]:
  "weight_sum ws [] = 0" "weight_sum ws (i # pool) = sint (ws ! i) + weight_sum ws pool"
  "weight_sum ws (xs @ ys) = weight_sum ws xs + weight_sum ws ys"
  by (simp_all add: weight_sum_def)

lemma positive_weights_simps [simp]:
  "positive_weights ws []"
  "positive_weights ws (i # pool) \<longleftrightarrow> 1 \<le> sint (ws ! i) \<and> positive_weights ws pool"
  "positive_weights ws (xs @ ys) \<longleftrightarrow> positive_weights ws xs \<and> positive_weights ws ys"
  by (auto simp: positive_weights_def)

lemma weight_sum_ge: "positive_weights ws pool \<Longrightarrow> int (length pool) \<le> weight_sum ws pool"
  by (induction pool) auto

text \<open>The walk finds the position whose interval of the cumulative sum holds the draw.\<close>

lemma pick_from_interval:
  assumes "positive_weights ws pool" and "sint acc \<le> sint r" and "sint r < sint acc + weight_sum ws pool"
    and "0 \<le> sint acc" and "fits64 (sint acc + weight_sum ws pool)"
  shows "\<exists>p < length pool. pick_from ws r pool k acc = k + p
    \<and> sint acc + weight_sum ws (take p pool) \<le> sint r \<and> sint r < sint acc + weight_sum ws (take (Suc p) pool)"
  using assms
proof (induction pool arbitrary: k acc)
  case (Cons i pool)
  have "0 \<le> weight_sum ws pool" using weight_sum_ge [of ws pool] Cons.prems(1) by simp
  then have acc: "sint (acc + ws ! i) = sint acc + sint (ws ! i)"
    using Cons.prems by (intro sint_add64) (auto simp: fits64_def)
  show ?case
  proof (cases "r <s acc + ws ! i")
    case True
    then have "sint r < sint acc + sint (ws ! i)" by (simp add: word_sless_alt acc)
    with True Cons.prems(2) show ?thesis by (intro exI [of _ 0]) (simp add: Let_def)
  next
    case False
    have "\<exists>p < length pool. pick_from ws r pool (k + 1) (acc + ws ! i) = k + 1 + p
      \<and> sint (acc + ws ! i) + weight_sum ws (take p pool) \<le> sint r
      \<and> sint r < sint (acc + ws ! i) + weight_sum ws (take (Suc p) pool)"
      using Cons.prems False by (intro Cons.IH) (auto simp: acc word_sless_alt add.assoc)
    then obtain p where p: "p < length pool" "pick_from ws r pool (k + 1) (acc + ws ! i) = k + 1 + p"
      "sint acc + sint (ws ! i) + weight_sum ws (take p pool) \<le> sint r"
      "sint r < sint acc + sint (ws ! i) + weight_sum ws (take (Suc p) pool)"
      by (auto simp: acc)
    then show ?thesis using False by (intro exI [of _ "Suc p"]) (simp add: Let_def)
  qed
qed simp

lemma weight_sum_remove:
  "p < length pool \<Longrightarrow> weight_sum ws (take p pool @ drop (p + 1) pool) = weight_sum ws pool - sint (ws ! (pool ! p))"
  using arg_cong [OF id_take_nth_drop [of p pool], of "weight_sum ws"] by simp

lemma positive_weights_remove:
  "positive_weights ws pool \<Longrightarrow> positive_weights ws (take p pool @ drop (p + 1) pool)"
  unfolding positive_weights_def by (auto dest: in_set_takeD in_set_dropD)

lemma mset_remove:
  "p < length pool \<Longrightarrow> mset pool = add_mset (pool ! p) (mset (take p pool @ drop (p + 1) pool))"
  using arg_cong [OF id_take_nth_drop [of p pool], of mset] by simp

lemma next_loop_permutation:
  assumes "\<And>k. uniform_range (draws k)" and "positive_weights (weights s) pool"
    and "sint remaining = weight_sum (weights s) pool"
  shows "\<exists>rest. next_loop draws s k remaining pool order = Some (order @ rest)
    \<and> mset rest = image_mset (\<lambda>i. names s ! i) (mset pool)"
  using assms(2,3)
proof (induction "length pool" arbitrary: k remaining pool order)
  case 0
  then show ?case by (simp add: next_loop.simps)
next
  case (Suc n)
  let ?ws = "weights s"
  have ne: "pool \<noteq> []" using Suc.hyps(2) by auto
  have pos: "0 < sint remaining" using weight_sum_ge [OF Suc.prems(1)] Suc.prems(2) Suc.hyps(2) by simp
  from IntN_pos [OF assms(1) pos] obtain r where
    r: "IntN (draws k) remaining = Some r" "0 \<le> sint r" "sint r < weight_sum ?ws pool"
    using Suc.prems(2) by auto
  have "fits64 (weight_sum ?ws pool)" using sint_fits [of remaining] Suc.prems(2) by simp
  with pick_from_interval [OF Suc.prems(1), of 0 r 0] r obtain p where
    p: "p < length pool" "pick_from ?ws r pool 0 0 = p" by auto
  let ?pool = "take p pool @ drop (p + 1) pool"
  have rem: "sint (remaining - ?ws ! (pool ! p)) = weight_sum ?ws ?pool"
  proof -
    have "0 \<le> weight_sum ?ws ?pool"
      using weight_sum_ge [OF positive_weights_remove [OF Suc.prems(1), of p]] by linarith
    moreover have "0 \<le> sint (?ws ! (pool ! p))"
      using Suc.prems(1) nth_mem [OF p(1)] by (auto simp: positive_weights_def)
    ultimately have "fits64 (sint remaining - sint (?ws ! (pool ! p)))"
      using sint_fits [of remaining] Suc.prems(2) weight_sum_remove [OF p(1), of ?ws]
      unfolding fits64_def by linarith
    then show ?thesis using Suc.prems(2) weight_sum_remove [OF p(1), of ?ws] by (simp only: sint_diff64)
  qed
  have "n = length ?pool" using Suc.hyps(2) p(1) by simp
  from Suc.hyps(1) [OF this positive_weights_remove [OF Suc.prems(1)] rem, of "k + 1" "order @ [names s ! (pool ! p)]"]
  obtain rest where rest: "next_loop draws s (k + 1) (remaining - ?ws ! (pool ! p)) ?pool (order @ [names s ! (pool ! p)])
      = Some ((order @ [names s ! (pool ! p)]) @ rest)" "mset rest = image_mset (\<lambda>i. names s ! i) (mset ?pool)"
    by blast
  have "next_loop draws s k remaining pool order = Some (order @ (names s ! (pool ! p) # rest))"
    using ne r(1) p(2) rest(1) by (simp add: next_loop.simps [of draws s k] Let_def)
  moreover have "mset (names s ! (pool ! p) # rest) = image_mset (\<lambda>i. names s ! i) (mset pool)"
    unfolding mset_remove [OF p(1)] using rest(2) by simp
  ultimately show ?case by blast
qed

section \<open>The selector of a configuration\<close>

text \<open>What NewServer guarantees of the weights, and that their sum does not overflow.\<close>

definition sane_weights :: "string list \<Rightarrow> (string \<rightharpoonup> int64) option \<Rightarrow> bool" where
  "sane_weights ns ws \<longleftrightarrow> (\<forall>n \<in> set ns. 1 \<le> sint (configured_weight ws n))
     \<and> sum_list (map (\<lambda>n. sint (configured_weight ws n)) ns) < 2 ^ 63"

lemma total_sum:
  assumes "sane_weights ns ws"
  shows "sint (total (newQueueSelector ns ws st)) = sum_list (map (\<lambda>n. sint (configured_weight ws n)) ns)"
proof -
  have "sint (fold (\<lambda>n t. t + configured_weight ws n) ns a) = sint a + sum_list (map (\<lambda>n. sint (configured_weight ws n)) ns)"
    if "0 \<le> sint a" "sint a + sum_list (map (\<lambda>n. sint (configured_weight ws n)) ns) < 2 ^ 63"
      "\<forall>n \<in> set ns. 1 \<le> sint (configured_weight ws n)" for a
    using that
  proof (induction ns arbitrary: a)
    case (Cons n ns)
    have "0 \<le> sum_list (map (\<lambda>n. sint (configured_weight ws n)) ns)"
      using Cons.prems(3) by (intro sum_list_nonneg) force
    then have "sint (a + configured_weight ws n) = sint a + sint (configured_weight ws n)"
      using Cons.prems by (intro sint_add64) (auto simp: fits64_def)
    then show ?case using Cons.prems Cons.IH [of "a + configured_weight ws n"] by simp
  qed simp
  from this [of 0] assms show ?thesis by (simp add: newQueueSelector_def sane_weights_def)
qed

lemma weight_sum_selector:
  "weight_sum (weights (newQueueSelector ns ws st)) [0..<n]
     = sum_list (map (\<lambda>n. sint (configured_weight ws n)) (take n ns))" if "n \<le> length ns"
  using that
  by (auto simp: weight_sum_def newQueueSelector_def list_eq_iff_nth_eq intro!: arg_cong [of _ _ sum_list])

lemma positive_weights_selector:
  "sane_weights ns ws \<Longrightarrow> positive_weights (weights (newQueueSelector ns ws st)) [0..<length ns]"
  by (auto simp: positive_weights_def newQueueSelector_def sane_weights_def)

lemma next_total:
  assumes "sane_weights ns ws" and "\<And>k. uniform_range (draws k)"
  shows "\<exists>order. selector_next draws (newQueueSelector ns ws st) = Some order \<and> mset order = mset ns
    \<and> (st \<longrightarrow> order = ns)"
proof (cases "st \<or> length ns < 2")
  case True
  then show ?thesis by (auto simp: selector_next_def newQueueSelector_def)
next
  case False
  let ?s = "newQueueSelector ns ws st"
  have "sint (total ?s) = weight_sum (weights ?s) [0..<length ns]"
    using total_sum [OF assms(1)] weight_sum_selector [of "length ns" ns ws st] by simp
  from next_loop_permutation [where draws = draws and k = 0 and order = "[]",
      OF assms(2) positive_weights_selector [OF assms(1)] this]
  obtain rest where "next_loop draws ?s 0 (total ?s) [0..<length ns] [] = Some rest"
    "mset rest = image_mset (\<lambda>i. names ?s ! i) (mset [0..<length ns])" by auto
  moreover have "image_mset (\<lambda>i. names ?s ! i) (mset [0..<length ns]) = mset ns"
    unfolding mset_map [symmetric] by (simp add: newQueueSelector_def map_nth del: mset_map)
  ultimately show ?thesis using False by (simp add: selector_next_def newQueueSelector_def)
qed

lemma total_wraps: "total (newQueueSelector ns ws st) = word_of_int (sum_list (map (\<lambda>n. sint (configured_weight ws n)) ns))"
proof -
  have "fold (\<lambda>n t. t + configured_weight ws n) ns a = a + word_of_int (sum_list (map (\<lambda>n. sint (configured_weight ws n)) ns))" for a
    by (induction ns arbitrary: a) (simp_all add: of_int_add)
  then show ?thesis by (simp add: newQueueSelector_def)
qed

lemma next_overflow:
  assumes "2 ^ 63 \<le> sum_list (map (\<lambda>n. sint (configured_weight ws n)) ns)" and "sum_list (map (\<lambda>n. sint (configured_weight ws n)) ns) < 2 ^ 64"
    and "2 \<le> length ns"
  shows "selector_next draws (newQueueSelector ns ws False) = None"
proof -
  let ?s = "newQueueSelector ns ws False" and ?n = "sum_list (map (\<lambda>n. sint (configured_weight ws n)) ns)"
  have "(?n + 2 ^ 63) mod 2 ^ 64 = ?n - 2 ^ 63"
    using assms(1,2) mod_add_self2 [of "?n - 2 ^ 63" "2 ^ 64 :: int"] by (simp add: mod_pos_pos_trivial algebra_simps)
  then have "sint (total ?s) = ?n - 2 ^ 64" using sint_wrap [of ?n] by (simp add: total_wraps)
  then have "IntN (draws 0) (total ?s) = None" using assms(2) by (simp add: IntN_def word_sle_eq)
  moreover have "names ?s = ns" "\<not> strict ?s" by (simp_all add: newQueueSelector_def)
  ultimately show ?thesis using assms(3) by (auto simp: selector_next_def next_loop.simps [of _ _ 0])
qed

text \<open>
  C30. What a poll does with weights of at least 1, which is all that \<^verbatim>\<open>NewServer\<close> checks, whatever the generator
  delivers within its bounds. If the sum of the weights is below \<open>2^63\<close>, \<^verbatim>\<open>next\<close> does not panic and returns a
  permutation of the configured queues, so that every queue is tried exactly once; in strict mode it is the
  configured order. If the sum is at least \<open>2^63\<close> and below \<open>2^64\<close>, two or more queues are configured and the
  mode is not strict, the total is negative and \<^verbatim>\<open>next\<close> panics.
\<close>

theorem selector_next_permutation:
  assumes "\<forall>n \<in> set ns. 1 \<le> sint (configured_weight ws n)" and "\<And>k. uniform_range (draws k)"
  defines "weight \<equiv> sum_list (map (\<lambda>n. sint (configured_weight ws n)) ns)"
  shows "(weight < 2 ^ 63 \<longrightarrow> (\<exists>order. selector_next draws (newQueueSelector ns ws st) = Some order \<and> mset order = mset ns \<and> (st \<longrightarrow> order = ns)))
    \<and> (2 ^ 63 \<le> weight \<and> weight < 2 ^ 64 \<and> 2 \<le> length ns \<longrightarrow> selector_next draws (newQueueSelector ns ws False) = None)"
  using next_total [of ns ws draws st] next_overflow [of ws ns draws] assms by (simp add: sane_weights_def)

definition example_weights :: "string \<rightharpoonup> int64" where
  "example_weights = [''high'' \<mapsto> 6, ''mid'' \<mapsto> 3]"

theorem selector_next_permutation_witness:
  "(\<exists>order. selector_next (\<lambda>_ _. 0) (newQueueSelector [''high'', ''mid'', ''low''] (Some example_weights) False) = Some order
      \<and> mset order = mset [''high'', ''mid'', ''low''])
    \<and> selector_next (\<lambda>_ _. 0) (newQueueSelector [''a'', ''b''] (Some (\<lambda>_. Some (2 ^ 62))) False) = None"
proof -
  have "sint (2 ^ 62 :: int64) = 2 ^ 62" by code_simp
  then show ?thesis
    using selector_next_permutation [of "[''high'', ''mid'', ''low'']" "Some example_weights" "\<lambda>_ _. 0" False]
      selector_next_permutation [of "[''a'', ''b'']" "Some (\<lambda>_. Some (2 ^ 62))" "\<lambda>_ _. 0" False]
    by (simp add: configured_weight_def example_weights_def uniform_range_def)
qed

lemma next_loop_head:
  assumes "next_loop draws s k remaining pool order = Some out" and "order \<noteq> []"
  shows "hd out = hd order"
  using assms
proof (induction draws s k remaining pool order rule: next_loop.induct)
  case (1 draws s k remaining pool order)
  then show ?case
    using next_loop.simps [of draws s k remaining pool order]
    by (auto simp: Let_def split: if_splits option.splits)
qed

lemma first_pick:
  assumes "sane_weights ns ws" and "\<And>k. uniform_range (draws k)" and "\<not> st" and "2 \<le> length ns"
    and "selector_next draws (newQueueSelector ns ws st) = Some order"
  shows "\<exists>p < length ns. hd order = ns ! p
    \<and> sum_list (map (\<lambda>n. sint (configured_weight ws n)) (take p ns)) \<le> sint (draws 0 (total (newQueueSelector ns ws st)))
    \<and> sint (draws 0 (total (newQueueSelector ns ws st))) < sum_list (map (\<lambda>n. sint (configured_weight ws n)) (take (Suc p) ns))"
proof -
  let ?s = "newQueueSelector ns ws st"
  let ?r = "draws 0 (total ?s)"
  have sum: "sint (total ?s) = weight_sum (weights ?s) [0..<length ns]"
    using total_sum [OF assms(1)] weight_sum_selector [of "length ns" ns ws st] by simp
  have pos: "0 < sint (total ?s)"
    using weight_sum_ge [OF positive_weights_selector [OF assms(1), of st]] assms(4) sum by simp
  have r: "IntN (draws 0) (total ?s) = Some ?r" "0 \<le> sint ?r" "sint ?r < sint (total ?s)"
    using IntN_pos [OF assms(2) [of 0] pos] by (auto simp: IntN_def split: if_splits)
  have "fits64 (weight_sum (weights ?s) [0..<length ns])" using sint_fits [of "total ?s"] sum by simp
  with pick_from_interval [OF positive_weights_selector [OF assms(1)], of 0 ?r st 0] r sum
  obtain p where p: "p < length ns" "pick_from (weights ?s) ?r [0..<length ns] 0 0 = p"
    "weight_sum (weights ?s) [0..<p] \<le> sint ?r" "sint ?r < weight_sum (weights ?s) [0..<Suc p]"
    by (auto simp del: upt_Suc simp: take_upt)
  have "\<exists>rem pool. next_loop draws ?s 1 rem pool [names ?s ! ([0..<length ns] ! p)] = Some order"
    using assms(3-5) r(1) p(2)
    by (auto simp: selector_next_def newQueueSelector_def next_loop.simps [of draws _ 0] Let_def split: if_splits)
  then have "hd order = ns ! p" using next_loop_head p(1) by (fastforce simp: newQueueSelector_def)
  with p weight_sum_selector [of p ns ws st] weight_sum_selector [of "Suc p" ns ws st] show ?thesis by auto
qed

text \<open>The generator whose first number, for the bound \<open>n\<close>, is \<open>r\<close>.\<close>

definition first_draw :: "int64 \<Rightarrow> int \<Rightarrow> (nat \<Rightarrow> int64 \<Rightarrow> int64) \<Rightarrow> nat \<Rightarrow> int64 \<Rightarrow> int64" where
  "first_draw n r draws = draws(0 := (\<lambda>m. if m = n then word_of_int r else 0))"

lemma uniform_first_draw:
  assumes "\<And>k. uniform_range (draws k)" and "0 \<le> r" and "r < sint n"
  shows "uniform_range (first_draw n r draws k)"
proof -
  have "fits64 r" using assms(2,3) sint_fits [of n] by (simp add: fits64_def)
  then show ?thesis
    using assms by (simp add: first_draw_def uniform_range_def word_sle_eq word_sless_alt sint_of_int64)
qed

abbreviation prefix_weight :: "(string \<rightharpoonup> int64) option \<Rightarrow> string list \<Rightarrow> nat \<Rightarrow> int" where
  "prefix_weight ws ns p \<equiv> sum_list (map (\<lambda>n. sint (configured_weight ws n)) (take p ns))"

lemma prefix_weight_mono:
  assumes "sane_weights ns ws" and "p \<le> q"
  shows "prefix_weight ws ns p \<le> prefix_weight ws ns q"
proof -
  have "take q ns = take p ns @ take (q - p) (drop p ns)" using assms(2) by (metis le_add_diff_inverse take_add)
  moreover have "0 \<le> sum_list (map (\<lambda>n. sint (configured_weight ws n)) (take (q - p) (drop p ns)))"
    using assms(1) by (intro sum_list_nonneg) (force simp: sane_weights_def dest!: in_set_takeD in_set_dropD)
  ultimately show ?thesis by simp
qed

lemma first_pick_iff:
  assumes "sane_weights ns ws" and "\<And>k. uniform_range (draws k)" and "\<not> st" and "2 \<le> length ns" and "distinct ns"
    and "i < length ns" and "0 \<le> r" and "r < sint (total (newQueueSelector ns ws st))"
  shows "hd (the (selector_next (first_draw (total (newQueueSelector ns ws st)) r draws) (newQueueSelector ns ws st))) = ns ! i
    \<longleftrightarrow> prefix_weight ws ns i \<le> r \<and> r < prefix_weight ws ns (Suc i)"
proof -
  let ?s = "newQueueSelector ns ws st"
  let ?d = "first_draw (total ?s) r draws"
  have u: "uniform_range (?d k)" for k using assms(2,7,8) by (rule uniform_first_draw)
  have "fits64 r" using assms(7,8) sint_fits [of "total ?s"] by (simp add: fits64_def)
  then have d: "sint (?d 0 (total ?s)) = r" by (simp add: first_draw_def sint_of_int64)
  obtain order where o: "selector_next ?d ?s = Some order"
    using next_total [where draws = ?d, OF assms(1) u] by blast
  from first_pick [where draws = ?d, OF assms(1) u assms(3,4) o] obtain p where
    p: "p < length ns" "hd order = ns ! p" "prefix_weight ws ns p \<le> r" "r < prefix_weight ws ns (Suc p)"
    unfolding d by blast
  have "p = i" if "prefix_weight ws ns i \<le> r" "r < prefix_weight ws ns (Suc i)"
    using prefix_weight_mono [OF assms(1), of "Suc p" i] prefix_weight_mono [OF assms(1), of "Suc i" p] that p(3,4)
    by linarith
  then show ?thesis using o p nth_eq_iff_index_eq [OF assms(5) p(1) assms(6)] by auto
qed

text \<open>
  C31. Priorities are proportional: with distinct queues and weights of at least 1 whose sum fits, exactly
  \<open>w\<close> of the equally likely first draws put a queue of weight \<open>w\<close> first, so a queue weighted 6 out of 10
  is tried first 60 percent of the time.
\<close>

theorem first_queue_share:
  assumes "sane_weights ns ws" and "\<And>k. uniform_range (draws k)" and "2 \<le> length ns" and "distinct ns"
    and "i < length ns"
  shows "card {r. 0 \<le> r \<and> r < sint (total (newQueueSelector ns ws False))
      \<and> hd (the (selector_next (first_draw (total (newQueueSelector ns ws False)) r draws) (newQueueSelector ns ws False)))
          = ns ! i} = nat (sint (configured_weight ws (ns ! i)))" (is "card ?R = _")
proof -
  have "prefix_weight ws ns 0 \<le> prefix_weight ws ns i" "prefix_weight ws ns (Suc i) \<le> prefix_weight ws ns (length ns)"
    using assms(5) by (intro prefix_weight_mono [OF assms(1)]; simp)+
  then have "?R = {prefix_weight ws ns i ..< prefix_weight ws ns (Suc i)}"
    using first_pick_iff [where draws = draws and st = False, OF assms(1,2) _ assms(3,4,5)] total_sum [OF assms(1), of False] by auto
  moreover have "prefix_weight ws ns (Suc i) = prefix_weight ws ns i + sint (configured_weight ws (ns ! i))"
    using assms(5) by (simp add: take_Suc_conv_app_nth)
  ultimately show ?thesis by simp
qed

theorem first_queue_share_witness:
  "card {r. 0 \<le> r \<and> r < (10 :: int) \<and> hd (the (selector_next (first_draw 10 r (\<lambda>_ _. 0))
      (newQueueSelector [''high'', ''mid'', ''low''] (Some example_weights) False))) = ''high''} = 6"
proof -
  have "total (newQueueSelector [''high'', ''mid'', ''low''] (Some example_weights) False) = 10" by code_simp
  then show ?thesis
    using first_queue_share [of "[''high'', ''mid'', ''low'']" "Some example_weights" "\<lambda>_ _. 0" 0]
    by (simp add: sane_weights_def configured_weight_def example_weights_def uniform_range_def)
qed

end
