(* ===== verification/Handler.thy ===== *)
theory Handler
  imports Job Go_Strings
begin

text \<open>
  Handlers and their registry, src/handler.go. What a handler does with a job is the user's code: \<open>act\<close>
  says how a run of it ends. It returns nil, or an error (the error value and its text), or it panics.
  The registry is an association list because \<^verbatim>\<open>Types\<close> ranges over the map.
\<close>

datatype outcome = Returned "(error \<times> string) option" | Panicked string

type_synonym 'h mux = "(string \<times> 'h) list"

definition NewMux :: "'h mux" where
  "NewMux = []"

text \<open>\<open>Handle\<close> panics with a text or returns the extended registry; a nil handler is \<open>None\<close>.\<close>

definition Handle :: "string \<Rightarrow> 'h option \<Rightarrow> 'h mux \<Rightarrow> string + 'h mux" where
  "Handle taskType h m =
     (if taskType = [] then Inl ''taskq: Handle called with an empty task type''
      else case h of
          None \<Rightarrow> Inl (''taskq: Handle called with a nil handler for type '' @ taskType)
        | Some h' \<Rightarrow>
            (case map_of m taskType of
               Some _ \<Rightarrow> Inl (''taskq: duplicate handler registration for task type '' @ taskType)
             | None \<Rightarrow> Inr (AList.update taskType h' m)))"

definition HandleFunc :: "('f \<Rightarrow> 'h) \<Rightarrow> string \<Rightarrow> 'f \<Rightarrow> 'h mux \<Rightarrow> string + 'h mux" where
  "HandleFunc HandlerFunc taskType f m = Handle taskType (Some (HandlerFunc f)) m"

definition Mux_ProcessTask :: "('h \<Rightarrow> job \<Rightarrow> outcome) \<Rightarrow> 'h mux \<Rightarrow> job \<Rightarrow> outcome" where
  "Mux_ProcessTask act m j = (case map_of m (Type j) of
       None \<Rightarrow> Returned (Some (Wrap ErrNoHandler (Type j),
         ''taskq: no handler registered for task type '' @ go_quote (Type j)))
     | Some h \<Rightarrow> act h j)"

definition Types :: "'h mux \<Rightarrow> string list" where
  "Types m = map fst m"

text \<open>A sequence of registrations at startup; the first panic ends it.\<close>

fun register_all :: "(string \<times> 'h option) list \<Rightarrow> 'h mux \<Rightarrow> string + 'h mux" where
  "register_all [] m = Inr m"
| "register_all ((t, h) # regs) m = (case Handle t h m of Inl p \<Rightarrow> Inl p | Inr m' \<Rightarrow> register_all regs m')"

lemma register_all_Inr:
  "register_all regs m = Inr m' \<Longrightarrow> distinct (map fst m) \<Longrightarrow>
     distinct (map fst regs) \<and> [] \<notin> fst ` set regs \<and> fst ` set regs \<inter> fst ` set m = {} \<and> distinct (map fst m')
     \<and> map_of m' t = (case map_of regs t of None \<Rightarrow> map_of m t | Some h \<Rightarrow> h)
     \<and> (\<forall>h \<in> snd ` set regs. h \<noteq> None)"
proof (induction regs arbitrary: m)
  case (Cons r regs)
  obtain k h where r: "r = (k, h)" by (cases r)
  from Cons.prems(1) r obtain h' where h': "h = Some h'" "k \<noteq> []" "map_of m k = None"
      "register_all regs (AList.update k h' m) = Inr m'"
    by (auto simp: Handle_def split: if_splits option.splits)
  from Cons.IH [OF h'(4)] Cons.prems(2) have IH: "distinct (map fst regs) \<and> [] \<notin> fst ` set regs
     \<and> fst ` set regs \<inter> fst ` set (AList.update k h' m) = {} \<and> distinct (map fst m')
     \<and> map_of m' t = (case map_of regs t of None \<Rightarrow> map_of (AList.update k h' m) t | Some h \<Rightarrow> h)
     \<and> (\<forall>h \<in> snd ` set regs. h \<noteq> None)" by simp
  have keys: "fst ` set (AList.update k h' m) = insert k (fst ` set m)" by (simp add: dom_update)
  then have nk: "k \<notin> fst ` set regs" using IH by auto
  then have kn: "map_of regs k = None" by (simp add: map_of_eq_None_iff)
  have km: "k \<notin> fst ` set m" using h'(3) by (simp add: map_of_eq_None_iff)
  have "map_of m' t = (case map_of (r # regs) t of None \<Rightarrow> map_of m t | Some h \<Rightarrow> h)"
    using IH r h'(1) kn by (cases "map_of regs t") auto
  with IH r h' keys nk km show ?case by auto
qed simp

text \<open>
  Dispatch is exact: when the registrations at startup have not panicked, no type was registered twice,
  every job is passed to the handler registered for exactly its type, a job of any other type gets
  ErrNoHandler (so that it is retried), and \<^verbatim>\<open>Types\<close> lists each registered type once.
\<close>

theorem Mux_dispatch:
  assumes "register_all regs NewMux = Inr m"
  shows "Mux_ProcessTask act m j = (case map_of regs (Type j) of
      Some (Some h) \<Rightarrow> act h j
    | _ \<Rightarrow> Returned (Some (Wrap ErrNoHandler (Type j), ''taskq: no handler registered for task type '' @ go_quote (Type j))))
    \<and> distinct (map fst regs) \<and> mset (Types m) = mset (map fst regs)"
proof -
  have all: "distinct (map fst regs) \<and> distinct (map fst m)
     \<and> map_of m t = (case map_of regs t of None \<Rightarrow> None | Some h \<Rightarrow> h) \<and> (\<forall>h \<in> snd ` set regs. h \<noteq> None)" for t
    using register_all_Inr [OF assms, of t] unfolding NewMux_def by (simp split: option.splits)
  have "t \<in> fst ` set m \<longleftrightarrow> t \<in> fst ` set regs" for t
    using all [of t] by (auto simp: in_keys_iff split: option.splits dest!: map_of_SomeD)
  then have "set (map fst m) = set (map fst regs)" by auto
  then have "mset (map fst m) = mset (map fst regs)" using all by (metis set_eq_iff_mset_eq_distinct)
  then show ?thesis using all [of "Type j"] by (auto simp: Mux_ProcessTask_def Types_def split: option.splits)
qed

theorem Mux_dispatch_witness:
  "Mux_ProcessTask (\<lambda>h j. Returned h) [(''email'', None), (''bill'', Some (Plain ''x'', ''x''))] (zero_job\<lparr>Type := ''bill''\<rparr>)
    = Returned (Some (Plain ''x'', ''x''))"
proof -
  have "register_all [(''email'', Some None), (''bill'', Some (Some (Plain ''x'', ''x'')))] NewMux
      = Inr [(''email'', None), (''bill'', Some (Plain ''x'', ''x''))]" by code_simp
  from Mux_dispatch [OF this, of "\<lambda>h j. Returned h" "zero_job\<lparr>Type := ''bill''\<rparr>"] show ?thesis by simp
qed

end
