(* ===== verification/Server.thy ===== *)
theory Server
  imports Cron_Entry Backoff Queues Handler
begin

text \<open>
  The configuration of a worker, src/server.go: the constants, \<^verbatim>\<open>NewServer\<close> with its checks and defaults,
  the worker ID, the jittered intervals and the pacing of the loops of src/maintenance.go and
  src/scheduler.go. Durations are 64-bit where the code divides or doubles them; here they are integers,
  and every value that occurs is bounded by its configuration. Logging is not modelled.
\<close>

definition DefaultConcurrency :: int where "DefaultConcurrency = 10"
definition DefaultVisibilityTimeout :: duration where "DefaultVisibilityTimeout = 30 * Second"
definition DefaultShutdownTimeout :: duration where "DefaultShutdownTimeout = 30 * Second"
definition minPollInterval :: duration where "minPollInterval = 5 * Millisecond"
definition maxPollInterval :: duration where "maxPollInterval = 250 * Millisecond"
definition reportTimeout :: duration where "reportTimeout = 10 * Second"
definition forceGracePeriod :: duration where "forceGracePeriod = 5 * Second"
definition maxRenewFailures :: nat where "maxRenewFailures = 3"
definition reapBatch :: int where "reapBatch = 100"
definition promoteBatch :: int where "promoteBatch = 100"
definition cronBatch :: int where "cronBatch = 100"
definition schedulerLease :: string where "schedulerLease = ''scheduler''"
definition cronUniqueTTL :: duration where "cronUniqueTTL = 5 * Minute"

text \<open>
  The weights are ranged over, in an order Go leaves open, so they are an association list in some order
  (which error is reported first depends on it, acceptance does not); a nil map is the empty one. The
  backoff is an interface with one method, so it is that method, from the attempt to the delay.
\<close>

record config =
  cfg_Queues :: "string list"
  cfg_Weights :: "(string \<times> int64) list"
  cfg_StrictPriority :: bool
  cfg_Concurrency :: int
  cfg_VisibilityTimeout :: duration
  cfg_ShutdownTimeout :: duration
  cfg_Backoff :: "(int64 \<Rightarrow> int64 option) option"
  cfg_WorkerID :: string
  cfg_Cron :: "CronEntry list"

record server =
  sv_maint :: bool
  sv_cron :: bool
  sv_cfg :: config
  sv_host :: string
  sv_queues :: queueSelector
  sv_entries :: "(string \<times> compiledEntry) list"

text \<open>What a broker implements beyond the hot path.\<close>

record capabilities =
  has_Maintenance :: bool
  has_CronStore :: bool

datatype config_error = NilBroker | NoQueues | EmptyQueueName | QueueTwice string | UnknownWeight string
  | BadWeight string int64 | BadEntry compile_error | DuplicateEntry string | NoCronStore | NoMaintenance

fun check_queues :: "string list \<Rightarrow> string list \<Rightarrow> config_error option" where
  "check_queues [] seen = None"
| "check_queues (q # qs) seen =
     (if q = [] then Some EmptyQueueName
      else if q \<in> set seen then Some (QueueTwice q)
      else check_queues qs (q # seen))"

fun check_weights :: "string list \<Rightarrow> (string \<times> int64) list \<Rightarrow> config_error option" where
  "check_weights qs [] = None"
| "check_weights qs ((name, w) # ws) =
     (if name \<notin> set qs then Some (UnknownWeight name)
      else if w <s 1 then Some (BadWeight name w)
      else check_weights qs ws)"

fun compile_all :: "(int \<Rightarrow> int \<Rightarrow> int \<Rightarrow> int) \<Rightarrow> CronEntry list \<Rightarrow> (string \<times> compiledEntry) list
    \<Rightarrow> config_error + (string \<times> compiledEntry) list" where
  "compile_all fmul [] es = Inr es"
| "compile_all fmul (e # rest) es = (case compile fmul e of
       Inl err \<Rightarrow> Inl (BadEntry err)
     | Inr ce \<Rightarrow>
         (case map_of es (ce_ID (entry ce)) of
            Some _ \<Rightarrow> Inl (DuplicateEntry (ce_ID (entry ce)))
          | None \<Rightarrow> compile_all fmul rest (AList.update (ce_ID (entry ce)) ce es)))"

text \<open>\<open>host\<close> is what \<^verbatim>\<open>os.Hostname()\<close> returns, \<open>None\<close> for an error; \<open>pid\<close> and the ID are given likewise.\<close>

definition host_or_unknown :: "string option \<Rightarrow> string" where
  "host_or_unknown host = (case host of None \<Rightarrow> ''unknown'' | Some h \<Rightarrow> if h = [] then ''unknown'' else h)"

definition generateWorkerID :: "string option \<Rightarrow> int \<Rightarrow> string \<Rightarrow> string" where
  "generateWorkerID host pid newID = host_or_unknown host @ '':'' @ itoa pid @ '':'' @ take 8 newID"

definition zero_Exponential :: Exponential where
  "zero_Exponential = \<lparr>Base = 0, Cap = 0, Jitter = None, rnd = None\<rparr>"

definition config_defaults :: "(int64 \<Rightarrow> int64) \<Rightarrow> string \<Rightarrow> config \<Rightarrow> config" where
  "config_defaults draw generatedID cfg =
     (let c1 = (if cfg_Concurrency cfg \<le> 0 then cfg\<lparr>cfg_Concurrency := DefaultConcurrency\<rparr> else cfg);
          c2 = (if cfg_VisibilityTimeout c1 \<le> 0 then c1\<lparr>cfg_VisibilityTimeout := DefaultVisibilityTimeout\<rparr> else c1);
          c3 = (if cfg_ShutdownTimeout c2 \<le> 0 then c2\<lparr>cfg_ShutdownTimeout := DefaultShutdownTimeout\<rparr> else c2);
          c4 = (if cfg_Backoff c3 = None
                then c3\<lparr>cfg_Backoff := Some (Exponential_Next draw zero_Exponential)\<rparr> else c3)
      in if cfg_WorkerID c4 = [] then c4\<lparr>cfg_WorkerID := generatedID\<rparr> else c4)"

definition NewServer :: "(int \<Rightarrow> int \<Rightarrow> int \<Rightarrow> int) \<Rightarrow> (int64 \<Rightarrow> int64) \<Rightarrow> string option \<Rightarrow> int \<Rightarrow> string \<Rightarrow> capabilities option \<Rightarrow> config
    \<Rightarrow> config_error + server" where
  "NewServer fmul draw host pid newID b cfg0 = (case b of
       None \<Rightarrow> Inl NilBroker
     | Some caps \<Rightarrow>
         if cfg_Queues cfg0 = [] then Inl NoQueues
         else case check_queues (cfg_Queues cfg0) [] of
             Some err \<Rightarrow> Inl err
           | None \<Rightarrow>
         (case check_weights (cfg_Queues cfg0) (cfg_Weights cfg0) of
             Some err \<Rightarrow> Inl err
           | None \<Rightarrow>
         (let cfg = config_defaults draw (generateWorkerID host pid newID) cfg0
          in case compile_all fmul (cfg_Cron cfg) [] of
             Inl err \<Rightarrow> Inl err
           | Inr entries \<Rightarrow>
               if entries \<noteq> [] \<and> \<not> has_CronStore caps then Inl NoCronStore
               else if entries \<noteq> [] \<and> \<not> has_Maintenance caps then Inl NoMaintenance
               else Inr \<lparr>sv_maint = has_Maintenance caps, sv_cron = has_CronStore caps, sv_cfg = cfg,
                         sv_host = host_or_unknown host,
                         sv_queues = newQueueSelector (cfg_Queues cfg) (Some (map_of (cfg_Weights cfg))) (cfg_StrictPriority cfg),
                         sv_entries = entries\<rparr>)))"

section \<open>Intervals\<close>

text \<open>\<^verbatim>\<open>jitter\<close> of src/server.go; \<open>draw n\<close> is what \<^verbatim>\<open>rand.Int64N(n)\<close> delivers.\<close>

definition jitter :: "(int \<Rightarrow> int) \<Rightarrow> duration \<Rightarrow> duration" where
  "jitter draw d = (if d \<le> 1 then d else d div 2 + draw (d div 2))"

definition renewInterval :: "server \<Rightarrow> duration" where
  "renewInterval s = (let i = cfg_VisibilityTimeout (sv_cfg s) div 3 in if i \<le> 0 then Second else i)"

definition reapInterval :: "server \<Rightarrow> duration" where
  "reapInterval s = (let i = cfg_VisibilityTimeout (sv_cfg s) div 2 in if i \<le> 0 then Second else i)"

definition promoteInterval :: "server \<Rightarrow> duration" where
  "promoteInterval s = (let i = min Second (cfg_VisibilityTimeout (sv_cfg s) div 2) in if i \<le> 0 then Second else i)"

definition heartbeatInterval :: "server \<Rightarrow> duration" where
  "heartbeatInterval s = (let i = min (5 * Second) (cfg_VisibilityTimeout (sv_cfg s) div 2) in if i \<le> 0 then Second else i)"

definition heartbeatTTL :: "server \<Rightarrow> duration" where
  "heartbeatTTL s = 3 * heartbeatInterval s"

definition schedulerInterval :: "server \<Rightarrow> duration" where
  "schedulerInterval s = (let i = min (5 * Second) (cfg_VisibilityTimeout (sv_cfg s) div 2) in if i \<le> 0 then Second else i)"

definition schedulerLeaseTTL :: "server \<Rightarrow> duration" where
  "schedulerLeaseTTL s = 3 * schedulerInterval s"

section \<open>A validated server\<close>

definition server_wf :: "server \<Rightarrow> bool" where
  "server_wf s \<longleftrightarrow> cfg_Queues (sv_cfg s) \<noteq> [] \<and> distinct (cfg_Queues (sv_cfg s)) \<and> [] \<notin> set (cfg_Queues (sv_cfg s))
     \<and> (\<forall>n. 1 \<le> sint (configured_weight (Some (map_of (cfg_Weights (sv_cfg s)))) n))
     \<and> 0 < cfg_Concurrency (sv_cfg s) \<and> 0 < cfg_VisibilityTimeout (sv_cfg s) \<and> 0 < cfg_ShutdownTimeout (sv_cfg s)
     \<and> cfg_Backoff (sv_cfg s) \<noteq> None \<and> cfg_WorkerID (sv_cfg s) \<noteq> []
     \<and> names (sv_queues s) = cfg_Queues (sv_cfg s) \<and> strict (sv_queues s) = cfg_StrictPriority (sv_cfg s)
     \<and> distinct (map fst (sv_entries s))
     \<and> (\<forall>i ce. map_of (sv_entries s) i = Some ce \<longrightarrow> ce_ID (entry ce) = i \<and> i \<noteq> [] \<and> wf_schedule (schedule ce)
          \<and> ce_Type (entry ce) \<noteq> [] \<and> ce_Queue (entry ce) \<noteq> [] \<and> 0 < ce_MaxAttempts (entry ce))
     \<and> (sv_entries s \<noteq> [] \<longrightarrow> sv_maint s \<and> sv_cron s)"

lemma check_queues_None: "check_queues qs seen = None \<longleftrightarrow> distinct qs \<and> [] \<notin> set qs \<and> set qs \<inter> set seen = {}"
  by (induction qs arbitrary: seen) auto

lemma check_weights_None: "check_weights qs ws = None \<longleftrightarrow> (\<forall>(n, w) \<in> set ws. n \<in> set qs \<and> 1 \<le> sint w)"
  by (induction qs ws rule: check_weights.induct) (auto simp: word_sless_alt)

lemma compile_all_entries:
  "compile_all fmul es acc = Inr out \<Longrightarrow> distinct (map fst acc) \<Longrightarrow>
   (\<And>i ce. map_of acc i = Some ce \<Longrightarrow> P i ce) \<Longrightarrow>
   (\<And>e ce. compile fmul e = Inr ce \<Longrightarrow> P (ce_ID (entry ce)) ce) \<Longrightarrow>
     distinct (map fst out) \<and> (\<forall>i ce. map_of out i = Some ce \<longrightarrow> P i ce)"
proof (induction es arbitrary: acc)
  case (Cons e es)
  then obtain ce where ce: "compile fmul e = Inr ce" "compile_all fmul es (AList.update (ce_ID (entry ce)) ce acc) = Inr out"
    by (auto split: sum.splits option.splits)
  show ?case
    by (rule Cons.IH [OF ce(2)]) (use Cons.prems(2-4) ce(1) in \<open>auto split: if_splits\<close>)
qed simp

lemma config_defaults_fields:
  "cfg_Queues (config_defaults dr g c) = cfg_Queues c" "cfg_Weights (config_defaults dr g c) = cfg_Weights c"
  "cfg_StrictPriority (config_defaults dr g c) = cfg_StrictPriority c" "cfg_Cron (config_defaults dr g c) = cfg_Cron c"
  "0 < cfg_Concurrency (config_defaults dr g c)" "0 < cfg_VisibilityTimeout (config_defaults dr g c)"
  "0 < cfg_ShutdownTimeout (config_defaults dr g c)" "cfg_Backoff (config_defaults dr g c) \<noteq> None"
  "g \<noteq> [] \<Longrightarrow> cfg_WorkerID (config_defaults dr g c) \<noteq> []"
  by (simp_all add: config_defaults_def Let_def DefaultConcurrency_def DefaultVisibilityTimeout_def DefaultShutdownTimeout_def)

lemma NewServer_wf:
  assumes "NewServer fmul draw host pid newID b cfg = Inr s"
  shows "server_wf s \<and> cfg_Queues (sv_cfg s) = cfg_Queues cfg"
proof -
  let ?c = "config_defaults draw (generateWorkerID host pid newID) cfg"
  from assms obtain caps where b: "b = Some caps" by (auto simp: NewServer_def split: option.splits)
  from assms obtain entries where
    c: "cfg_Queues cfg \<noteq> []" "check_queues (cfg_Queues cfg) [] = None"
      "check_weights (cfg_Queues cfg) (cfg_Weights cfg) = None" "compile_all fmul (cfg_Cron ?c) [] = Inr entries"
      "entries \<noteq> [] \<longrightarrow> has_CronStore caps \<and> has_Maintenance caps"
    and s: "s = \<lparr>sv_maint = has_Maintenance caps, sv_cron = has_CronStore caps, sv_cfg = ?c, sv_host = host_or_unknown host,
        sv_queues = newQueueSelector (cfg_Queues ?c) (Some (map_of (cfg_Weights ?c))) (cfg_StrictPriority ?c), sv_entries = entries\<rparr>"
    unfolding b by (auto simp: NewServer_def Let_def split: option.splits if_splits sum.splits)
  have g: "generateWorkerID host pid newID \<noteq> []" by (simp add: generateWorkerID_def)
  have w: "1 \<le> sint (configured_weight (Some (map_of (cfg_Weights cfg))) n)" for n
    using c(3) by (auto simp: configured_weight_def check_weights_None split: option.splits dest!: map_of_SomeD)
  have en: "distinct (map fst entries) \<and> (\<forall>i ce. map_of entries i = Some ce \<longrightarrow> ce_ID (entry ce) = i \<and> i \<noteq> []
      \<and> wf_schedule (schedule ce) \<and> ce_Type (entry ce) \<noteq> [] \<and> ce_Queue (entry ce) \<noteq> [] \<and> 0 < ce_MaxAttempts (entry ce))"
    by (rule compile_all_entries [OF c(4)]) (use compile_wf in \<open>fastforce+\<close>)
  show ?thesis using c(1,2,5) g w en
    by (simp add: s server_wf_def config_defaults_fields check_queues_None newQueueSelector_def)
qed

text \<open>
  C37. NewServer only returns well-formed workers: at least one queue, none empty or repeated, every weight at
  least 1, positive concurrency and timeouts, a backoff, a worker ID, and cron entries with distinct IDs,
  well-formed schedules and filled-in queues and attempts, only on a broker that can run them.
\<close>

theorem NewServer_well_formed:
  assumes "NewServer fmul draw host pid newID b cfg = Inr s"
  shows "server_wf s \<and> cfg_Queues (sv_cfg s) = cfg_Queues cfg"
  using assms by (rule NewServer_wf)

definition example_config :: config where
  "example_config = \<lparr>cfg_Queues = [''critical'', ''low''], cfg_Weights = [(''critical'', 6)], cfg_StrictPriority = False,
     cfg_Concurrency = 0, cfg_VisibilityTimeout = 0, cfg_ShutdownTimeout = 0, cfg_Backoff = None, cfg_WorkerID = [],
     cfg_Cron = [\<lparr>ce_ID = ''tick'', ce_Spec = ''0 * * * *'', ce_Type = ''report'', ce_Payload = None, ce_Queue = [],
                  ce_MaxAttempts = 0\<rparr>]\<rparr>"

definition example_NewServer :: "config \<Rightarrow> config_error + server" where
  "example_NewServer = NewServer (\<lambda>_ _ _. 0) (\<lambda>_. 0) None 7 ''0123456789abcdef''
     (Some \<lparr>has_Maintenance = True, has_CronStore = True\<rparr>)"

theorem NewServer_well_formed_witness:
  "\<exists>s. example_NewServer example_config = Inr s \<and> server_wf s \<and> cfg_Queues (sv_cfg s) = [''critical'', ''low'']"
proof -
  have "map_sum id (\<lambda>s. ()) (example_NewServer example_config) = Inr ()" by code_simp
  then obtain s where s: "example_NewServer example_config = Inr s" by (cases "example_NewServer example_config") auto
  from NewServer_well_formed [OF s [unfolded example_NewServer_def]] s show ?thesis by (simp add: example_config_def)
qed

section \<open>Pacing\<close>

lemma jitter_range:
  assumes "\<forall>n > 0. 0 \<le> draw n \<and> draw n < n" and "0 < d"
  shows "0 < jitter draw d \<and> jitter draw d \<le> d \<and> d div 2 \<le> jitter draw d"
proof (cases "d \<le> 1")
  case True
  with assms(2) have "d = 1" by simp
  then show ?thesis by (simp add: jitter_def)
next
  case False
  then have "0 \<le> draw (d div 2) \<and> draw (d div 2) < d div 2" and "0 < d div 2" using assms(1) by auto
  with False show ?thesis by (simp add: jitter_def) linarith
qed

lemma thirds: "3 \<le> v \<Longrightarrow> 0 < v div 3 \<and> 3 * (v div 3) \<le> (v::int)"
  by auto

text \<open>
  The loops keep the documented pace. With a visibility timeout of at least three nanoseconds, renewal
  runs often enough that every lease sees three renewal attempts before it can lapse; a sweep for orphans
  starts within half a timeout whatever the jitter, so that an orphan waits at most one and a half
  timeouts after its worker's last renewal; and promotion never pauses for more than a second.
\<close>

theorem loop_pacing:
  assumes "3 \<le> cfg_VisibilityTimeout (sv_cfg s)" and "\<forall>n > 0. 0 \<le> draw n \<and> draw n < n"
  shows "0 < renewInterval s \<and> int maxRenewFailures * renewInterval s \<le> cfg_VisibilityTimeout (sv_cfg s)
    \<and> 0 < jitter draw (reapInterval s)
    \<and> 2 * (cfg_VisibilityTimeout (sv_cfg s) + jitter draw (reapInterval s)) \<le> 3 * cfg_VisibilityTimeout (sv_cfg s)
    \<and> 0 < jitter draw (promoteInterval s) \<and> jitter draw (promoteInterval s) \<le> Second
    \<and> 0 < heartbeatInterval s \<and> heartbeatTTL s = 3 * heartbeatInterval s
    \<and> 0 < schedulerInterval s \<and> schedulerLeaseTTL s \<le> 15 * Second"
proof -
  let ?v = "cfg_VisibilityTimeout (sv_cfg s)"
  have h: "0 < ?v div 2" "2 * (?v div 2) \<le> ?v" using assms(1) by auto
  have reap: "reapInterval s = ?v div 2" and promote: "promoteInterval s = min Second (?v div 2)"
    using h by (auto simp: reapInterval_def promoteInterval_def Let_def)
  have "0 < promoteInterval s" "promoteInterval s \<le> Second" using h by (auto simp: promote)
  note j = jitter_range [OF assms(2) this(1)] this(2) jitter_range [OF assms(2), of "reapInterval s"]
  have "0 < renewInterval s \<and> int maxRenewFailures * renewInterval s \<le> ?v"
    using thirds [OF assms(1)] by (auto simp: renewInterval_def maxRenewFailures_def Let_def)
  moreover have "0 < heartbeatInterval s" "0 < schedulerInterval s" "schedulerLeaseTTL s \<le> 15 * Second"
    using h by (auto simp: heartbeatInterval_def schedulerInterval_def schedulerLeaseTTL_def Let_def)
  ultimately show ?thesis using j h by (auto simp: reap heartbeatTTL_def)
qed

definition example_server :: server where
  "example_server = (case example_NewServer example_config of Inr s \<Rightarrow> s)"

theorem loop_pacing_witness:
  "cfg_VisibilityTimeout (sv_cfg example_server) = 30 * Second
    \<and> 3 * renewInterval example_server \<le> 30 * Second \<and> 0 < jitter (\<lambda>n. n - 1) (reapInterval example_server)"
proof -
  have v: "cfg_VisibilityTimeout (sv_cfg example_server) = 30 * Second" by code_simp
  from loop_pacing [of example_server "\<lambda>n. n - 1"] v show ?thesis by (simp add: maxRenewFailures_def)
qed

end
