(* ===== verification/Memory_Claims.thy ===== *)
theory Memory_Claims
  imports Memory_Delivery
begin

text \<open>
  Claiming work from the in-process broker: Dequeue takes the head of the first non-empty queue in the
  caller's order and hands jobs out first in, first out; attempts are bounded; every later operation on
  a claimed job is fenced on its owner.
\<close>

section \<open>Dequeue\<close>

lemma dequeue_loop_first:
  assumes "broker_wf b"
  shows "dequeue_loop now opts qs b = (case dropWhile (\<lambda>q. pending b q = []) qs of
      [] \<Rightarrow> (Inl (Wrap ErrNoJob []), b)
    | q # _ \<Rightarrow>
       (let i = hd (pending b q);
            j' = (the (jobs b i))\<lparr>Attempt := Attempt (the (jobs b i)) + 1, State := StateActive,
                   Owner := WorkerID opts, StartedAt := now, Deadline := now + VisibilityTimeout opts\<rparr>
        in (Inr j', b\<lparr>pending := (pending b)(q := tl (pending b q)), jobs := (jobs b)(i \<mapsto> j'),
                     active := AList.update i (Deadline j') (active b)\<rparr>)))"
proof (induction qs)
  case (Cons q qs)
  show ?case
  proof (cases "pending b q")
    case (Cons i ids)
    then have "i \<in> set (pending b q)" by simp
    with broker_wfD(4) [OF assms, of i] obtain j where "jobs b i = Some j"
      by (auto simp: placed_def lstate_def split: option.splits)
    with Cons show ?thesis by (simp add: Let_def)
  qed (use Cons in simp)
qed simp

text \<open>
  C16. Dequeue on a reachable open broker, with a worker ID and a positive visibility timeout, looks at the
  queues in the caller's order and claims the head of the first one that has a ready job: that job is
  removed from its ready list, has one more attempt, is active, owned by the worker, started now and due
  back at now plus the timeout, and is recorded as active with that deadline; the job returned is the
  job stored. With no ready job it returns ErrNoJob and changes nothing.
\<close>

theorem Dequeue_functional:
  assumes "reachable b" and "\<not> closed b" and "WorkerID opts \<noteq> []" and "0 < VisibilityTimeout opts"
  shows "case dropWhile (\<lambda>q. pending b q = []) (Queues opts) of
      [] \<Rightarrow> Dequeue now opts b = (Inl (Wrap ErrNoJob []), b)
    | q # _ \<Rightarrow> (\<exists>i ids j j' b'. pending b q = i # ids \<and> jobs b i = Some j \<and> Queue j = q
        \<and> State j = StatePending
        \<and> j' = j\<lparr>Attempt := Attempt j + 1, State := StateActive, Owner := WorkerID opts, StartedAt := now,
                 Deadline := now + VisibilityTimeout opts\<rparr>
        \<and> Dequeue now opts b = (Inr j', b') \<and> jobs b' = (jobs b)(i \<mapsto> j')
        \<and> pending b' = (pending b)(q := ids) \<and> map_of (active b') = (map_of (active b))(i \<mapsto> Deadline j'))"
proof (cases "dropWhile (\<lambda>q. pending b q = []) (Queues opts)")
  case Nil
  have "dequeue_loop now opts (Queues opts) b = (Inl (Wrap ErrNoJob []), b)"
    by (simp only: dequeue_loop_first [OF reachable_wf [OF assms(1)]] Nil list.case)
  with assms(2-4) have "Dequeue now opts b = (Inl (Wrap ErrNoJob []), b)"
    by (simp add: Dequeue_def checkOpen_def)
  with Nil show ?thesis by (simp only: list.case)
next
  case (Cons q qs)
  then have "pending b q \<noteq> []" by (simp only: dropWhile_eq_Cons_conv) simp
  then obtain i ids where ids: "pending b q = i # ids" by (cases "pending b q") auto
  then have "i \<in> set (pending b q)" by simp
  with broker_wfD(4) [OF reachable_wf [OF assms(1)], of i] obtain j where
    j: "jobs b i = Some j" "State j = StatePending" "Queue j = q"
    by (auto simp: placed_def lstate_def split: option.splits)
  define j' where "j' = j\<lparr>Attempt := Attempt j + 1, State := StateActive, Owner := WorkerID opts, StartedAt := now,
                 Deadline := now + VisibilityTimeout opts\<rparr>"
  define b' where "b' = b\<lparr>pending := (pending b)(q := ids), jobs := (jobs b)(i \<mapsto> j'),
                     active := AList.update i (Deadline j') (active b)\<rparr>"
  have "dequeue_loop now opts (Queues opts) b = (Inr j', b')"
    unfolding dequeue_loop_first [OF reachable_wf [OF assms(1)]] Cons list.case ids list.sel j(1) option.sel
      Let_def j'_def [symmetric] b'_def ..
  with assms(2-4) have "Dequeue now opts b = (Inr j', b')" by (simp add: Dequeue_def checkOpen_def)
  then show ?thesis unfolding Cons list.case using ids j
    by (intro exI conjI) (assumption | rule j'_def | simp add: b'_def)+
qed

theorem Dequeue_functional_witness:
  "\<exists>j b'. Dequeue 12 (example_claim ''w2'') example = (Inr j, b') \<and> Owner j = ''w2'' \<and> Attempt j = 1
    \<and> jobs b' ''b'' = Some j \<and> pending b' ''q'' = []"
proof -
  have "Queues (example_claim ''w2'') = [''p'', ''q'']" "WorkerID (example_claim ''w2'') = ''w2''"
    "VisibilityTimeout (example_claim ''w2'') = 20" "Attempt example_b = 0" by code_simp+
  with Dequeue_functional [OF example_reachable, of "example_claim ''w2''" 12] show ?thesis
    by (auto simp: example_fields)
qed

text \<open>
  Jobs of one queue are handed out first in, first out: on a reachable open broker, \<open>n\<close> calls of
  Dequeue on a queue with at least \<open>n\<close> ready jobs hand out exactly its first \<open>n\<close> ready jobs, in order.
\<close>

theorem Dequeue_fifo:
  assumes "reachable b" and "\<not> closed b" and "w \<noteq> []" and "0 < vt" and "length ts \<le> length (pending b q)"
  shows "handouts given exec (map (\<lambda>t. (t, OpDequeue \<lparr>WorkerID = w, Queues = [q], VisibilityTimeout = vt\<rparr>)) ts) b
    = map (\<lambda>i. (i, w)) (take (length ts) (pending b q))"
  using assms
proof (induction ts arbitrary: b)
  case Nil
  then show ?case by simp
next
  case (Cons t ts)
  let ?o = "\<lparr>WorkerID = w, Queues = [q], VisibilityTimeout = vt\<rparr>"
  let ?p = "(t, OpDequeue ?o)"
  from Cons.prems(5) obtain i ids where ids: "pending b q = i # ids" by (cases "pending b q") auto
  have wf: "broker_wf b" using Cons.prems(1) by (rule reachable_wf)
  have "i \<in> set (pending b q)" using ids by simp
  with broker_wfD(4) [OF wf, of i] obtain j where j: "jobs b i = Some j"
    by (auto simp: placed_def lstate_def split: option.splits)
  then have ID: "ID j = i" by (rule job_ID [OF wf])
  have g: "given ?p b = Some (i, w)"
    using Cons.prems(2,3,4) ids j ID
    by (simp add: Dequeue_def checkOpen_def dequeue_loop_first [OF wf] Let_def)
  have p: "pending (exec ?p b) q = ids" and c: "\<not> closed (exec ?p b)"
    using Cons.prems(2,3,4) ids j
    by (simp_all add: Dequeue_def checkOpen_def dequeue_loop_first [OF wf] Let_def)
  have "reachable (exec ?p b)" using Cons.prems(1) by (rule reachable_exec) simp
  from Cons.IH [OF this c Cons.prems(3,4)] p Cons.prems(5) ids g show ?case by simp
qed

theorem Dequeue_fifo_witness:
  "handouts given exec [(12, OpDequeue \<lparr>WorkerID = ''w2'', Queues = [''q''], VisibilityTimeout = 5\<rparr>)] example
    = [(''b'', ''w2'')]"
  using Dequeue_fifo [OF example_reachable, of "''w2''" 5 "[12]" "''q''"] by (simp add: example_fields)

section \<open>Attempts are bounded\<close>

definition enqueues_fresh :: "(time \<times> op) list \<Rightarrow> bool" where
  "enqueues_fresh ops \<longleftrightarrow> (\<forall>t newID j. (t, OpEnqueue newID j) \<in> set ops \<longrightarrow> Attempt j = 0)"

lemma allowed_EnqueuedD: "allowed p (Enqueued k) \<Longrightarrow> \<exists>t newID j. p = (t, OpEnqueue newID j)
    \<and> Attempt k = Attempt j \<and> ID k = (if ID j = [] then newID else ID j)"
  by (cases p; cases "snd p") (auto simp: allowed.simps)

lemma allowed_ReplayedD: "allowed p (Replayed i) \<Longrightarrow> \<exists>t ids. p = (t, OpRetryDead ids) \<and> (ids = [] \<or> i \<in> set ids)"
  by (cases p; cases "snd p") (auto simp: allowed.simps)

lemma budget_of_run:
  assumes "run_ok admissible exec ops New" and "enqueues_fresh ops"
  shows "store_budget (jobs (run exec ops New))"
proof (rule mem.run_budget [OF broker_wf_New assms(1)])
  show "store_budget (jobs New)" by (simp add: store_budget_def New_def)
  fix p k assume "p \<in> set ops" "allowed p (Enqueued k)"
  then show "Attempt k = 0" using assms(2) by (auto simp: enqueues_fresh_def dest!: allowed_EnqueuedD)
qed

text \<open>
  C17. Poison pills terminate. Take any run of the broker from New in which jobs are enqueued with no
  attempts used, and any continuation that does not replay the job \<open>i\<close> from the dead letters and does not
  enqueue another job under its ID: however the workers behave (crash, stall, fail), the continuation hands
  the job out at most \<^verbatim>\<open>MaxAttempts - Attempt\<close> times, and its attempts never exceed its maximum.
\<close>

theorem handouts_bounded_by_attempts:
  assumes "run_ok admissible exec ops New" and "enqueues_fresh ops"
    and "jobs (run exec ops New) i = Some j"
    and "run_ok admissible exec ops' (run exec ops New)" and "enqueues_fresh ops'"
    and "\<forall>t ids. (t, OpRetryDead ids) \<in> set ops' \<longrightarrow> ids \<noteq> [] \<and> i \<notin> set ids"
    and "\<forall>t newID k. (t, OpEnqueue newID k) \<in> set ops' \<longrightarrow> i \<noteq> (if ID k = [] then newID else ID k)"
  shows "0 \<le> Attempt j \<and> Attempt j \<le> MaxAttempts j
    \<and> int (length (filter (\<lambda>d. fst d = i) (handouts given exec ops' (run exec ops New))))
        \<le> MaxAttempts j - Attempt j"
proof (intro conjI)
  have wf: "broker_wf (run exec ops New)" using broker_wf_New assms(1) by (rule mem.run_invar)
  have bud: "store_budget (jobs (run exec ops New))" using assms(1,2) by (rule budget_of_run)
  then have "job_budget j" using assms(3) by auto
  then show "0 \<le> Attempt j" "Attempt j \<le> MaxAttempts j" by (auto simp: job_budget_def)
  show "int (length (filter (\<lambda>d. fst d = i) (handouts given exec ops' (run exec ops New))))
      \<le> MaxAttempts j - Attempt j"
  proof (rule mem.run_handouts_bound [OF wf assms(4) bud assms(3)])
    show "\<not> allowed p (Replayed i)" if "p \<in> set ops'" for p
      using that assms(6) by (auto dest!: allowed_ReplayedD)
    show "Attempt k = 0 \<and> ID k \<noteq> i" if "p \<in> set ops'" "allowed p (Enqueued k)" for p k
      using that assms(5,7) by (fastforce simp: enqueues_fresh_def dest!: allowed_EnqueuedD)
  qed
qed

theorem handouts_bounded_by_attempts_witness:
  "let ops' = [(100, OpReap [] 1), (101, OpDequeue (example_claim ''w2'')), (200, OpReap [] 1)] in
    handouts given exec ops' (run exec example_ops New) = [(''a'', ''w2'')]
    \<and> int (length (filter (\<lambda>d. fst d = ''a'') (handouts given exec ops' (run exec example_ops New)))) \<le> 1"
proof -
  let ?ops = "[(100, OpReap [] 1), (101, OpDequeue (example_claim ''w2'')), (200, OpReap [] 1)]"
  have "handouts given exec ?ops (run exec example_ops New) = [(''a'', ''w2'')]" by code_simp
  moreover have "MaxAttempts example_a = 2 \<and> Attempt example_a = 1" by code_simp
  moreover have "enqueues_fresh example_ops" "enqueues_fresh ?ops"
    by (auto simp: enqueues_fresh_def example_ops_def example_job_def zero_job_def)
  ultimately show ?thesis
    using handouts_bounded_by_attempts [OF example_run_ok _ example_fields(2) [unfolded example_def], of ?ops]
    by (simp add: Let_def)
qed

section \<open>Fencing\<close>

text \<open>
  C18. Fencing: a worker that does not own a job as its active owner (its lease expired and the job was
  requeued, taken over, completed or buried) cannot complete, fail, kill or renew it. Ack, Nack and Kill
  return an error that wraps ErrLeaseLost when the job is stored and ErrJobNotFound when it is not, and
  leave the broker exactly as it was; Extend reports the ID as lost and leaves the broker unchanged too.
\<close>

theorem operations_are_fenced:
  assumes "\<not> closed b" and "0 < vt"
    and "\<And>j. jobs b i = Some j \<Longrightarrow> State j \<noteq> StateActive \<or> Owner j \<noteq> w"
  defines "err \<equiv> (case jobs b i of None \<Rightarrow> Wrap ErrJobNotFound i | Some j \<Rightarrow> Wrap ErrLeaseLost (''job '' @ i @ '' is '' @ state_String (State j)
      @ '' owned by '' @ go_quote (Owner j) @ '', not '' @ go_quote w))"
  shows "Ack w i b = (Some err, b) \<and> Nack w i at r b = (Some err, b) \<and> Kill w i r b = (Some err, b)
    \<and> Extend now w [i] vt b = (Inr [i], b)"
proof -
  have "ownedActive w i b = Inl err" using assms(3) by (cases "jobs b i") (auto simp: ownedActive_def err_def)
  with assms(1,2) show ?thesis by (simp add: Ack_def Nack_def Kill_def Extend_def checkOpen_def)
qed

theorem operations_are_fenced_witness:
  "(\<exists>m. Ack ''w2'' ''a'' example = (Some (Wrap ErrLeaseLost m), example))
    \<and> Nack ''w2'' ''d'' 40 ''boom'' example = (Some (Wrap ErrJobNotFound ''d''), example)
    \<and> Extend 12 ''w1'' [''b''] 20 example = (Inr [''b''], example)"
  using operations_are_fenced [of example 20 "''a''" "''w2''" 40 "''boom''" 12]
    operations_are_fenced [of example 20 "''d''" "''w2''" 40 "''boom''" 12]
    operations_are_fenced [of example 20 "''b''" "''w1''" 40 "''boom''" 12]
  by (simp add: example_fields example_a_def example_b_def)

text \<open>
  Outcomes reported by the owner of an active job. On an open broker Ack removes the job and counts it as
  processed; Nack sends a job with attempts left to retry at the given instant and buries an exhausted
  one; Kill buries it whatever attempts are left. Burying appends the job to the dead letters and counts
  a failure; Nack and Kill record the reason and clear the owner, and in every case the lease is released.
\<close>

theorem owner_outcomes:
  assumes "reachable b" and "\<not> closed b" and "jobs b i = Some j" and "State j = StateActive"
    and "Owner j = w"
  shows "fst (Ack w i b) = None \<and> jobs (snd (Ack w i b)) = (jobs b)(i := None)
      \<and> processed (snd (Ack w i b)) = processed b + 1 \<and> map_of (active (snd (Ack w i b))) i = None
    \<and> fst (Nack w i at r b) = None \<and> map_of (active (snd (Nack w i at r b))) i = None
      \<and> (if MaxAttempts j \<le> Attempt j
         then jobs (snd (Nack w i at r b)) = (jobs b)(i \<mapsto> j\<lparr>Owner := [], LastErr := r, State := StateDead\<rparr>)
           \<and> dead (snd (Nack w i at r b)) = dead b @ [i] \<and> failed (snd (Nack w i at r b)) = failed b + 1
         else jobs (snd (Nack w i at r b)) = (jobs b)(i \<mapsto> j\<lparr>Owner := [], LastErr := r, State := StateRetry\<rparr>)
           \<and> map_of (retry (snd (Nack w i at r b))) i = Some at \<and> dead (snd (Nack w i at r b)) = dead b)
    \<and> fst (Kill w i r b) = None \<and> map_of (active (snd (Kill w i r b))) i = None
      \<and> jobs (snd (Kill w i r b)) = (jobs b)(i \<mapsto> j\<lparr>Owner := [], LastErr := r, State := StateDead\<rparr>)
      \<and> dead (snd (Kill w i r b)) = dead b @ [i] \<and> failed (snd (Kill w i r b)) = failed b + 1"
proof -
  have own: "ownedActive w i b = Inr j" using assms(3-5) by (simp add: ownedActive_Inr_iff)
  have ID: "ID j = i" using job_ID [OF reachable_wf [OF assms(1)] assms(3)] .
  have bury: "j\<lparr>LastErr := r, State := StateDead, Owner := []\<rparr> = j\<lparr>Owner := [], LastErr := r, State := StateDead\<rparr>"
    by (cases j) simp
  note defs = checkOpen_def own assms(2,4) ID moveToDeadLocked_def Exhausted_def CanTransition_iff Let_def
  have ack: "fst (Ack w i b) = None \<and> jobs (snd (Ack w i b)) = (jobs b)(i := None)
      \<and> processed (snd (Ack w i b)) = processed b + 1 \<and> map_of (active (snd (Ack w i b))) i = None"
    by (simp add: Ack_def defs)
  have nack: "fst (Nack w i at r b) = None \<and> map_of (active (snd (Nack w i at r b))) i = None
      \<and> (if MaxAttempts j \<le> Attempt j
         then jobs (snd (Nack w i at r b)) = (jobs b)(i \<mapsto> j\<lparr>Owner := [], LastErr := r, State := StateDead\<rparr>)
           \<and> dead (snd (Nack w i at r b)) = dead b @ [i] \<and> failed (snd (Nack w i at r b)) = failed b + 1
         else jobs (snd (Nack w i at r b)) = (jobs b)(i \<mapsto> j\<lparr>Owner := [], LastErr := r, State := StateRetry\<rparr>)
           \<and> map_of (retry (snd (Nack w i at r b))) i = Some at \<and> dead (snd (Nack w i at r b)) = dead b)"
    by (simp add: Nack_def defs bury)
  have kill: "fst (Kill w i r b) = None \<and> map_of (active (snd (Kill w i r b))) i = None
      \<and> jobs (snd (Kill w i r b)) = (jobs b)(i \<mapsto> j\<lparr>Owner := [], LastErr := r, State := StateDead\<rparr>)
      \<and> dead (snd (Kill w i r b)) = dead b @ [i] \<and> failed (snd (Kill w i r b)) = failed b + 1"
    by (simp add: Kill_def defs bury)
  show ?thesis using ack nack kill by blast
qed

theorem owner_outcomes_witness:
  "jobs (snd (Ack ''w1'' ''a'' example)) ''a'' = None
    \<and> map_of (retry (snd (Nack ''w1'' ''a'' 40 ''boom'' example))) ''a'' = Some 40
    \<and> dead (snd (Kill ''w1'' ''a'' ''boom'' example)) = [''a'']"
proof -
  have "MaxAttempts example_a = 2 \<and> Attempt example_a = 1 \<and> State example_a = StateActive \<and> Owner example_a = ''w1''"
    by code_simp
  with owner_outcomes [OF example_reachable _ example_fields(2), of "''w1''" 40 "''boom''"] show ?thesis
    by (simp add: example_fields)
qed

end
