(* ===== verification/Worker.thy ===== *)
theory Worker
  imports Server Memory_Claims
begin

text \<open>
  The worker runtime over the in-process broker: claiming, running and reporting jobs (src/worker.go) and
  the renewal of leases (src/maintenance.go).

  The goroutines of one worker share the table of jobs in flight, guarded by a mutex, the slots and the
  broker. Each definition below is what one goroutine does up to and including its next access to one of
  them, \<open>None\<close> where it cannot take that step, and the steps of the fetch loop, of the runs, of the renewal
  loop and of everybody else who uses the broker interleave freely. A run is one call of \<^verbatim>\<open>runJob\<close>; its
  number stands for its context, so that an entry of \<^verbatim>\<open>inFlight\<close>, the cancel function of a context, is the
  number of a run. The in-process broker does not look at contexts. Logging is not modelled.
\<close>

section \<open>State\<close>

datatype run_phase = Starting | Running | Reported | Untracked

text \<open>\<open>Sleeping idle\<close> remembers whether the poll found the queues empty or failed.\<close>

datatype fetch_state = Acquiring | Asking | Sleeping bool | Stopped

datatype renew_state = Waiting | Extending "string list" | Cancelling "string list"

record worker =
  wk_broker :: broker
  wk_inFlight :: "(string \<times> nat) list"
  wk_runs :: "nat \<rightharpoonup> job \<times> run_phase"
  wk_cancelled :: "nat list"
  wk_slots :: nat
  wk_fetch :: fetch_state
  wk_delay :: duration
  wk_renew :: renew_state
  wk_failures :: nat
  wk_fresh :: nat

definition start_worker :: "broker \<Rightarrow> worker" where
  "start_worker b = \<lparr>wk_broker = b, wk_inFlight = [], wk_runs = Map.empty, wk_cancelled = [], wk_slots = 0,
     wk_fetch = Acquiring, wk_delay = minPollInterval, wk_renew = Waiting, wk_failures = 0, wk_fresh = 0\<rparr>"

section \<open>In-flight tracking\<close>

definition trackJob :: "string \<Rightarrow> nat \<Rightarrow> worker \<Rightarrow> worker" where
  "trackJob i r w = w\<lparr>wk_inFlight := AList.update i r (wk_inFlight w)\<rparr>"

definition untrackJob :: "string \<Rightarrow> worker \<Rightarrow> worker" where
  "untrackJob i w = w\<lparr>wk_inFlight := AList.delete i (wk_inFlight w)\<rparr>"

definition inFlightIDs :: "worker \<Rightarrow> string list" where
  "inFlightIDs w = map fst (wk_inFlight w)"

definition inFlightCount :: "worker \<Rightarrow> int" where
  "inFlightCount w = int (length (wk_inFlight w))"

definition cancelJob :: "string \<Rightarrow> worker \<Rightarrow> worker" where
  "cancelJob i w = (case map_of (wk_inFlight w) i of
       None \<Rightarrow> w
     | Some r \<Rightarrow> w\<lparr>wk_cancelled := List.insert r (wk_cancelled w)\<rparr>)"

section \<open>Running a job\<close>

text \<open>What \<^verbatim>\<open>invoke\<close> makes of the end of a handler: the error with its text, or nil.\<close>

fun invoke :: "outcome \<Rightarrow> (error \<times> string) option" where
  "invoke (Returned e) = e"
| "invoke (Panicked r) = Some (Plain (''taskq: handler panicked: '' @ r), ''taskq: handler panicked: '' @ r)"

text \<open>
  The report of \<^verbatim>\<open>runJob\<close>: the broker's answer and the new broker; \<open>None\<close> when the backoff panics, which
  nothing recovers.
\<close>

definition report :: "server \<Rightarrow> time \<Rightarrow> job \<Rightarrow> (error \<times> string) option \<Rightarrow> broker \<Rightarrow> (error option \<times> broker) option" where
  "report s now j err b = (case err of
       None \<Rightarrow> Some (Ack (cfg_WorkerID (sv_cfg s)) (ID j) b)
     | Some (e, text) \<Rightarrow>
         if errors_Is e ErrSkipRetry then Some (Kill (cfg_WorkerID (sv_cfg s)) (ID j) text b)
         else case cfg_Backoff (sv_cfg s) of
             None \<Rightarrow> None
           | Some backoff \<Rightarrow>
               (case backoff (word_of_int (Attempt j)) of
                  None \<Rightarrow> None
                | Some delay \<Rightarrow> Some (Nack (cfg_WorkerID (sv_cfg s)) (ID j) (now + sint delay) text b)))"

definition set_phase :: "nat \<Rightarrow> job \<Rightarrow> run_phase \<Rightarrow> worker \<Rightarrow> worker" where
  "set_phase r j ph w = w\<lparr>wk_runs := (wk_runs w)(r \<mapsto> (j, ph))\<rparr>"

definition run_track :: "nat \<Rightarrow> worker \<Rightarrow> worker option" where
  "run_track r w = (case wk_runs w r of
       Some (j, Starting) \<Rightarrow> Some (set_phase r j Running (trackJob (ID j) r w))
     | _ \<Rightarrow> None)"

definition run_report :: "server \<Rightarrow> time \<Rightarrow> nat \<Rightarrow> outcome \<Rightarrow> worker \<Rightarrow> worker option" where
  "run_report s now r ends w = (case wk_runs w r of
       Some (j, Running) \<Rightarrow> (case report s now j (invoke ends) (wk_broker w) of
           None \<Rightarrow> None
         | Some (_, b) \<Rightarrow> Some (set_phase r j Reported (w\<lparr>wk_broker := b\<rparr>)))
     | _ \<Rightarrow> None)"

definition run_untrack :: "nat \<Rightarrow> worker \<Rightarrow> worker option" where
  "run_untrack r w = (case wk_runs w r of
       Some (j, Reported) \<Rightarrow>
         Some (set_phase r j Untracked ((untrackJob (ID j) w)\<lparr>wk_cancelled := List.insert r (wk_cancelled w)\<rparr>))
     | _ \<Rightarrow> None)"

text \<open>The deferred \<^verbatim>\<open><-slots\<close> of the goroutine that \<^verbatim>\<open>fetchLoop\<close> started.\<close>

definition run_release :: "nat \<Rightarrow> worker \<Rightarrow> worker option" where
  "run_release r w = (case wk_runs w r of
       Some (_, Untracked) \<Rightarrow> Some (w\<lparr>wk_runs := (wk_runs w)(r := None), wk_slots := wk_slots w - 1\<rparr>)
     | _ \<Rightarrow> None)"

section \<open>The fetch loop\<close>

text \<open>Sending to a buffered channel blocks while it is full.\<close>

definition fetch_acquire :: "server \<Rightarrow> worker \<Rightarrow> worker option" where
  "fetch_acquire s w =
     (if wk_fetch w = Acquiring \<and> int (wk_slots w) < cfg_Concurrency (sv_cfg s)
      then Some (w\<lparr>wk_slots := wk_slots w + 1, wk_fetch := Asking\<rparr>) else None)"

text \<open>\<open>None\<close> also when the selector panics. An error during shutdown returns at once, as it does from the sleep.\<close>

definition fetch_ask :: "server \<Rightarrow> time \<Rightarrow> (nat \<Rightarrow> int64 \<Rightarrow> int64) \<Rightarrow> worker \<Rightarrow> worker option" where
  "fetch_ask s now draws w =
     (if wk_fetch w = Asking then
        (case selector_next draws (sv_queues s) of
           None \<Rightarrow> None
         | Some order \<Rightarrow>
             (case Dequeue now \<lparr>WorkerID = cfg_WorkerID (sv_cfg s), Queues = order,
                      VisibilityTimeout = cfg_VisibilityTimeout (sv_cfg s)\<rparr> (wk_broker w) of
                (Inr j, b) \<Rightarrow> Some (w\<lparr>wk_broker := b, wk_delay := minPollInterval, wk_fetch := Acquiring,
                    wk_runs := (wk_runs w)(wk_fresh w \<mapsto> (j, Starting)), wk_fresh := wk_fresh w + 1\<rparr>)
              | (Inl e, b) \<Rightarrow> Some (w\<lparr>wk_broker := b, wk_slots := wk_slots w - 1,
                    wk_fetch := Sleeping (errors_Is e ErrNoJob)\<rparr>)))
      else None)"

definition fetch_wake :: "worker \<Rightarrow> worker option" where
  "fetch_wake w = (case wk_fetch w of
       Sleeping idle \<Rightarrow> Some (w\<lparr>wk_fetch := Acquiring,
         wk_delay := (if idle then min (wk_delay w * 2) maxPollInterval else wk_delay w)\<rparr>)
     | _ \<Rightarrow> None)"

text \<open>The context of \<^verbatim>\<open>Run\<close> is cancelled while the loop waits for a slot or sleeps.\<close>

definition fetch_stop :: "worker \<Rightarrow> worker option" where
  "fetch_stop w = (case wk_fetch w of
       Acquiring \<Rightarrow> Some (w\<lparr>wk_fetch := Stopped\<rparr>)
     | Sleeping _ \<Rightarrow> Some (w\<lparr>wk_fetch := Stopped\<rparr>)
     | _ \<Rightarrow> None)"

section \<open>The renewal loop\<close>

definition renew_read :: "worker \<Rightarrow> worker option" where
  "renew_read w =
     (if wk_renew w = Waiting
      then Some (if inFlightIDs w = [] then w\<lparr>wk_failures := 0\<rparr> else w\<lparr>wk_renew := Extending (inFlightIDs w)\<rparr>)
      else None)"

definition renew_extend :: "server \<Rightarrow> time \<Rightarrow> worker \<Rightarrow> worker option" where
  "renew_extend s now w = (case wk_renew w of
       Extending ids \<Rightarrow>
         (case Extend now (cfg_WorkerID (sv_cfg s)) ids (cfg_VisibilityTimeout (sv_cfg s)) (wk_broker w) of
            (Inl _, b) \<Rightarrow>
              Some (if maxRenewFailures \<le> wk_failures w + 1
                    then w\<lparr>wk_broker := b, wk_renew := Cancelling ids, wk_failures := 0\<rparr>
                    else w\<lparr>wk_broker := b, wk_renew := Waiting, wk_failures := wk_failures w + 1\<rparr>)
          | (Inr lost, b) \<Rightarrow> Some (w\<lparr>wk_broker := b, wk_renew := Cancelling lost, wk_failures := 0\<rparr>))
     | _ \<Rightarrow> None)"

definition renew_cancel :: "worker \<Rightarrow> worker option" where
  "renew_cancel w = (case wk_renew w of
       Cancelling [] \<Rightarrow> Some (w\<lparr>wk_renew := Waiting\<rparr>)
     | Cancelling (i # ids) \<Rightarrow> Some ((cancelJob i w)\<lparr>wk_renew := Cancelling ids\<rparr>)
     | _ \<Rightarrow> None)"

section \<open>Interleaving\<close>

datatype wevent = Acquire | Ask time "nat \<Rightarrow> int64 \<Rightarrow> int64" | Wake | Stop | Track nat | Report time nat outcome
  | Untrack nat | Release nat | RenewRead | RenewExtend time | RenewCancel | Others time op

fun wexec :: "server \<Rightarrow> wevent \<Rightarrow> worker \<Rightarrow> worker option" where
  "wexec s Acquire w = fetch_acquire s w"
| "wexec s (Ask now draws) w = fetch_ask s now draws w"
| "wexec s Wake w = fetch_wake w"
| "wexec s Stop w = fetch_stop w"
| "wexec s (Track r) w = run_track r w"
| "wexec s (Report now r ends) w = run_report s now r ends w"
| "wexec s (Untrack r) w = run_untrack r w"
| "wexec s (Release r) w = run_release r w"
| "wexec s RenewRead w = renew_read w"
| "wexec s (RenewExtend now) w = renew_extend s now w"
| "wexec s RenewCancel w = renew_cancel w"
| "wexec s (Others now p) w =
     (if admissible (now, p) (wk_broker w) then Some (w\<lparr>wk_broker := exec (now, p) (wk_broker w)\<rparr>) else None)"

text \<open>The states a worker reaches from a broker \<open>b\<close> by steps into states that satisfy \<open>G\<close>.\<close>

inductive worker_reach :: "server \<Rightarrow> (worker \<Rightarrow> bool) \<Rightarrow> broker \<Rightarrow> worker \<Rightarrow> bool" for s G b where
  start: "worker_reach s G b (start_worker b)"
| step: "worker_reach s G b w \<Longrightarrow> wexec s e w = Some w' \<Longrightarrow> G w' \<Longrightarrow> worker_reach s G b w'"

section \<open>Capacity and tracking\<close>

definition live :: "run_phase \<Rightarrow> bool" where
  "live ph \<longleftrightarrow> ph = Running \<or> ph = Reported"

text \<open>Slots are held by the runs and by a poll; every entry in flight belongs to a live run of that job.\<close>

definition worker_inv :: "server \<Rightarrow> worker \<Rightarrow> bool" where
  "worker_inv s w \<longleftrightarrow> finite (Map.dom (wk_runs w))
     \<and> wk_slots w = card (Map.dom (wk_runs w)) + (if wk_fetch w = Asking then 1 else 0)
     \<and> int (wk_slots w) \<le> cfg_Concurrency (sv_cfg s) \<and> (\<forall>r \<in> Map.dom (wk_runs w). r < wk_fresh w)
     \<and> (\<forall>i r. map_of (wk_inFlight w) i = Some r \<longrightarrow> (\<exists>j ph. wk_runs w r = Some (j, ph) \<and> ID j = i \<and> live ph))"

lemma worker_inv_start: "0 < cfg_Concurrency (sv_cfg s) \<Longrightarrow> worker_inv s (start_worker b)"
  by (simp add: worker_inv_def start_worker_def)

lemma worker_inv_runs:
  assumes "worker_inv s w" and "wk_runs w r = Some (j, ph)" and "live ph'"
  shows "worker_inv s (set_phase r j ph' w)"
  using assms by (force simp: worker_inv_def set_phase_def insert_absorb domI)

lemma worker_inv_same:
  assumes "worker_inv s w" and "wk_runs w' = wk_runs w" and "wk_inFlight w' = wk_inFlight w"
    and "wk_slots w' = wk_slots w" and "wk_fetch w' = wk_fetch w" and "wk_fresh w' = wk_fresh w"
  shows "worker_inv s w'"
  using assms(1) unfolding worker_inv_def assms(2-) .

lemma worker_inv_claim:
  assumes "worker_inv s w" and "wk_fetch w = Asking"
  shows "worker_inv s (w\<lparr>wk_broker := b, wk_delay := d, wk_fetch := Acquiring,
    wk_runs := (wk_runs w)(wk_fresh w \<mapsto> (j, Starting)), wk_fresh := wk_fresh w + 1\<rparr>)"
proof -
  have "wk_fresh w \<notin> Map.dom (wk_runs w)" using assms(1) unfolding worker_inv_def by blast
  moreover have "wk_runs w r = Some x \<Longrightarrow> r < wk_fresh w" for r x using assms(1) unfolding worker_inv_def by blast
  ultimately show ?thesis using assms unfolding worker_inv_def by simp (metis less_Suc_eq nat_neq_iff option.distinct(1) domI domD)
qed

lemma worker_inv_fetch:
  assumes "worker_inv s w"
  shows "fetch_acquire s w = Some w' \<Longrightarrow> worker_inv s w'" and "fetch_wake w = Some w' \<Longrightarrow> worker_inv s w'"
    and "fetch_stop w = Some w' \<Longrightarrow> worker_inv s w'" and "fetch_ask s now draws w = Some w' \<Longrightarrow> worker_inv s w'"
proof -
  show "worker_inv s w'" if "fetch_acquire s w = Some w'"
    using that assms by (auto simp: worker_inv_def fetch_acquire_def split: if_splits)
  show "worker_inv s w'" if "fetch_wake w = Some w'"
    using that assms by (auto simp: worker_inv_def fetch_wake_def split: fetch_state.splits)
  show "worker_inv s w'" if "fetch_stop w = Some w'"
    using that assms by (auto simp: worker_inv_def fetch_stop_def split: fetch_state.splits)
  assume "fetch_ask s now draws w = Some w'"
  then have "wk_fetch w = Asking" and "(\<exists>j b. w' = w\<lparr>wk_broker := b, wk_delay := minPollInterval, wk_fetch := Acquiring,
        wk_runs := (wk_runs w)(wk_fresh w \<mapsto> (j, Starting)), wk_fresh := wk_fresh w + 1\<rparr>)
      \<or> (\<exists>b idle. w' = w\<lparr>wk_broker := b, wk_slots := wk_slots w - 1, wk_fetch := Sleeping idle\<rparr>)"
    by (auto simp: fetch_ask_def split: if_splits option.splits prod.splits sum.splits)
  then show "worker_inv s w'" using worker_inv_claim [OF assms] assms by (elim disjE exE) (simp_all add: worker_inv_def)
qed

lemma worker_inv_run:
  assumes "worker_inv s w"
  shows "run_track r w = Some w' \<Longrightarrow> worker_inv s w'" and "run_report s now r ends w = Some w' \<Longrightarrow> worker_inv s w'"
    and "run_untrack r w = Some w' \<Longrightarrow> worker_inv s w'" and "run_release r w = Some w' \<Longrightarrow> worker_inv s w'"
proof -
  assume "run_track r w = Some w'"
  then obtain j where j: "wk_runs w r = Some (j, Starting)" and w': "w' = trackJob (ID j) r (set_phase r j Running w)"
    by (auto simp: run_track_def set_phase_def trackJob_def split: option.splits run_phase.splits)
  have "worker_inv s (set_phase r j Running w)" using worker_inv_runs [OF assms j] by (simp add: live_def)
  then show "worker_inv s w'" by (auto simp: w' worker_inv_def trackJob_def set_phase_def live_def)
next
  assume "run_report s now r ends w = Some w'"
  then obtain j b where j: "wk_runs w r = Some (j, Running)" and w': "w' = set_phase r j Reported (w\<lparr>wk_broker := b\<rparr>)"
    by (auto simp: run_report_def split: option.splits run_phase.splits)
  have "worker_inv s (set_phase r j Reported w)" using worker_inv_runs [OF assms j] by (simp add: live_def)
  then show "worker_inv s w'" by (rule worker_inv_same) (simp_all add: w' set_phase_def)
next
  assume "run_untrack r w = Some w'"
  then obtain j where j: "wk_runs w r = Some (j, Reported)"
    and w': "w' = set_phase r j Untracked ((untrackJob (ID j) w)\<lparr>wk_cancelled := List.insert r (wk_cancelled w)\<rparr>)"
    by (auto simp: run_untrack_def split: option.splits run_phase.splits)
  from assms j show "worker_inv s w'"
    by (force simp: w' worker_inv_def set_phase_def untrackJob_def insert_absorb domI delete_conv' split: if_splits)
next
  assume "run_release r w = Some w'"
  then obtain j where j: "wk_runs w r = Some (j, Untracked)"
    and w': "w' = w\<lparr>wk_runs := (wk_runs w)(r := None), wk_slots := wk_slots w - 1\<rparr>"
    by (auto simp: run_release_def split: option.splits run_phase.splits)
  have "0 < card (Map.dom (wk_runs w))" if "finite (Map.dom (wk_runs w))" using that j by (auto simp: card_gt_0_iff)
  with assms j show "worker_inv s w'" by (force simp: w' worker_inv_def domI live_def)
qed

lemma worker_inv_renew:
  assumes "worker_inv s w"
  shows "renew_read w = Some w' \<Longrightarrow> worker_inv s w'" and "renew_extend s now w = Some w' \<Longrightarrow> worker_inv s w'"
    and "renew_cancel w = Some w' \<Longrightarrow> worker_inv s w'"
  by (auto simp: renew_read_def renew_extend_def renew_cancel_def cancelJob_def intro!: worker_inv_same [OF assms]
      split: if_splits renew_state.splits prod.splits sum.splits list.splits option.splits)

lemma worker_inv_step:
  assumes "worker_inv s w" and "wexec s e w = Some w'"
  shows "worker_inv s w'"
proof (cases e)
  case (Others now p)
  with assms(2) show ?thesis by (auto intro: worker_inv_same [OF assms(1)] split: if_splits)
qed (use assms(2) worker_inv_fetch [OF assms(1)] worker_inv_run [OF assms(1)] worker_inv_renew [OF assms(1)] in simp_all)

lemma worker_reach_inv: "worker_reach s G b w \<Longrightarrow> 0 < cfg_Concurrency (sv_cfg s) \<Longrightarrow> worker_inv s w"
  by (induction rule: worker_reach.induct) (simp_all add: worker_inv_start worker_inv_step)

lemma report_broker:
  assumes "reachable b" and "report s now j err b = Some (e, b')"
  shows "reachable b'"
proof -
  let ?w = "cfg_WorkerID (sv_cfg s)"
  have "b' = exec (now, OpAck ?w (ID j)) b \<or> (\<exists>t. b' = exec (now, OpKill ?w (ID j) t) b)
    \<or> (\<exists>at t. b' = exec (now, OpNack ?w (ID j) at t) b)"
    using assms(2) by (auto simp: report_def split: option.splits if_splits prod.splits) (metis snd_conv)+
  then show ?thesis using assms(1) by (elim disjE exE) (simp_all only:, (rule reachable_exec, assumption, simp)+)
qed

lemma worker_reach_broker:
  assumes "worker_reach s G b w" and "reachable b"
  shows "reachable (wk_broker w)"
  using assms(1)
proof induction
  case (step w e w')
  note re = reachable_exec [OF step.IH]
  let ?id = "cfg_WorkerID (sv_cfg s)" and ?vt = "cfg_VisibilityTimeout (sv_cfg s)"
  have "wk_broker w' = wk_broker w \<or> (\<exists>p. admissible p (wk_broker w) \<and> wk_broker w' = exec p (wk_broker w))
      \<or> (\<exists>now j err e. report s now j err (wk_broker w) = Some (e, wk_broker w'))"
  proof (cases e)
    case (Ask now draws)
    with step.hyps(2) obtain order where eq: "wk_broker w' =
        exec (now, OpDequeue \<lparr>WorkerID = ?id, Queues = order, VisibilityTimeout = ?vt\<rparr>) (wk_broker w)"
      by (auto simp: fetch_ask_def split: if_splits option.splits prod.splits sum.splits) (metis snd_conv)+
    show ?thesis by (rule disjI2, rule disjI1, rule exI, rule conjI [rotated], rule eq, simp)
  next
    case (RenewExtend now)
    with step.hyps(2) obtain ids where eq: "wk_broker w' = exec (now, OpExtend ?id ids ?vt) (wk_broker w)"
      by (auto simp: renew_extend_def split: renew_state.splits prod.splits sum.splits if_splits) (metis snd_conv)+
    show ?thesis by (rule disjI2, rule disjI1, rule exI, rule conjI [rotated], rule eq, simp)
  next
    case (Others now p)
    with step.hyps(2) have eq: "wk_broker w' = exec (now, p) (wk_broker w)" and ad: "admissible (now, p) (wk_broker w)"
      by (auto split: if_splits)
    show ?thesis by (rule disjI2, rule disjI1, rule exI, rule conjI [rotated], rule eq, rule ad)
  qed (use step.hyps(2) in \<open>auto simp: fetch_acquire_def fetch_wake_def fetch_stop_def run_track_def run_report_def
      run_untrack_def run_release_def renew_read_def renew_cancel_def cancelJob_def set_phase_def trackJob_def untrackJob_def
      split: if_splits option.splits prod.splits run_phase.splits fetch_state.splits renew_state.splits list.splits\<close>)
  then show ?case using re report_broker [OF step.IH] by (elim disjE exE conjE) (simp_all add: step.IH)
qed (simp add: start_worker_def assms(2))

lemma worker_reach_delay:
  "worker_reach s G b w \<Longrightarrow> minPollInterval \<le> wk_delay w \<and> wk_delay w \<le> maxPollInterval"
proof (induction rule: worker_reach.induct)
  case (step w e w')
  have "wk_delay w' = wk_delay w \<or> wk_delay w' = minPollInterval \<or> wk_delay w' = min (wk_delay w * 2) maxPollInterval"
    using step.hyps(2)
    by (cases e) (auto simp: fetch_acquire_def fetch_ask_def fetch_wake_def fetch_stop_def run_track_def run_report_def
      run_untrack_def run_release_def renew_read_def renew_extend_def renew_cancel_def cancelJob_def set_phase_def trackJob_def untrackJob_def
      split: if_splits option.splits prod.splits sum.splits run_phase.splits fetch_state.splits renew_state.splits list.splits)
  with step.IH show ?case by (auto simp: minPollInterval_def maxPollInterval_def)
qed (simp add: start_worker_def minPollInterval_def maxPollInterval_def)

text \<open>
  C9. A worker never runs more jobs than its concurrency, however its goroutines, other workers and producers
  interleave: it holds one slot for each run and one while it polls, and never more slots than configured,
  so that no job is claimed without capacity to start it. Every job in flight is that of a run that has
  started and not been untracked, the pause between polls stays within its limits, and the broker stays
  reachable.
\<close>

theorem worker_capacity:
  assumes "server_wf s" and "reachable b" and "worker_reach s G b w"
  shows "int (card (Map.dom (wk_runs w))) + (if wk_fetch w = Asking then 1 else 0) = int (wk_slots w)
    \<and> int (wk_slots w) \<le> cfg_Concurrency (sv_cfg s)
    \<and> (\<forall>i \<in> set (inFlightIDs w). \<exists>r j ph. wk_runs w r = Some (j, ph) \<and> ID j = i \<and> live ph)
    \<and> minPollInterval \<le> wk_delay w \<and> wk_delay w \<le> maxPollInterval \<and> reachable (wk_broker w)"
proof -
  have inv: "worker_inv s w" using worker_reach_inv [OF assms(3)] assms(1) by (simp add: server_wf_def)
  have "\<exists>r j ph. wk_runs w r = Some (j, ph) \<and> ID j = i \<and> live ph" if "i \<in> set (inFlightIDs w)" for i
  proof -
    from that obtain r where "map_of (wk_inFlight w) i = Some r"
      by (metis inFlightIDs_def list.set_map map_of_eq_None_iff not_None_eq)
    then show ?thesis using inv unfolding worker_inv_def by blast
  qed
  then show ?thesis using inv worker_reach_delay [OF assms(3)] worker_reach_broker [OF assms(3,2)]
    by (simp add: worker_inv_def)
qed

text \<open>A run of a worker, step by step, for concrete histories.\<close>

fun wrun :: "server \<Rightarrow> (worker \<Rightarrow> bool) \<Rightarrow> wevent list \<Rightarrow> worker \<Rightarrow> worker option" where
  "wrun s G [] w = Some w"
| "wrun s G (e # es) w = (case wexec s e w of None \<Rightarrow> None | Some w' \<Rightarrow> if G w' then wrun s G es w' else None)"

lemma wrun_reach: "worker_reach s G b w \<Longrightarrow> wrun s G es w = Some w' \<Longrightarrow> worker_reach s G b w'"
  by (induction es arbitrary: w) (auto split: option.splits if_splits intro: worker_reach.step)

lemma worker_reach_weaken:
  assumes "worker_reach s G b w" and "0 < cfg_Concurrency (sv_cfg s)" and "\<And>w. worker_inv s w \<Longrightarrow> G w \<Longrightarrow> G' w"
  shows "worker_reach s G' b w"
  using assms(1)
proof induction
  case (step w e w')
  have "worker_inv s w'" using worker_inv_step [OF worker_reach_inv [OF step.hyps(1) assms(2)] step.hyps(2)] .
  then show ?case using worker_reach.step [OF step.IH step.hyps(2)] assms(3) step.hyps(3) by blast
qed (rule worker_reach.start)

definition worker_server :: server where
  "worker_server = (case example_NewServer (example_config\<lparr>cfg_Cron := []\<rparr>) of Inr s \<Rightarrow> s)"

definition low_job :: job where
  "low_job = zero_job\<lparr>ID := ''j'', Queue := ''low'', Type := ''t''\<rparr>"

definition claim_history :: "wevent list" where
  "claim_history = [Others 1 (OpEnqueue ''n'' low_job), Acquire, Ask 2 (\<lambda>_ _. 0), Track 0]"

definition first_only :: "worker \<Rightarrow> bool" where
  "first_only w \<longleftrightarrow> wk_fresh w \<le> 1"

definition claim_worker :: worker where
  "claim_worker = the (wrun worker_server first_only claim_history (start_worker New))"

lemma claim_worker_reach: "worker_reach worker_server first_only New claim_worker"
proof -
  have "wrun worker_server first_only claim_history (start_worker New) \<noteq> None" by code_simp
  then show ?thesis unfolding claim_worker_def by (intro wrun_reach [OF worker_reach.start]) simp
qed

lemma worker_server_wf: "server_wf worker_server"
proof -
  let ?r = "example_NewServer (example_config\<lparr>cfg_Cron := []\<rparr>)"
  have "map_sum id (\<lambda>s. ()) ?r = Inr ()" by code_simp
  then obtain s where s: "?r = Inr s" by (cases ?r) auto
  then show ?thesis using NewServer_wf [OF s [unfolded example_NewServer_def]] by (simp add: worker_server_def)
qed

theorem worker_capacity_witness:
  "inFlightIDs claim_worker = [''j''] \<and> wk_slots claim_worker = 1
    \<and> int (wk_slots claim_worker) \<le> cfg_Concurrency (sv_cfg worker_server)"
proof -
  have "inFlightIDs claim_worker = [''j'']" "wk_slots claim_worker = 1" by code_simp+
  with worker_capacity [OF worker_server_wf reachable_New claim_worker_reach] show ?thesis by simp
qed

section \<open>Every run is renewed, unless the worker gets its own job back\<close>

definition no_rerun :: "worker \<Rightarrow> bool" where
  "no_rerun w \<longleftrightarrow> (\<forall>r r' j j' ph ph'. wk_runs w r = Some (j, ph) \<longrightarrow> wk_runs w r' = Some (j', ph') \<longrightarrow> ID j = ID j' \<longrightarrow> r = r')"

definition tracked :: "worker \<Rightarrow> bool" where
  "tracked w \<longleftrightarrow> (\<forall>r j ph. wk_runs w r = Some (j, ph) \<longrightarrow> live ph \<longrightarrow> map_of (wk_inFlight w) (ID j) = Some r)"

text \<open>The steps that change the runs or the table.\<close>

lemma wexec_runs:
  assumes "wexec s e w = Some w'"
  obtains (same) "wk_runs w' = wk_runs w" "wk_inFlight w' = wk_inFlight w"
  | (claim) j where "wk_runs w' = (wk_runs w)(wk_fresh w \<mapsto> (j, Starting))" "wk_inFlight w' = wk_inFlight w"
  | (track) r j where "wk_runs w' = (wk_runs w)(r \<mapsto> (j, Running))" "wk_inFlight w' = AList.update (ID j) r (wk_inFlight w)"
  | (report) r j where "wk_runs w r = Some (j, Running)" "wk_runs w' = (wk_runs w)(r \<mapsto> (j, Reported))"
      "wk_inFlight w' = wk_inFlight w"
  | (untrack) r j where "wk_runs w' = (wk_runs w)(r \<mapsto> (j, Untracked))" "wk_inFlight w' = AList.delete (ID j) (wk_inFlight w)"
  | (release) r where "wk_runs w' = (wk_runs w)(r := None)" "wk_inFlight w' = wk_inFlight w"
proof (cases e)
  case Acquire
  with assms show ?thesis by (intro same) (auto simp: fetch_acquire_def split: if_splits)
next
  case (Ask now draws)
  with assms show ?thesis using same claim
    by (auto simp: fetch_ask_def split: if_splits option.splits prod.splits sum.splits)
next
  case Wake
  with assms show ?thesis by (intro same) (auto simp: fetch_wake_def split: fetch_state.splits)
next
  case Stop
  with assms show ?thesis by (intro same) (auto simp: fetch_stop_def split: fetch_state.splits)
next
  case (Track r)
  with assms show ?thesis using track
    by (auto simp: run_track_def set_phase_def trackJob_def split: option.splits run_phase.splits)
next
  case (Report now r ends)
  with assms show ?thesis using report
    by (auto simp: run_report_def set_phase_def split: option.splits run_phase.splits)
next
  case (Untrack r)
  with assms show ?thesis using untrack
    by (auto simp: run_untrack_def set_phase_def untrackJob_def split: option.splits run_phase.splits)
next
  case (Release r)
  with assms show ?thesis using release by (auto simp: run_release_def split: option.splits run_phase.splits)
next
  case RenewRead
  with assms show ?thesis by (intro same) (auto simp: renew_read_def split: if_splits)
next
  case (RenewExtend now)
  with assms show ?thesis
    by (intro same) (auto simp: renew_extend_def split: renew_state.splits prod.splits sum.splits if_splits)
next
  case RenewCancel
  with assms show ?thesis
    by (intro same) (auto simp: renew_cancel_def cancelJob_def split: renew_state.splits list.splits option.splits)
next
  case (Others now p)
  with assms show ?thesis by (intro same) (auto split: if_splits)
qed

lemma no_rerunD: "no_rerun w \<Longrightarrow> wk_runs w r = Some (j, ph) \<Longrightarrow> wk_runs w r' = Some (j', ph') \<Longrightarrow> ID j = ID j' \<Longrightarrow> r = r'"
  unfolding no_rerun_def by blast

lemma trackedD: "tracked w \<Longrightarrow> wk_runs w r = Some (j, ph) \<Longrightarrow> live ph \<Longrightarrow> map_of (wk_inFlight w) (ID j) = Some r"
  unfolding tracked_def by blast

lemma live_simps [simp]: "live Running" "live Reported" "\<not> live Starting" "\<not> live Untracked"
  by (simp_all add: live_def)

lemma tracked_step:
  assumes "tracked w" and "wexec s e w = Some w'" and "no_rerun w'"
  shows "tracked w'"
  unfolding tracked_def
proof (intro allI impI)
  fix r j ph
  assume r: "wk_runs w' r = Some (j, ph)" and live: "live ph"
  note only = no_rerunD [OF assms(3) r]
  show "map_of (wk_inFlight w') (ID j) = Some r"
    using assms(2)
  proof (cases rule: wexec_runs)
    case (track q k)
    then show ?thesis using r live only [of q k Running] trackedD [OF assms(1), of r j ph] by (auto split: if_splits)
  next
    case (report q k)
    then show ?thesis using r live trackedD [OF assms(1), of r j] by (auto split: if_splits)
  next
    case (untrack q k)
    then show ?thesis using r live only [of q k Untracked] trackedD [OF assms(1), of r j ph]
      by (auto simp: delete_conv' split: if_splits)
  qed (use r live trackedD [OF assms(1), of r j ph] in \<open>auto split: if_splits\<close>)
qed

lemma worker_reach_tracked: "worker_reach s no_rerun b w \<Longrightarrow> tracked w"
proof (induction rule: worker_reach.induct)
  case start
  show ?case by (simp add: tracked_def start_worker_def)
qed (rule tracked_step)

lemma extend_loop_owned:
  assumes "extend_loop now w vt ids lost b = (lost', b')" and "jobs b i = Some k" "State k = StateActive" "Owner k = w"
    and "i \<in> set ids \<or> Deadline k = now + vt \<and> map_of (active b) i = Some (now + vt)"
  shows "jobs b' i = Some (k\<lparr>Deadline := now + vt\<rparr>) \<and> map_of (active b') i = Some (now + vt)
    \<and> (i \<in> set lost' \<longrightarrow> i \<in> set lost)"
  using assms
proof (induction ids arbitrary: lost b k)
  case (Cons x ids)
  show ?case
  proof (cases "ownedActive w x b")
    case (Inl e)
    then have "x \<noteq> i" using Cons.prems(2-4) by (auto simp: ownedActive_def)
    with Cons.IH [of "lost @ [x]" b k] Cons.prems Inl show ?thesis by auto
  next
    case (Inr j)
    let ?b = "b\<lparr>jobs := (jobs b)(x \<mapsto> j\<lparr>Deadline := now + vt\<rparr>), active := AList.update x (now + vt) (active b)\<rparr>"
    have loop: "extend_loop now w vt ids lost ?b = (lost', b')" using Cons.prems(1) Inr by simp
    show ?thesis
    proof (cases "x = i")
      case True
      then have "j = k" using Inr Cons.prems(2) by (auto simp: ownedActive_def split: if_splits)
      with Cons.IH [OF loop, of "k\<lparr>Deadline := now + vt\<rparr>"] Cons.prems(3,4) True show ?thesis by simp
    next
      case False
      with Cons.IH [OF loop, of k] Cons.prems(2-5) show ?thesis by auto
    qed
  qed
qed auto

text \<open>
  C10. A healthy worker keeps its leases. As long as it is not handed a job that it is still running, every
  running handler is in the table: a round of the renewal loop on an open broker extends the lease of every
  running job that the worker still owns to a full visibility timeout from then, and cancels none of them.
\<close>

theorem renewal_covers_runs:
  assumes "server_wf s" and "worker_reach s no_rerun b w" and "wk_runs w r = Some (j, Running)" and "wk_renew w = Waiting"
    and "\<not> closed (wk_broker w)" and "jobs (wk_broker w) (ID j) = Some k" and "State k = StateActive"
    and "Owner k = cfg_WorkerID (sv_cfg s)"
  shows "\<exists>w1 w2 lost. wexec s RenewRead w = Some w1 \<and> wexec s (RenewExtend now) w1 = Some w2
    \<and> jobs (wk_broker w2) (ID j) = Some (k\<lparr>Deadline := now + cfg_VisibilityTimeout (sv_cfg s)\<rparr>)
    \<and> map_of (active (wk_broker w2)) (ID j) = Some (now + cfg_VisibilityTimeout (sv_cfg s))
    \<and> wk_renew w2 = Cancelling lost \<and> ID j \<notin> set lost"
proof -
  let ?vt = "cfg_VisibilityTimeout (sv_cfg s)" and ?id = "cfg_WorkerID (sv_cfg s)"
  have "map_of (wk_inFlight w) (ID j) = Some r" using trackedD [OF worker_reach_tracked [OF assms(2)] assms(3)] by simp
  then have mem: "ID j \<in> set (inFlightIDs w)" by (force simp: inFlightIDs_def dest: map_of_SomeD)
  obtain lost b' where loop: "extend_loop now ?id ?vt (inFlightIDs w) [] (wk_broker w) = (lost, b')" by fastforce
  have vt: "0 < ?vt" using assms(1) by (simp add: server_wf_def)
  have ext: "Extend now ?id (inFlightIDs w) ?vt (wk_broker w) = (Inr lost, b')"
    using loop vt assms(5) by (simp add: Extend_def checkOpen_def)
  have read: "wexec s RenewRead w = Some (w\<lparr>wk_renew := Extending (inFlightIDs w)\<rparr>)"
    using mem assms(4) by (auto simp: renew_read_def)
  have "wexec s (RenewExtend now) (w\<lparr>wk_renew := Extending (inFlightIDs w)\<rparr>)
      = Some (w\<lparr>wk_renew := Extending (inFlightIDs w), wk_broker := b', wk_renew := Cancelling lost, wk_failures := 0\<rparr>)"
    using ext by (simp add: renew_extend_def)
  with read extend_loop_owned [OF loop assms(6-8)] mem show ?thesis by auto
qed


lemma first_only_no_rerun: "worker_inv s w \<Longrightarrow> first_only w \<Longrightarrow> no_rerun w"
  by (auto simp: worker_inv_def first_only_def no_rerun_def) (metis domI less_Suc0 less_le_trans One_nat_def)

theorem renewal_covers_runs_witness:
  "\<exists>w1 w2. wexec worker_server RenewRead claim_worker = Some w1
    \<and> wexec worker_server (RenewExtend (10 * Second)) w1 = Some w2
    \<and> map_option Deadline (jobs (wk_broker w2) ''j'') = Some (10 * Second + 30 * Second)"
proof -
  have "0 < cfg_Concurrency (sv_cfg worker_server)" and vt: "cfg_VisibilityTimeout (sv_cfg worker_server) = 30 * Second"
    by code_simp+
  then have reach: "worker_reach worker_server no_rerun New claim_worker"
    using worker_reach_weaken [OF claim_worker_reach] first_only_no_rerun by blast
  have "map_option (map_prod ID id) (wk_runs claim_worker 0) = Some (''j'', Running)" by code_simp
  then obtain j where j: "wk_runs claim_worker 0 = Some (j, Running)" "ID j = ''j''" by auto
  have "map_option (\<lambda>k. (State k, Owner k)) (jobs (wk_broker claim_worker) ''j'')
      = Some (StateActive, cfg_WorkerID (sv_cfg worker_server))" by code_simp
  then obtain k where k: "jobs (wk_broker claim_worker) ''j'' = Some k" "State k = StateActive"
      "Owner k = cfg_WorkerID (sv_cfg worker_server)" by auto
  have "wk_renew claim_worker = Waiting" "\<not> closed (wk_broker claim_worker)" by code_simp+
  from renewal_covers_runs [OF worker_server_wf reach j(1) this, of k "10 * Second"] k j(2) vt show ?thesis
    by auto
qed

lemma extend_loop_other:
  "extend_loop now w vt ids lost b = (lost', b') \<Longrightarrow> i \<notin> set ids \<Longrightarrow> jobs b' i = jobs b i \<and> map_of (active b') i = map_of (active b) i
     \<and> (i \<in> set lost' \<longrightarrow> i \<in> set lost)"
  by (induction ids arbitrary: lost b) (fastforce split: sum.splits)+

text \<open>A round of the renewal loop does not touch a job that is not in the table.\<close>

lemma renewal_skips:
  assumes "i \<notin> set (inFlightIDs w)" and "wexec s RenewRead w = Some w1" and "wexec s (RenewExtend now) w1 = Some w2"
  shows "jobs (wk_broker w2) i = jobs (wk_broker w) i \<and> map_of (active (wk_broker w2)) i = map_of (active (wk_broker w)) i
    \<and> wk_runs w2 = wk_runs w \<and> (\<forall>ids. wk_renew w2 = Cancelling ids \<longrightarrow> i \<notin> set ids)"
proof -
  let ?id = "cfg_WorkerID (sv_cfg s)" and ?vt = "cfg_VisibilityTimeout (sv_cfg s)"
  obtain lost b' where loop: "extend_loop now ?id ?vt (inFlightIDs w) [] (wk_broker w) = (lost, b')" by fastforce
  have w1: "w1 = w\<lparr>wk_renew := Extending (inFlightIDs w)\<rparr>"
    using assms(2,3) by (auto simp: renew_read_def renew_extend_def split: if_splits)
  have "(wk_broker w2 = wk_broker w \<or> wk_broker w2 = b') \<and> wk_runs w2 = wk_runs w
    \<and> (\<forall>ids. wk_renew w2 = Cancelling ids \<longrightarrow> ids = inFlightIDs w \<or> ids = lost)"
    using assms(3) w1 loop by (auto simp: renew_extend_def Extend_def split: if_splits option.splits)
  with extend_loop_other [OF loop assms(1)] assms(1) show ?thesis by auto
qed

text \<open>
  C38. The exception is real. Suppose that a run has reported but not yet removed itself from the table, and that
  the same worker is already running the job again (its lease had expired, and the worker claimed it a second
  time). The removal is by job ID, so it also deletes the entry of the new run: that run goes on, but a round of
  the renewal loop leaves its job and its lease as they are and is not going to cancel it, so that the new run
  is neither renewed nor told to stop.
\<close>

theorem stale_run_not_renewed:
  assumes "wk_runs w r = Some (j, Reported)" and "wk_runs w r' = Some (j', Running)" and "ID j' = ID j"
  shows "\<exists>w0. wexec s (Untrack r) w = Some w0 \<and> wk_runs w0 r' = Some (j', Running) \<and> wk_broker w0 = wk_broker w
    \<and> (\<forall>w1 w2. wexec s RenewRead w0 = Some w1 \<longrightarrow> wexec s (RenewExtend now) w1 = Some w2 \<longrightarrow>
        wk_runs w2 r' = Some (j', Running) \<and> (\<forall>ids. wk_renew w2 = Cancelling ids \<longrightarrow> ID j' \<notin> set ids)
        \<and> jobs (wk_broker w2) (ID j') = jobs (wk_broker w) (ID j')
        \<and> map_of (active (wk_broker w2)) (ID j') = map_of (active (wk_broker w)) (ID j'))"
proof -
  let ?w0 = "set_phase r j Untracked ((untrackJob (ID j) w)\<lparr>wk_cancelled := List.insert r (wk_cancelled w)\<rparr>)"
  have gone: "ID j' \<notin> set (inFlightIDs ?w0)"
    using assms(3) by (auto simp: inFlightIDs_def set_phase_def untrackJob_def delete_keys)
  have r: "r' \<noteq> r" using assms(1,2) by auto
  show ?thesis
  proof (intro exI [of _ ?w0] conjI allI impI)
    show "wexec s (Untrack r) w = Some ?w0" using assms(1) by (simp add: run_untrack_def)
    show "wk_runs ?w0 r' = Some (j', Running)" "wk_broker ?w0 = wk_broker w" using assms(2) r by (simp_all add: set_phase_def untrackJob_def)
    fix w1 w2
    assume read: "wexec s RenewRead ?w0 = Some w1" and ext: "wexec s (RenewExtend now) w1 = Some w2"
    note skip = renewal_skips [OF gone read ext]
    show "wk_runs w2 r' = Some (j', Running)" using skip assms(2) r by (simp add: set_phase_def untrackJob_def)
    show "ID j' \<notin> set ids" if "wk_renew w2 = Cancelling ids" for ids using skip that by simp
    show "jobs (wk_broker w2) (ID j') = jobs (wk_broker w) (ID j')"
      "map_of (active (wk_broker w2)) (ID j') = map_of (active (wk_broker w)) (ID j')"
      using skip by (simp_all add: set_phase_def untrackJob_def)
  qed
qed

text \<open>A history that leads there: the lease of job \<^verbatim>\<open>j\<close> expires, the run reports late, the worker claims the job again.\<close>

definition stale_history :: "wevent list" where
  "stale_history = claim_history @ [Others (31 * Second) (OpReap [''low''] 100), Report (31 * Second) 0 (Returned None),
     Acquire, Ask (32 * Second) (\<lambda>_ _. 0), Track 1]"

definition stale_worker :: worker where
  "stale_worker = the (wrun worker_server (\<lambda>_. True) stale_history (start_worker New))"

theorem stale_run_not_renewed_witness:
  "worker_reach worker_server (\<lambda>_. True) New stale_worker
    \<and> map_option (\<lambda>k. (State k, Owner k)) (jobs (wk_broker stale_worker) ''j'') = Some (StateActive, cfg_WorkerID (sv_cfg worker_server))
    \<and> (\<exists>w0 j'. wexec worker_server (Untrack 0) stale_worker = Some w0 \<and> ID j' = ''j'' \<and> wk_runs w0 1 = Some (j', Running)
      \<and> (\<forall>w1 w2. wexec worker_server RenewRead w0 = Some w1 \<longrightarrow> wexec worker_server (RenewExtend (40 * Second)) w1 = Some w2 \<longrightarrow>
          map_of (active (wk_broker w2)) ''j'' = map_of (active (wk_broker stale_worker)) ''j''))"
proof (intro conjI)
  have "wrun worker_server (\<lambda>_. True) stale_history (start_worker New) \<noteq> None" by code_simp
  then show "worker_reach worker_server (\<lambda>_. True) New stale_worker"
    unfolding stale_worker_def by (intro wrun_reach [OF worker_reach.start]) simp
  show "map_option (\<lambda>k. (State k, Owner k)) (jobs (wk_broker stale_worker) ''j'') = Some (StateActive, cfg_WorkerID (sv_cfg worker_server))"
    by code_simp
  have "map_option (map_prod ID id) (wk_runs stale_worker 0) = Some (''j'', Reported)
      \<and> map_option (map_prod ID id) (wk_runs stale_worker 1) = Some (''j'', Running)" by code_simp
  then obtain j j' where "wk_runs stale_worker 0 = Some (j, Reported)" "wk_runs stale_worker 1 = Some (j', Running)"
      "ID j = ''j''" "ID j' = ''j''" by auto
  with stale_run_not_renewed [of stale_worker 0 j 1 j' worker_server "40 * Second"]
  show "\<exists>w0 j'. wexec worker_server (Untrack 0) stale_worker = Some w0 \<and> ID j' = ''j'' \<and> wk_runs w0 1 = Some (j', Running)
      \<and> (\<forall>w1 w2. wexec worker_server RenewRead w0 = Some w1 \<longrightarrow> wexec worker_server (RenewExtend (40 * Second)) w1 = Some w2 \<longrightarrow>
          map_of (active (wk_broker w2)) ''j'' = map_of (active (wk_broker stale_worker)) ''j'')"
    by metis
qed

section \<open>Reports\<close>

text \<open>What becomes of an active job \<open>k\<close>, in \<open>b\<close>, that is buried or sent to retry at \<open>at\<close>.\<close>

definition buried_as :: "broker \<Rightarrow> job \<Rightarrow> string \<Rightarrow> broker \<Rightarrow> bool" where
  "buried_as b k text b' \<longleftrightarrow> jobs b' = (jobs b)(ID k \<mapsto> k\<lparr>Owner := [], LastErr := text, State := StateDead\<rparr>) \<and> dead b' = dead b @ [ID k]"

definition retried_as :: "broker \<Rightarrow> job \<Rightarrow> string \<Rightarrow> time \<Rightarrow> broker \<Rightarrow> bool" where
  "retried_as b k text at b' \<longleftrightarrow> jobs b' = (jobs b)(ID k \<mapsto> k\<lparr>Owner := [], LastErr := text, State := StateRetry\<rparr>)
     \<and> map_of (retry b') (ID k) = Some at \<and> dead b' = dead b"

lemma report_cases:
  assumes "reachable b" and "\<not> closed b" and "jobs b (ID j) = Some k" and "State k = StateActive"
    and "Owner k = cfg_WorkerID (sv_cfg s)" and "cfg_Backoff (sv_cfg s) = Some backoff"
    and "backoff (word_of_int (Attempt j)) = Some delay"
  shows "\<exists>b'. report s now j None b = Some (None, b') \<and> jobs b' = (jobs b)(ID j := None) \<and> processed b' = processed b + 1"
    and "\<exists>b'. report s now j (Some (e, msg)) b = Some (None, b')
      \<and> (if errors_Is e ErrSkipRetry \<or> MaxAttempts k \<le> Attempt k then buried_as b k msg b' else retried_as b k msg (now + sint delay) b')"
proof -
  note out = owner_outcomes [OF assms(1-5)]
  have ID: "ID k = ID j" using job_ID [OF reachable_wf [OF assms(1)] assms(3)] .
  show "\<exists>b'. report s now j None b = Some (None, b') \<and> jobs b' = (jobs b)(ID j := None) \<and> processed b' = processed b + 1"
    using out [of 0 "[]"] by (cases "Ack (cfg_WorkerID (sv_cfg s)) (ID j) b") (simp add: report_def)
  show "\<exists>b'. report s now j (Some (e, msg)) b = Some (None, b')
      \<and> (if errors_Is e ErrSkipRetry \<or> MaxAttempts k \<le> Attempt k then buried_as b k msg b' else retried_as b k msg (now + sint delay) b')"
    using assms(6,7) out [of "now + sint delay" msg] ID
    by (cases "Nack (cfg_WorkerID (sv_cfg s)) (ID j) (now + sint delay) msg b";
        cases "Kill (cfg_WorkerID (sv_cfg s)) (ID j) msg b") (simp add: report_def buried_as_def retried_as_def split: if_splits)
qed

text \<open>
  C11. What a run makes of its job when its handler ends, on a reachable open broker where the worker still owns
  the job. When the handler returns nil the job is completed and counted. When it returns an error that
  wraps ErrSkipRetry the job is buried at once. Any other error, and a panic of the handler, sends the job to
  retry after exactly the delay that the backoff gives for its attempt, or buries it when its attempts are
  used up. The text of the error, or \<^verbatim>\<open>taskq: handler panicked:\<close> with the value of the panic, is kept on the job;
  in every case the run has then reported and nothing else about the runs changes.
\<close>

theorem report_outcome:
  assumes "wk_runs w r = Some (j, Running)" and "reachable (wk_broker w)" and "\<not> closed (wk_broker w)"
    and "jobs (wk_broker w) (ID j) = Some k" and "State k = StateActive"
    and "Owner k = cfg_WorkerID (sv_cfg s)" and "cfg_Backoff (sv_cfg s) = Some backoff"
    and "backoff (word_of_int (Attempt j)) = Some delay"
  shows "\<exists>w'. wexec s (Report now r ends) w = Some w' \<and> wk_runs w' = (wk_runs w)(r \<mapsto> (j, Reported)) \<and> (case ends of
      Returned None \<Rightarrow> jobs (wk_broker w') = (jobs (wk_broker w))(ID j := None) \<and> processed (wk_broker w') = processed (wk_broker w) + 1
    | Returned (Some (e, text)) \<Rightarrow>
        if errors_Is e ErrSkipRetry \<or> MaxAttempts k \<le> Attempt k then buried_as (wk_broker w) k text (wk_broker w')
        else retried_as (wk_broker w) k text (now + sint delay) (wk_broker w')
    | Panicked v \<Rightarrow>
        if MaxAttempts k \<le> Attempt k then buried_as (wk_broker w) k (''taskq: handler panicked: '' @ v) (wk_broker w')
        else retried_as (wk_broker w) k (''taskq: handler panicked: '' @ v) (now + sint delay) (wk_broker w'))"
proof -
  note out = report_cases [OF assms(2-8), of now]
  have step: "wexec s (Report now r ends) w = Some (set_phase r j Reported (w\<lparr>wk_broker := b'\<rparr>))"
    if "report s now j (invoke ends) (wk_broker w) = Some (None, b')" for b'
    using that assms(1) by (simp add: run_report_def)
  show ?thesis
  proof (cases ends)
    case (Returned err)
    show ?thesis
    proof (cases err)
      case None
      with out(1) step Returned show ?thesis by (auto simp: set_phase_def)
    next
      case (Some p)
      obtain e msg where "p = (e, msg)" by (cases p)
      with Some out(2) [of e msg] step Returned show ?thesis by (auto simp: set_phase_def)
    qed
  next
    case (Panicked v)
    with out(2) [of "Plain (''taskq: handler panicked: '' @ v)" "''taskq: handler panicked: '' @ v"] step show ?thesis
      by (auto simp: set_phase_def errors_Is_def)
  qed
qed

theorem report_outcome_witness:
  "\<exists>w' k. wexec worker_server (Report (3 * Second) 0 (Panicked ''boom'')) claim_worker = Some w'
    \<and> jobs (wk_broker w') ''j'' = Some k \<and> LastErr k = ''taskq: handler panicked: boom'' \<and> State k = StateRetry"
proof -
  let ?b = "wk_broker claim_worker"
  have "map_option (\<lambda>k. (ID k, State k, Owner k, MaxAttempts k \<le> Attempt k)) (jobs ?b ''j'')
      = Some (''j'', StateActive, cfg_WorkerID (sv_cfg worker_server), False)" by code_simp
  then obtain k where k: "jobs ?b ''j'' = Some k" "ID k = ''j''" "State k = StateActive"
      "Owner k = cfg_WorkerID (sv_cfg worker_server)" "\<not> MaxAttempts k \<le> Attempt k" by auto
  have "map_option (\<lambda>(j, ph). (ID j, Attempt j, ph)) (wk_runs claim_worker 0) = Some (''j'', 1, Running)" by code_simp
  then obtain j where j: "wk_runs claim_worker 0 = Some (j, Running)" "ID j = ''j''" "Attempt j = 1" by auto
  have open_b: "\<not> closed ?b" by code_simp
  have "map_option (\<lambda>f. f (word_of_int 1)) (cfg_Backoff (sv_cfg worker_server)) = Some (Some 0)" by code_simp
  then obtain f where f: "cfg_Backoff (sv_cfg worker_server) = Some f" "f (word_of_int (Attempt j)) = Some 0" using j(3) by auto
  have re: "reachable ?b" using worker_reach_broker [OF claim_worker_reach reachable_New] .
  have k': "jobs ?b (ID j) = Some k" using k j by simp
  from report_outcome [OF j(1) re open_b k' k(3,4) f, of "3 * Second" "Panicked ''boom''"] k show ?thesis
    by (auto simp: retried_as_def)
qed

end
