(* ===== verification/Memory_Coordination.thy ===== *)
theory Memory_Coordination
  imports Memory_Example
begin

text \<open>
  The parts of the in-process broker that coordinate its clients: unique keys, leases and the cron store.
  Each is a promise over whole runs: whatever other operations happen in between, a unique key admits one
  job per TTL, a lease has one holder, a cron tick has one winner.
\<close>

section \<open>What the job operations leave alone\<close>

definition aux :: "broker \<Rightarrow> bool \<times> (string \<rightharpoonup> uniqueEntry) \<times> (string \<rightharpoonup> leaseEntry) \<times> (string \<times> time) list" where
  "aux b = (closed b, unique b, leases b, cron b)"

lemma aux_dequeue_loop: "aux (snd (dequeue_loop now opts qs b)) = aux b"
proof (induction qs arbitrary: b)
  case (Cons q qs)
  then show ?case
    by (auto simp: Let_def aux_def split: list.splits option.splits)
qed simp

lemma aux_extend_loop: "aux (snd (extend_loop now w vt ids lost b)) = aux b"
proof (induction ids arbitrary: lost b)
  case (Cons i ids)
  then show ?case by (auto simp: aux_def split: sum.splits)
qed simp

lemma aux_reap_loop: "aux (snd (reap_loop limit cs n b)) = aux b"
proof (induction cs arbitrary: n b)
  case (Cons c cs)
  have "aux (reap_one c b) = aux b"
    by (simp add: aux_def reap_one_def moveToDeadLocked_def Let_def split: option.splits)
  with Cons show ?case by auto
qed simp

lemma aux_delete_from [simp]: "aux (delete_from w i b) = aux b"
  by (cases w) (simp_all add: aux_def)

lemma aux_promote_loop: "aux (snd (promote_loop limit cs n b)) = aux b"
proof (induction cs arbitrary: n b)
  case (Cons c cs)
  have "aux (promote_job w i j b) = aux b" for w i j
    by (cases w) (simp_all add: aux_def promote_job_def Let_def)
  with Cons show ?case by (cases c) (auto split: option.splits)
qed simp

lemma aux_retry_dead_loop: "aux (snd (retry_dead_loop ids n b)) = aux b"
proof (induction ids arbitrary: n b)
  case (Cons i ids)
  then show ?case by (auto simp: Let_def aux_def removeDeadLocked_def split: option.splits)
qed simp

lemma aux_purge_dead_loop: "aux (snd (purge_dead_loop ids n b)) = aux b"
proof (induction ids arbitrary: n b)
  case (Cons i ids)
  then show ?case by (auto simp: aux_def removeDeadLocked_def split: option.splits)
qed simp

lemmas aux_loops = aux_dequeue_loop aux_extend_loop aux_reap_loop aux_promote_loop aux_retry_dead_loop
  aux_purge_dead_loop

lemma aux_job_operations:
  "aux (snd (Dequeue now opts b)) = aux b" "aux (snd (Ack w i b)) = aux b" "aux (snd (Nack w i at r b)) = aux b"
  "aux (snd (Kill w i r b)) = aux b" "aux (snd (Extend now w ids vt b)) = aux b"
  "aux (snd (Reap now qs limit b)) = aux b" "aux (snd (Promote now limit b)) = aux b"
  "aux (snd (RetryDead ids b)) = aux b" "aux (snd (PurgeDead ids b)) = aux b"
  "aux (snd (Heartbeat now wi ttl b)) = aux b"
proof -
  show "aux (snd (Dequeue now opts b)) = aux b"
    by (simp add: Dequeue_def aux_loops split: option.splits)
  show "aux (snd (Ack w i b)) = aux b" "aux (snd (Nack w i at r b)) = aux b" "aux (snd (Kill w i r b)) = aux b"
    by (simp_all add: Ack_def Nack_def Kill_def moveToDeadLocked_def aux_def Let_def split: option.splits sum.splits)
  show "aux (snd (Extend now w ids vt b)) = aux b"
    using aux_extend_loop [of now w vt ids "[]" b] by (auto simp: Extend_def split: option.splits prod.splits)
  show "aux (snd (Reap now qs limit b)) = aux b"
    using aux_reap_loop [of limit "sort (reap_candidates now qs b)" 0 b]
    by (auto simp: Reap_def split: option.splits prod.splits)
  show "aux (snd (Promote now limit b)) = aux b"
    using aux_promote_loop [of limit "sort_key fst (promote_candidates now b)" 0 b]
    by (auto simp: Promote_def split: option.splits prod.splits)
  show "aux (snd (RetryDead ids b)) = aux b"
    using aux_retry_dead_loop [of "selectDeadLocked ids b" 0 b]
    by (auto simp: RetryDead_def split: option.splits prod.splits)
  show "aux (snd (PurgeDead ids b)) = aux b"
    using aux_purge_dead_loop [of "selectDeadLocked ids b" 0 b]
    by (auto simp: PurgeDead_def split: option.splits prod.splits)
  show "aux (snd (Heartbeat now wi ttl b)) = aux b"
    by (simp add: Heartbeat_def aux_def split: option.splits)
qed

lemmas aux_fields = aux_job_operations [unfolded aux_def prod.inject]

section \<open>Unique keys\<close>

definition unique_ttl :: "job \<Rightarrow> duration" where
  "unique_ttl j = (if UniqueTTL j \<le> 0 then Hour else UniqueTTL j)"

lemma enqueue_store_unique:
  "closed (enqueue_store now j b) = closed b"
  "unique (enqueue_store now j b) = (if UniqueKey j \<noteq> []
     then (unique b)(UniqueKey j \<mapsto> \<lparr>u_jobID = ID j, u_expiresAt = now + unique_ttl j\<rparr>) else unique b)"
  "leases (enqueue_store now j b) = leases b" "cron (enqueue_store now j b) = cron b"
  by (simp_all add: enqueue_store_def Let_def unique_ttl_def)

lemma enqueue_defaults_key [simp]:
  "UniqueKey (enqueue_defaults newID now j) = UniqueKey j"
  "UniqueTTL (enqueue_defaults newID now j) = UniqueTTL j"
  by (simp_all add: enqueue_defaults_def Let_def)

lemma exec_keeps_unique:
  assumes "unique b k = Some e" and "now < u_expiresAt e"
  shows "unique (exec (now, p) b) k = Some e"
proof (cases p)
  case (OpEnqueue newID j)
  with assms show ?thesis
    by (auto simp: Enqueue_def unique_holder_def Let_def enqueue_store_unique split: option.splits)
qed (use assms in \<open>simp_all add: aux_fields AcquireLease_def ReleaseLease_def ScheduleCronIfAbsent_def ClaimCron_def
    RemoveCron_def Close_def split: option.splits\<close>)

lemma exec_keeps_open: "\<not> closed b \<Longrightarrow> p \<noteq> OpClose \<Longrightarrow> \<not> closed (exec (now, p) b)"
proof (cases p)
  case (OpEnqueue newID j)
  assume "\<not> closed b"
  then show ?thesis using OpEnqueue
    by (auto simp: Enqueue_def Let_def enqueue_store_unique split: option.splits)
qed (simp_all add: aux_fields AcquireLease_def ReleaseLease_def ScheduleCronIfAbsent_def ClaimCron_def
    RemoveCron_def split: option.splits)

lemma run_keeps_unique:
  "unique b k = Some e \<Longrightarrow> \<not> closed b \<Longrightarrow> \<forall>(t, p) \<in> set ops. t < u_expiresAt e \<and> p \<noteq> OpClose \<Longrightarrow>
     unique (run exec ops b) k = Some e \<and> \<not> closed (run exec ops b)"
proof (induction ops arbitrary: b)
  case (Cons tp ops)
  obtain t p where "tp = (t, p)" by (cases tp)
  with Cons show ?case by (simp add: exec_keeps_unique exec_keeps_open)
qed simp

text \<open>
  C24. Unique keys: once Enqueue has accepted a job with a unique key, every later Enqueue of a job with that
  key before the TTL has run out (one hour where none is given) is refused with a DuplicateError that
  names the key and the ID of the accepted job, and leaves the broker as it is, whatever operations
  happen in between, even when the first job has long been completed or buried.
\<close>

theorem unique_key_excludes:
  assumes "Enqueue newID t (Some j) b = (None, Some j', b1)" and "UniqueKey j \<noteq> []"
    and "\<forall>(u, p) \<in> set ops. u < t + unique_ttl j \<and> p \<noteq> OpClose"
    and "UniqueKey k = UniqueKey j" and "Queue k \<noteq> []" and "Type k \<noteq> []" and "u < t + unique_ttl j"
  shows "Enqueue newID' u (Some k) (run exec ops b1)
    = (Some (DuplicateError (UniqueKey j) (ID j')), Some k, run exec ops b1)"
proof -
  let ?e = "\<lparr>u_jobID = ID j', u_expiresAt = t + unique_ttl j\<rparr>"
  from assms(1,2) have "unique b1 (UniqueKey j) = Some ?e" "\<not> closed b1"
    by (auto simp: Enqueue_def checkOpen_def Let_def enqueue_store_unique unique_ttl_def
        split: if_splits option.splits)
  with run_keeps_unique [of b1 "UniqueKey j" ?e ops] assms(3)
  have "unique (run exec ops b1) (UniqueKey j) = Some ?e" "\<not> closed (run exec ops b1)" by auto
  with assms(2,4-7) show ?thesis by (simp add: Enqueue_def checkOpen_def unique_holder_def)
qed

theorem unique_key_excludes_witness:
  "let j = (example_job ''x'' 0)\<lparr>UniqueKey := ''k''\<rparr>;
       b1 = run exec [(20, OpDequeue (example_claim ''w1'')), (21, OpAck ''w1'' ''x'')] (snd (snd (Enqueue ''n'' 10 (Some j) New)))
   in jobs b1 ''x'' = None
      \<and> Enqueue ''n'' 30 (Some (j\<lparr>ID := ''y''\<rparr>)) b1 = (Some (DuplicateError ''k'' ''x''), Some (j\<lparr>ID := ''y''\<rparr>), b1)"
proof -
  let ?j = "(example_job ''x'' 0)\<lparr>UniqueKey := ''k''\<rparr>"
  let ?ops = "[(20, OpDequeue (example_claim ''w1'')), (21, OpAck ''w1'' ''x'')]"
  have 1: "Enqueue ''n'' 10 (Some ?j) New = (None, Some (?j\<lparr>EnqueuedAt := 10\<rparr>), snd (snd (Enqueue ''n'' 10 (Some ?j) New)))"
    by (simp add: Enqueue_def example_job_def zero_job_def checkOpen_def New_def unique_holder_def enqueue_defaults_def Let_def)
  have 2: "UniqueKey ?j = ''k''" "Queue ?j = ''q''" "Type ?j = ''t''" "ID ?j = ''x''" "unique_ttl ?j = Hour" by code_simp+
  have "jobs (run exec ?ops (snd (snd (Enqueue ''n'' 10 (Some ?j) New)))) ''x'' = None" by code_simp
  with unique_key_excludes [OF 1, of ?ops "?j\<lparr>ID := ''y''\<rparr>" 30 "''n''"] 2 show ?thesis
    by (simp add: Let_def)
qed

section \<open>Leases\<close>

definition held_until :: "string \<Rightarrow> string \<Rightarrow> time \<Rightarrow> broker \<Rightarrow> bool" where
  "held_until name w till b \<longleftrightarrow> (\<exists>e. leases b name = Some e \<and> l_owner e = w \<and> till \<le> l_expiresAt e)"

text \<open>What the holder can do to lose the lease before \<open>till\<close>: release it, or renew it for too short a time.\<close>

definition gives_up :: "string \<Rightarrow> string \<Rightarrow> time \<Rightarrow> time \<times> op \<Rightarrow> bool" where
  "gives_up name w till p \<longleftrightarrow> snd p = OpReleaseLease name w \<or> (\<exists>ttl. snd p = OpAcquireLease name w ttl \<and> fst p + ttl < till)"

lemma exec_keeps_lease:
  assumes "held_until name w till b" and "now < till" and "\<not> gives_up name w till (now, p)"
  shows "held_until name w till (exec (now, p) b)"
proof -
  from assms(1) obtain e where e: "leases b name = Some e" "l_owner e = w" "till \<le> l_expiresAt e" by (auto simp: held_until_def)
  show ?thesis
  proof (cases p)
    case (OpEnqueue newID j)
    with e show ?thesis by (auto simp: held_until_def Enqueue_def Let_def enqueue_store_unique split: option.splits)
  next
    case (OpAcquireLease name' w' ttl)
    with e assms(2,3) show ?thesis by (auto simp: held_until_def AcquireLease_def gives_up_def split: option.splits)
  next
    case (OpReleaseLease name' w')
    with e assms(2,3) show ?thesis by (auto simp: held_until_def ReleaseLease_def gives_up_def split: option.splits)
  qed (use e in \<open>simp_all add: held_until_def aux_fields ScheduleCronIfAbsent_def ClaimCron_def RemoveCron_def Close_def split: option.splits\<close>)
qed

lemma run_keeps_lease:
  "held_until name w till b \<Longrightarrow> \<not> closed b \<Longrightarrow> \<forall>(t, p) \<in> set ops. t < till \<and> p \<noteq> OpClose \<and> \<not> gives_up name w till (t, p) \<Longrightarrow>
     held_until name w till (run exec ops b) \<and> \<not> closed (run exec ops b)"
proof (induction ops arbitrary: b)
  case (Cons tp ops)
  obtain t p where "tp = (t, p)" by (cases tp)
  with Cons show ?case by (simp add: exec_keeps_lease exec_keeps_open)
qed simp

text \<open>
  C25. Leases are exclusive: after AcquireLease has granted a lease to a worker, and until it expires, every
  attempt of another worker to acquire it returns false and changes nothing. In between anything may happen
  on the open broker, renewals by the holder and releases by other workers included, except that the holder
  itself gives the lease up, by releasing it or by renewing it for less than the time that was left.
\<close>

theorem lease_exclusive:
  assumes "AcquireLease t name w ttl b = (Inr True, b1)"
    and "\<forall>(u, p) \<in> set ops. u < t + ttl \<and> p \<noteq> OpClose \<and> p \<noteq> OpReleaseLease name w
      \<and> (\<forall>d. p = OpAcquireLease name w d \<longrightarrow> t + ttl \<le> u + d)"
    and "w' \<noteq> w" and "w' \<noteq> []" and "0 < ttl'" and "u < t + ttl"
  shows "AcquireLease u name w' ttl' (run exec ops b1) = (Inr False, run exec ops b1)"
proof -
  from assms(1) have "held_until name w (t + ttl) b1" "\<not> closed b1" "name \<noteq> []"
    by (auto simp: AcquireLease_def checkOpen_def held_until_def split: if_splits option.splits)
  moreover have "\<forall>(u, p) \<in> set ops. u < t + ttl \<and> p \<noteq> OpClose \<and> \<not> gives_up name w (t + ttl) (u, p)"
    using assms(2) by (fastforce simp: gives_up_def)
  ultimately have "held_until name w (t + ttl) (run exec ops b1)" "\<not> closed (run exec ops b1)" "name \<noteq> []"
    using run_keeps_lease [of name w "t + ttl" b1 ops] by auto
  with assms(3-6) show ?thesis by (auto simp: AcquireLease_def checkOpen_def held_until_def)
qed

theorem lease_exclusive_witness:
  "let b1 = run exec [(12, OpReleaseLease ''l'' ''w2''), (15, OpAcquireLease ''l'' ''w1'' 20)] (snd (AcquireLease 10 ''l'' ''w1'' 20 New))
   in AcquireLease 29 ''l'' ''w2'' 20 b1 = (Inr False, b1)"
proof -
  have "AcquireLease 10 ''l'' ''w1'' 20 New = (Inr True, snd (AcquireLease 10 ''l'' ''w1'' 20 New))"
    by (simp add: AcquireLease_def checkOpen_def New_def)
  from lease_exclusive [OF this, of "[(12, OpReleaseLease ''l'' ''w2''), (15, OpAcquireLease ''l'' ''w1'' 20)]" "''w2''" 20 29] show ?thesis
    by simp
qed

section \<open>Cron ticks\<close>

text \<open>The number of calls in a run that claim tick \<open>at\<close> of entry \<open>i\<close> and are told that they won.\<close>

fun cron_wins :: "string \<Rightarrow> time \<Rightarrow> (time \<times> op) list \<Rightarrow> broker \<Rightarrow> nat" where
  "cron_wins i at [] b = 0"
| "cron_wins i at ((t, p) # ops) b =
     (case p of
        OpClaimCron k at' nx \<Rightarrow> if k = i \<and> at' = at \<and> fst (ClaimCron k at' nx b) = Inr True then 1 else 0
      | _ \<Rightarrow> 0)
     + cron_wins i at ops (exec (t, p) b)"

definition advances :: "string \<Rightarrow> op \<Rightarrow> bool" where
  "advances i p \<longleftrightarrow> (\<forall>at nx. p = OpClaimCron i at nx \<longrightarrow> at < nx) \<and> p \<noteq> OpRemoveCron i"

lemma exec_cron:
  assumes "map_of (cron b) i = Some at" and "advances i p"
  shows "\<exists>at'. map_of (cron (exec (now, p) b)) i = Some at' \<and> at \<le> at'
    \<and> (\<forall>nx. p = OpClaimCron i at nx \<and> fst (ClaimCron i at nx b) = Inr True \<longrightarrow> at < at')"
proof (cases p)
  case (OpEnqueue newID j)
  with assms show ?thesis
    by (auto simp: Enqueue_def Let_def enqueue_store_unique split: option.splits)
next
  case (OpScheduleCron k at')
  with assms show ?thesis by (auto simp: ScheduleCronIfAbsent_def split: option.splits)
next
  case (OpClaimCron k at' nx)
  with assms show ?thesis by (auto simp: ClaimCron_def advances_def split: option.splits)
next
  case (OpRemoveCron k)
  with assms show ?thesis by (auto simp: RemoveCron_def advances_def split: option.splits)
qed (use assms in \<open>simp_all add: aux_fields AcquireLease_def ReleaseLease_def Close_def split: option.splits\<close>)

lemma cron_wins_past:
  "map_of (cron b) i = Some at' \<Longrightarrow> at < at' \<Longrightarrow> \<forall>(t, p) \<in> set ops. advances i p \<Longrightarrow> cron_wins i at ops b = 0"
proof (induction ops arbitrary: b at')
  case (Cons tp ops)
  obtain t p where tp: "tp = (t, p)" by (cases tp)
  with Cons.prems obtain at'' where "map_of (cron (exec (t, p) b)) i = Some at''" "at < at''"
    using exec_cron [of b i at' p t] by force
  then have "cron_wins i at ops (exec (t, p) b) = 0" using Cons.IH Cons.prems(3) by auto
  moreover have "fst (ClaimCron i at nx b) \<noteq> Inr True" for nx
    using Cons.prems(1,2) by (simp add: ClaimCron_def split: option.splits)
  ultimately show ?case using tp by (auto split: op.splits)
qed simp

text \<open>
  C26. A cron tick fires once: when any number of schedulers race to claim the ticks of an entry, each
  advancing it to a later instant, at most one claim of any given tick wins; if the tick is the entry's
  current one and the broker is open, the first claim of it does win.
\<close>

theorem cron_tick_claimed_once:
  assumes "map_of (cron b) i = Some at" and "\<forall>(t, p) \<in> set ops. advances i p"
  shows "cron_wins i at ops b \<le> 1 \<and> (\<not> closed b \<longrightarrow> fst (ClaimCron i at nx b) = Inr True)"
proof (intro conjI impI)
  assume "\<not> closed b"
  then show "fst (ClaimCron i at nx b) = Inr True" using assms(1) by (simp add: ClaimCron_def checkOpen_def)
next
  show "cron_wins i at ops b \<le> 1" using assms
  proof (induction ops arbitrary: b)
    case (Cons tp ops)
    obtain t p where tp: "tp = (t, p)" by (cases tp)
    with Cons.prems obtain at' where at': "map_of (cron (exec (t, p) b)) i = Some at'" "at \<le> at'"
      "\<forall>nx. p = OpClaimCron i at nx \<and> fst (ClaimCron i at nx b) = Inr True \<longrightarrow> at < at'"
      using exec_cron [of b i at p t] by force
    show ?case
    proof (cases "at < at'")
      case True
      then have "cron_wins i at ops (exec (t, p) b) = 0"
        using cron_wins_past [OF at'(1), of at ops] Cons.prems(2) by simp
      then show ?thesis using tp by (simp split: op.splits)
    next
      case False
      then have "cron_wins i at ops (exec (t, p) b) \<le> 1" using at'(1,2) Cons.IH Cons.prems(2) by simp
      with False at'(3) tp show ?thesis by (auto split: op.splits)
    qed
  qed simp
qed

theorem cron_tick_claimed_once_witness:
  "let b = snd (ScheduleCronIfAbsent ''c'' 60 New); ops = [(61, OpClaimCron ''c'' 60 120), (61, OpClaimCron ''c'' 60 121)]
   in fst (ClaimCron ''c'' 60 120 b) = Inr True \<and> cron_wins ''c'' 60 ops b \<le> 1"
proof -
  have "map_of (cron (snd (ScheduleCronIfAbsent ''c'' 60 New))) ''c'' = Some 60"
    "\<not> closed (snd (ScheduleCronIfAbsent ''c'' 60 New))"
    by code_simp+
  with cron_tick_claimed_once [of "snd (ScheduleCronIfAbsent ''c'' 60 New)" "''c''" 60
      "[(61, OpClaimCron ''c'' 60 120), (61, OpClaimCron ''c'' 60 121)]" 120]
  show ?thesis by (simp add: advances_def Let_def del: cron_wins.simps)
qed

end
