(* ===== verification/Scheduler.thy ===== *)
theory Scheduler
  imports Server Memory_Coordination
begin

text \<open>
  The leader-elected cron scheduler, src/scheduler.go, over the in-process broker. A pass makes several
  broker calls; other clients can act between any two of them, which \<open>tick_fires_once\<close> allows for.
  \<open>supply k\<close> gives what entry number \<open>k\<close> of a pass reads: \<^verbatim>\<open>time.Now()\<close>, the broker's clock during Enqueue and
  the ID from \<^verbatim>\<open>NewID\<close>. The entries of a server are a Go map, which \<^verbatim>\<open>seedSchedules\<close> ranges over, so they are
  an association list in some order. Logging is not modelled.
\<close>

section \<open>Operations\<close>

fun seed_loop :: "time \<Rightarrow> (string \<times> compiledEntry) list \<Rightarrow> broker \<Rightarrow> error option \<times> broker" where
  "seed_loop now [] b = (None, b)"
| "seed_loop now ((i, ce) # es) b =
     (let next = Schedule_Next (schedule ce) now
      in if next = 0 then seed_loop now es b
         else case ScheduleCronIfAbsent i next b of
             (Inl err, b') \<Rightarrow> (Some err, b')
           | (Inr _, b') \<Rightarrow> seed_loop now es b')"

definition seedSchedules :: "server \<Rightarrow> time \<Rightarrow> broker \<Rightarrow> error option \<times> broker" where
  "seedSchedules s now b = seed_loop now (sv_entries s) b"

definition cron_job :: "compiledEntry \<Rightarrow> due_entry \<Rightarrow> job" where
  "cron_job ce d = zero_job\<lparr>Queue := ce_Queue (entry ce), Type := ce_Type (entry ce), Payload := ce_Payload (entry ce),
     MaxAttempts := ce_MaxAttempts (entry ce), UniqueKey := cronUniqueKey (due_id d) (due_at d), UniqueTTL := cronUniqueTTL\<rparr>"

definition fire_next :: "compiledEntry \<Rightarrow> time \<Rightarrow> due_entry \<Rightarrow> time" where
  "fire_next ce now d = (let base = (if now < due_at d then due_at d else now) in Schedule_Next (schedule ce) base)"

definition fire_one :: "server \<Rightarrow> time \<times> time \<times> string \<Rightarrow> due_entry \<Rightarrow> broker \<Rightarrow> broker" where
  "fire_one s reads d b = (case reads of (now, clock, newID) \<Rightarrow>
     (case map_of (sv_entries s) (due_id d) of
        None \<Rightarrow> b
      | Some ce \<Rightarrow>
          (let next = fire_next ce now d
           in if next = 0 then b
              else case Enqueue newID clock (Some (cron_job ce d)) b of
                  (e, _, b1) \<Rightarrow>
                    if (case e of None \<Rightarrow> False | Some err \<Rightarrow> \<not> errors_Is err ErrDuplicate) then b1
                    else snd (ClaimCron (due_id d) (due_at d) next b1))))"

fun fire_loop :: "server \<Rightarrow> (nat \<Rightarrow> time \<times> time \<times> string) \<Rightarrow> nat \<Rightarrow> due_entry list \<Rightarrow> broker \<Rightarrow> broker" where
  "fire_loop s supply k [] b = b"
| "fire_loop s supply k (d # ds) b = fire_loop s supply (k + 1) ds (fire_one s (supply k) d b)"

definition fireDueSchedules :: "server \<Rightarrow> time \<Rightarrow> (nat \<Rightarrow> time \<times> time \<times> string) \<Rightarrow> broker \<Rightarrow> broker" where
  "fireDueSchedules s now supply b = (case DueCron now cronBatch b of
       Inl _ \<Rightarrow> b
     | Inr due \<Rightarrow> fire_loop s supply 0 due b)"

text \<open>One round of the loop after its sleep, with the leader flag; \<open>now\<close> and \<open>now'\<close> are the broker's clock in its calls.\<close>

definition scheduler_pass :: "server \<Rightarrow> time \<Rightarrow> time \<Rightarrow> (nat \<Rightarrow> time \<times> time \<times> string) \<Rightarrow> bool \<times> broker \<Rightarrow> bool \<times> broker" where
  "scheduler_pass s now now' supply lb =
     (case AcquireLease now schedulerLease (cfg_WorkerID (sv_cfg s)) (schedulerLeaseTTL s) (snd lb) of
        (Inl _, b) \<Rightarrow> (fst lb, b)
      | (Inr held, b) \<Rightarrow> (held, if held then fireDueSchedules s now' supply b else b))"

text \<open>The deferred release on the way out.\<close>

definition scheduler_exit :: "server \<Rightarrow> bool \<times> broker \<Rightarrow> bool \<times> broker" where
  "scheduler_exit s lb =
     (if \<not> fst lb then lb else (False, snd (ReleaseLease schedulerLease (cfg_WorkerID (sv_cfg s)) (snd lb))))"

section \<open>One job per tick\<close>

lemma cron_job_fields:
  "UniqueKey (cron_job ce d) = cronUniqueKey (due_id d) (due_at d)" "UniqueKey (cron_job ce d) \<noteq> []"
  "UniqueTTL (cron_job ce d) = cronUniqueTTL" "unique_ttl (cron_job ce d) = cronUniqueTTL"
  "Queue (cron_job ce d) = ce_Queue (entry ce)" "Type (cron_job ce d) = ce_Type (entry ce)"
  by (simp_all add: cron_job_def cronUniqueKey_def unique_ttl_def cronUniqueTTL_def)

lemma server_wf_entry:
  assumes "server_wf s" and "map_of (sv_entries s) i = Some ce"
  shows "ce_Queue (entry ce) \<noteq> []" "ce_Type (entry ce) \<noteq> []"
  using assms unfolding server_wf_def by blast+

text \<open>On an open broker Enqueue of a tick either stores the job or finds the tick's key held.\<close>

lemma fire_enqueue:
  assumes "server_wf s" and "map_of (sv_entries s) (due_id d) = Some ce" and "\<not> closed b"
  shows "(case unique_holder clock (cronUniqueKey (due_id d) (due_at d)) b of
      Some h \<Rightarrow> Enqueue newID clock (Some (cron_job ce d)) b
        = (Some (DuplicateError (cronUniqueKey (due_id d) (due_at d)) h), Some (cron_job ce d), b)
    | None \<Rightarrow> Enqueue newID clock (Some (cron_job ce d)) b
        = (None, Some (enqueue_defaults newID clock (cron_job ce d)), enqueue_store clock (enqueue_defaults newID clock (cron_job ce d)) b))"
  using server_wf_entry [OF assms(1,2)] assms(3) cron_job_fields [of ce d]
  by (auto simp: Enqueue_def checkOpen_def Let_def split: option.splits)

text \<open>
  C12. One job per tick, even when schedulers crash or overlap. Once any scheduler has enqueued the job of a
  tick, then whatever happens to it before it claims the tick, and whatever other operations follow, a
  scheduler that fires the same tick within the five minutes of its unique key adds no job: it changes
  nothing but the cron table, where it advances the tick if nobody has yet.
\<close>

theorem tick_fires_once:
  assumes "Enqueue n t (Some (cron_job ce0 d)) b = (None, Some j, b1)"
    and "\<forall>(u, p) \<in> set ops. u < t + cronUniqueTTL \<and> p \<noteq> OpClose" and "clock < t + cronUniqueTTL"
    and "server_wf s" and "map_of (sv_entries s) (due_id d) = Some ce" and "fire_next ce now d \<noteq> 0"
  shows "fire_one s (now, clock, n') d (run exec ops b1)
    = (if map_of (cron (run exec ops b1)) (due_id d) = Some (due_at d)
       then (run exec ops b1)\<lparr>cron := AList.update (due_id d) (fire_next ce now d) (cron (run exec ops b1))\<rparr>
       else run exec ops b1)"
proof -
  let ?b = "run exec ops b1" and ?key = "cronUniqueKey (due_id d) (due_at d)"
  let ?e = "\<lparr>u_jobID = ID j, u_expiresAt = t + cronUniqueTTL\<rparr>"
  from assms(1) have "unique b1 ?key = Some ?e" "\<not> closed b1" using cron_job_fields [of ce0 d]
    by (auto simp: Enqueue_def checkOpen_def Let_def enqueue_store_unique unique_ttl_def split: if_splits option.splits)
  with run_keeps_unique [of b1 ?key ?e ops] assms(2) have key: "unique ?b ?key = Some ?e" and op: "\<not> closed ?b" by auto
  then have "unique_holder clock ?key ?b = Some (ID j)" using assms(3) by (simp add: unique_holder_def)
  with fire_enqueue [OF assms(4,5) op , of n' clock]
  have "Enqueue n' clock (Some (cron_job ce d)) ?b = (Some (DuplicateError ?key (ID j)), Some (cron_job ce d), ?b)" by simp
  with assms(5,6) op show ?thesis
    by (auto simp: fire_one_def Let_def errors_Is_def ClaimCron_def checkOpen_def split: option.splits)
qed

section \<open>Every due tick is fired\<close>

lemma fire_one_keeps:
  assumes "server_wf s" and "\<not> closed b"
  shows "\<not> closed (fire_one s (now, clock, n) d b)"
    and "i \<noteq> due_id d \<Longrightarrow> map_of (cron (fire_one s (now, clock, n) d b)) i = map_of (cron b) i"
    and "k \<noteq> cronUniqueKey (due_id d) (due_at d) \<Longrightarrow> unique (fire_one s (now, clock, n) d b) k = unique b k"
    and "i \<noteq> n \<Longrightarrow> jobs (fire_one s (now, clock, n) d b) i = jobs b i"
proof -
  let ?b = "fire_one s (now, clock, n) d b"
  note defs = fire_one_def Let_def ClaimCron_def enqueue_store_unique errors_Is_def checkOpen_def cron_job_fields
  consider "?b = b" | ce where "map_of (sv_entries s) (due_id d) = Some ce" by (cases "map_of (sv_entries s) (due_id d)") (auto simp: defs)
  then have "\<not> closed ?b \<and> (i \<noteq> due_id d \<longrightarrow> map_of (cron ?b) i = map_of (cron b) i)
    \<and> (k \<noteq> cronUniqueKey (due_id d) (due_at d) \<longrightarrow> unique ?b k = unique b k) \<and> (i \<noteq> n \<longrightarrow> jobs ?b i = jobs b i)"
  proof cases
    case 2
    have "ID (enqueue_defaults n clock (cron_job ce d)) = n" by (simp add: enqueue_defaults_def Let_def cron_job_def zero_job_def)
    then have jobs: "i \<noteq> n \<Longrightarrow> jobs (enqueue_store clock (enqueue_defaults n clock (cron_job ce d)) b) i = jobs b i"
      by (simp add: enqueue_store_def Let_def)
    from 2 fire_enqueue [OF assms(1) 2 assms(2), of n clock] assms(2) jobs show ?thesis
      by (cases "unique_holder clock (cronUniqueKey (due_id d) (due_at d)) b") (auto simp: defs split: option.splits)
  qed (use assms(2) in simp)
  then show "\<not> closed ?b" "i \<noteq> due_id d \<Longrightarrow> map_of (cron ?b) i = map_of (cron b) i"
    "k \<noteq> cronUniqueKey (due_id d) (due_at d) \<Longrightarrow> unique ?b k = unique b k" "i \<noteq> n \<Longrightarrow> jobs ?b i = jobs b i" by blast+
qed

text \<open>The job of tick \<open>d\<close> of an entry, with ID \<open>n\<close>, as it is stored at \<open>clock\<close>.\<close>

definition tick_job :: "CronEntry \<Rightarrow> due_entry \<Rightarrow> string \<Rightarrow> time \<Rightarrow> job" where
  "tick_job e d n clock = \<lparr>ID = n, Queue = ce_Queue e, Type = ce_Type e, Payload = ce_Payload e, Attempt = 0,
     MaxAttempts = (if ce_MaxAttempts e \<le> 0 then 25 else ce_MaxAttempts e), Recoveries = 0, State = StatePending, Owner = [],
     UniqueKey = cronUniqueKey (due_id d) (due_at d), UniqueTTL = 5 * Minute, LastErr = [], EnqueuedAt = clock, RunAt = 0,
     StartedAt = 0, Deadline = 0\<rparr>"

definition key_held :: "time \<Rightarrow> due_entry \<Rightarrow> broker \<Rightarrow> bool" where
  "key_held clock d b \<longleftrightarrow> (\<exists>e. unique b (cronUniqueKey (due_id d) (due_at d)) = Some e \<and> clock < u_expiresAt e)"

lemma tick_job_stored:
  "0 \<le> clock \<Longrightarrow> jobs (enqueue_store clock (enqueue_defaults n clock (cron_job ce d)) b) = (jobs b)(n \<mapsto> tick_job (entry ce) d n clock)"
  by (simp add: enqueue_store_def enqueue_defaults_def cron_job_def zero_job_def Let_def tick_job_def cronUniqueTTL_def DefaultMaxAttempts_def)

lemma fire_one_fires:
  assumes "server_wf s" and "\<not> closed b" and "map_of (cron b) (due_id d) = Some (due_at d)" and "map_of (sv_entries s) (due_id d) = Some ce"
    and "fire_next ce now d \<noteq> 0" and "0 \<le> clock"
  shows "map_of (cron (fire_one s (now, clock, n) d b)) (due_id d) = Some (fire_next ce now d)
    \<and> (key_held clock d b \<or> jobs (fire_one s (now, clock, n) d b) n = Some (tick_job (entry ce) d n clock))"
proof (cases "unique_holder clock (cronUniqueKey (due_id d) (due_at d)) b")
  case None
  with fire_enqueue [OF assms(1,4,2), of n clock] assms tick_job_stored [OF assms(6), of n ce d b] show ?thesis
    by (simp add: fire_one_def Let_def ClaimCron_def checkOpen_def enqueue_store_unique)
next
  case (Some h)
  then have "key_held clock d b" by (auto simp: unique_holder_def key_held_def split: option.splits if_splits)
  with Some fire_enqueue [OF assms(1,4,2), of n clock] assms show ?thesis
    by (simp add: fire_one_def Let_def ClaimCron_def checkOpen_def errors_Is_def)
qed

lemma fire_loop_keeps:
  "server_wf s \<Longrightarrow> \<not> closed b \<Longrightarrow> i \<notin> due_id ` set ds \<Longrightarrow> \<forall>l \<ge> k. snd (snd (supply l)) \<noteq> n \<Longrightarrow>
     map_of (cron (fire_loop s supply k ds b)) i = map_of (cron b) i \<and> jobs (fire_loop s supply k ds b) n = jobs b n"
proof (induction ds arbitrary: k b)
  case (Cons d ds)
  obtain t c n' where r: "supply k = (t, c, n')" by (cases "supply k")
  note keeps = fire_one_keeps [OF Cons.prems(1,2), where d = d and now = t and clock = c and n = n']
  have "n' \<noteq> n" using Cons.prems(4) r by (metis le_refl snd_conv)
  then show ?case using Cons.IH [OF Cons.prems(1) keeps(1), of "k + 1"] keeps(2) [of i] keeps(4) [of n] Cons.prems(3,4) r by auto
qed simp

lemma fire_loop_fires:
  assumes "server_wf s" and "\<not> closed b" and "distinct (map due_id ds)"
    and "\<forall>d \<in> set ds. map_of (cron b) (due_id d) = Some (due_at d)" and "m < length ds"
    and "map_of (sv_entries s) (due_id (ds ! m)) = Some ce" and "supply (k + m) = (now, clock, n)" and "fire_next ce now (ds ! m) \<noteq> 0"
    and "0 \<le> clock" and "\<forall>l. l \<noteq> k + m \<longrightarrow> snd (snd (supply l)) \<noteq> n"
  shows "map_of (cron (fire_loop s supply k ds b)) (due_id (ds ! m)) = Some (fire_next ce now (ds ! m))
    \<and> (key_held clock (ds ! m) b \<or> jobs (fire_loop s supply k ds b) n = Some (tick_job (entry ce) (ds ! m) n clock))"
  using assms
proof (induction ds arbitrary: k b m)
  case (Cons d ds)
  obtain t c n' where r: "supply k = (t, c, n')" by (cases "supply k")
  note keeps = fire_one_keeps [OF Cons.prems(1,2), where d = d and now = t and clock = c and n = n']
  have other: "due_id e \<noteq> due_id d" if "e \<in> set ds" for e using Cons.prems(3) that by (metis distinct.simps(2) imageI list.set_map list.simps(9))
  show ?case
  proof (cases m)
    case 0
    have r0: "t = now" "c = clock" "n' = n" using r Cons.prems(7) 0 by simp_all
    have "due_id d \<notin> due_id ` set ds" using Cons.prems(3) by simp
    moreover have "\<forall>l \<ge> k + 1. snd (snd (supply l)) \<noteq> n" using Cons.prems(10) 0 by simp
    ultimately have "map_of (cron (fire_loop s supply (k + 1) ds (fire_one s (supply k) d b))) (due_id d) = map_of (cron (fire_one s (supply k) d b)) (due_id d)
        \<and> jobs (fire_loop s supply (k + 1) ds (fire_one s (supply k) d b)) n = jobs (fire_one s (supply k) d b) n"
      using fire_loop_keeps [OF Cons.prems(1) keeps(1)] r by simp
    moreover have "map_of (sv_entries s) (due_id d) = Some ce" "fire_next ce now d \<noteq> 0" "map_of (cron b) (due_id d) = Some (due_at d)"
      using Cons.prems(4,6,8) 0 by simp_all
    then have "map_of (cron (fire_one s (now, clock, n) d b)) (due_id d) = Some (fire_next ce now d)
        \<and> (key_held clock d b \<or> jobs (fire_one s (now, clock, n) d b) n = Some (tick_job (entry ce) d n clock))"
      using fire_one_fires [OF Cons.prems(1,2)] Cons.prems(9) by blast
    ultimately show ?thesis unfolding 0 fire_loop.simps nth_Cons_0 r r0 by simp
  next
    case (Suc m')
    let ?b = "fire_one s (supply k) d b"
    have e: "ds ! m' \<in> set ds" using Cons.prems(5) Suc by simp
    have at: "\<forall>e \<in> set ds. map_of (cron ?b) (due_id e) = Some (due_at e)" using Cons.prems(4) other keeps(2) r by simp
    have "cronUniqueKey (due_id (ds ! m')) (due_at (ds ! m')) \<noteq> cronUniqueKey (due_id d) (due_at d)"
      using other [OF e] by (simp add: cronUniqueKey_inj)
    then have held: "key_held clock (ds ! m') ?b = key_held clock (ds ! m') b" using keeps(3) r by (simp add: key_held_def)
    have "distinct (map due_id ds)" "m' < length ds" "map_of (sv_entries s) (due_id (ds ! m')) = Some ce" "supply (k + 1 + m') = (now, clock, n)"
      "fire_next ce now (ds ! m') \<noteq> 0" "\<forall>l. l \<noteq> k + 1 + m' \<longrightarrow> snd (snd (supply l)) \<noteq> n" using Cons.prems(3,5-8,10) Suc by simp_all
    from Cons.IH [OF Cons.prems(1) _ this(1) at this(2-5) Cons.prems(9) this(6)] keeps(1) r held show ?thesis by (simp add: Suc)
  qed
qed simp

text \<open>What is due: the entries of the cron table whose tick is not after \<open>now\<close>.\<close>

definition due_ticks :: "time \<Rightarrow> broker \<Rightarrow> due_entry set" where
  "due_ticks now b = {Due i at |i at. map_of (cron b) i = Some at \<and> at \<le> now}"

lemma due_cron_spec:
  assumes "reachable b" and "\<not> closed b" and "0 < limit"
  shows "\<exists>xs. DueCron now limit b = Inr (take (nat limit) xs) \<and> sorted xs \<and> distinct (map due_id xs) \<and> set xs = due_ticks now b"
proof -
  have dc: "distinct (map fst (cron b))" using reachable_wf [OF assms(1)] by (simp add: broker_wf_def core_wf_def shape_def)
  let ?all = "map (\<lambda>(i, at). Due i at) (filter (\<lambda>(i, at). \<not> now < at) (cron b))"
  have ids: "map due_id ?all = map fst (filter (\<lambda>(i, at). \<not> now < at) (cron b))" by (simp add: comp_def case_prod_beta)
  have "distinct (map due_id ?all)" unfolding ids by (rule distinct_map_filter [OF dc])
  moreover have "mset (map due_id (sort ?all)) = mset (map due_id ?all)" by (simp only: mset_map mset_sort)
  ultimately have "distinct (map due_id (sort ?all))" by (blast dest: mset_eq_imp_distinct_iff)
  moreover have "set (sort ?all) = due_ticks now b" by (auto simp: due_ticks_def pair_in_alist_iff [OF dc] image_iff not_less)
  moreover have "DueCron now limit b = Inr (take (nat limit) (sort ?all))" using assms(2,3) by (simp add: DueCron_def Let_def checkOpen_def)
  ultimately show ?thesis using sorted_sort by blast
qed

text \<open>
  C13. Due ticks fire. On a reachable open broker, with no other client in between, a pass fires every due tick
  that is among the first hundred (earliest first, ties by ID), that belongs to an entry the server knows and
  whose schedule has a next time: the entry is advanced to the first fire time after both the present and
  the tick, so that ticks missed meanwhile are not replayed; and the job of the tick is stored, pending, with
  the fields of the entry, unless an earlier firing of the tick still holds its unique key.
\<close>

theorem due_ticks_fire:
  assumes "reachable b" and "\<not> closed b" and "server_wf s"
    and "d \<in> due_ticks now b" and "card {e \<in> due_ticks now b. e < d} = m" and "m < 100"
    and "map_of (sv_entries s) (due_id d) = Some ce" and "Schedule_Next (schedule ce) (max t (due_at d)) \<noteq> 0"
    and "supply m = (t, clock, n)" and "0 \<le> clock" and "\<forall>k. k \<noteq> m \<longrightarrow> snd (snd (supply k)) \<noteq> n"
  shows "map_of (cron (fireDueSchedules s now supply b)) (due_id d) = Some (Schedule_Next (schedule ce) (max t (due_at d)))
    \<and> ((\<exists>e. unique b (cronUniqueKey (due_id d) (due_at d)) = Some e \<and> clock < u_expiresAt e)
      \<or> jobs (fireDueSchedules s now supply b) n = Some \<lparr>ID = n, Queue = ce_Queue (entry ce), Type = ce_Type (entry ce),
          Payload = ce_Payload (entry ce), Attempt = 0, MaxAttempts = (if ce_MaxAttempts (entry ce) \<le> 0 then 25 else ce_MaxAttempts (entry ce)),
          Recoveries = 0, State = StatePending, Owner = [], UniqueKey = cronUniqueKey (due_id d) (due_at d), UniqueTTL = 5 * Minute,
          LastErr = [], EnqueuedAt = clock, RunAt = 0, StartedAt = 0, Deadline = 0\<rparr>)"
proof -
  obtain xs where xs: "DueCron now cronBatch b = Inr (take 100 xs)" "sorted xs" "distinct (map due_id xs)" "set xs = due_ticks now b"
    using due_cron_spec [OF assms(1,2), of cronBatch now] by (auto simp: cronBatch_def)
  let ?ds = "take 100 xs"
  have "distinct xs" using xs(3) by (simp add: distinct_map)
  then have "m < length xs" "xs ! m = d"
    using sorted_nth_rank [OF xs(2), of d] assms(4,5) by (simp_all add: xs(4))
  then have m: "m < length ?ds" "?ds ! m = d" using assms(6) by simp_all
  have "distinct (map due_id ?ds)" using xs(3) by (simp add: take_map [symmetric])
  moreover have "\<forall>d \<in> set ?ds. map_of (cron b) (due_id d) = Some (due_at d)" using xs(4) by (auto simp: due_ticks_def dest!: in_set_takeD)
  moreover have "fire_next ce t d = Schedule_Next (schedule ce) (max t (due_at d))" by (simp add: fire_next_def max_def Let_def)
  ultimately show ?thesis
    using fire_loop_fires [OF assms(3,2), of ?ds m ce "supply" 0 t clock n] m assms(7-11) xs(1)
    by (simp add: fireDueSchedules_def key_held_def tick_job_def)
qed

section \<open>Entries of other builds\<close>

lemma fire_loop_unknown:
  "\<forall>d \<in> set ds. map_of (sv_entries s) (due_id d) = None \<Longrightarrow> fire_loop s supply k ds b = b"
  by (induction ds arbitrary: k) (auto simp: fire_one_def split: prod.splits)

text \<open>
  A pass looks at the first hundred due entries only, and skips those it does not know without advancing
  them. A hundred overdue entries of another build therefore keep every later entry from ever firing.
\<close>

lemma unknown_entries_starve:
  assumes "DueCron now cronBatch b = Inr due" and "\<forall>d \<in> set due. map_of (sv_entries s) (due_id d) = None"
  shows "fireDueSchedules s now supply b = b"
  using fire_loop_unknown [OF assms(2)] assms(1) by (simp add: fireDueSchedules_def)

section \<open>A concrete scheduler\<close>

text \<open>A server whose only entry fires every hour, and a broker where it is due.\<close>

definition hourly_config :: config where
  "hourly_config = example_config\<lparr>cfg_Cron := [\<lparr>ce_ID = ''tick'', ce_Spec = ''@every 1h'', ce_Type = ''report'',
     ce_Payload = None, ce_Queue = [], ce_MaxAttempts = 0\<rparr>]\<rparr>"

definition hourly_server :: server where
  "hourly_server = (case example_NewServer hourly_config of Inr s \<Rightarrow> s)"

definition due_broker :: broker where
  "due_broker = exec (0, OpScheduleCron ''tick'' Hour) New"

definition tick :: due_entry where
  "tick = Due ''tick'' Hour"

definition tick_entry :: compiledEntry where
  "tick_entry = the (map_of (sv_entries hourly_server) ''tick'')"

lemma hourly_server_wf: "server_wf hourly_server"
proof -
  have "map_sum id (\<lambda>s. ()) (example_NewServer hourly_config) = Inr ()" by code_simp
  then obtain s where s: "example_NewServer hourly_config = Inr s" by (cases "example_NewServer hourly_config") auto
  then show ?thesis using NewServer_wf [OF s [unfolded example_NewServer_def]] by (simp add: hourly_server_def)
qed

lemma tick_entry: "map_of (sv_entries hourly_server) ''tick'' = Some tick_entry"
proof -
  have "map_of (sv_entries hourly_server) ''tick'' \<noteq> None" by code_simp
  then show ?thesis by (auto simp: tick_entry_def)
qed

lemma tick_next: "fire_next tick_entry (Hour + Minute) tick = 2 * Hour + Minute"
proof -
  have "every (schedule tick_entry) = Hour" by code_simp
  then show ?thesis by (simp add: fire_next_def tick_def Schedule_Next_def)
qed

lemma due_broker_fields:
  "\<not> closed due_broker" "cron due_broker = [(''tick'', Hour)]" "unique due_broker = Map.empty" "reachable due_broker"
proof -
  show "\<not> closed due_broker" "cron due_broker = [(''tick'', Hour)]" "unique due_broker = Map.empty"
    by (simp_all add: due_broker_def ScheduleCronIfAbsent_def checkOpen_def New_def)
  show "reachable due_broker" unfolding due_broker_def by (rule reachable_exec [OF reachable_New]) simp
qed

theorem due_ticks_fire_witness:
  "let b' = fireDueSchedules hourly_server (Hour + Minute) (\<lambda>k. (Hour + Minute, Hour + Minute, if k = 0 then ''n'' else ''x'')) due_broker
   in map_of (cron b') ''tick'' = Some (2 * Hour + Minute) \<and> map_option Type (jobs b' ''n'') = Some (ce_Type (entry tick_entry))"
proof -
  have ticks: "due_ticks (Hour + Minute) due_broker = {tick}" by (auto simp: due_ticks_def due_broker_fields tick_def)
  have "Schedule_Next (schedule tick_entry) (max (Hour + Minute) (due_at tick)) = 2 * Hour + Minute"
    using tick_next by (simp add: fire_next_def max_def Let_def tick_def)
  with due_ticks_fire [OF due_broker_fields(4,1) hourly_server_wf, of tick "Hour + Minute" 0 tick_entry "Hour + Minute"
      "\<lambda>k. (Hour + Minute, Hour + Minute, if k = 0 then ''n'' else ''x'')" "Hour + Minute" "''n''"] ticks tick_entry
  show ?thesis by (auto simp: tick_def due_broker_fields(3) Let_def)
qed

theorem tick_fires_once_witness:
  "let b1 = snd (snd (Enqueue ''n1'' (Hour + Minute) (Some (cron_job tick_entry tick)) due_broker));
       b2 = fire_one hourly_server (Hour + Minute, Hour + 2 * Minute, ''n2'') tick b1
   in jobs b2 = jobs b1 \<and> map_of (cron b2) ''tick'' = Some (2 * Hour + Minute)"
proof -
  let ?e = "Enqueue ''n1'' (Hour + Minute) (Some (cron_job tick_entry tick)) due_broker"
  have e: "map_of (sv_entries hourly_server) (due_id tick) = Some tick_entry" using tick_entry by (simp add: tick_def)
  obtain j where enq: "?e = (None, Some j, enqueue_store (Hour + Minute) j due_broker)"
    using fire_enqueue [OF hourly_server_wf e due_broker_fields(1), of "''n1''" "Hour + Minute"]
    by (simp add: unique_holder_def due_broker_fields)
  have "fire_next tick_entry (Hour + Minute) tick \<noteq> 0" by (simp add: tick_next [simplified])
  from tick_fires_once [OF enq _ _ hourly_server_wf e this, of "[]" "Hour + 2 * Minute" "''n2''"]
  show ?thesis unfolding enq Let_def
    by (simp add: tick_next [unfolded tick_def, simplified] cronUniqueTTL_def enqueue_store_unique due_broker_fields tick_def)
qed

end
