(* ===== verification/Runtime.thy ===== *)
theory Runtime
  imports Worker Scheduler
begin

text \<open>
  The life of a worker process around its steps: which background loops \<^verbatim>\<open>Run\<close> starts and with which context,
  what one round of the reaping, promoting and heartbeat loops does to the in-process broker, and how
  shutdown ends (src/server.go, src/maintenance.go). A \<^verbatim>\<open>select\<close> over a timer and another event takes
  whichever comes first; when both come at the same instant Go chooses, which is the argument \<open>pick\<close>.
  Events are given by the time until they happen, \<open>None\<close> for never.
\<close>

section \<open>Waiting\<close>

text \<open>Whether an event at \<open>e\<close> wins a \<^verbatim>\<open>select\<close> against a timer of \<open>d\<close>.\<close>

definition before_timer :: "duration option \<Rightarrow> duration \<Rightarrow> bool \<Rightarrow> bool" where
  "before_timer e d pick = (case e of None \<Rightarrow> False | Some u \<Rightarrow> u < d \<or> (u = d \<and> pick))"

definition sleepCtx :: "duration option \<Rightarrow> bool \<Rightarrow> duration \<Rightarrow> bool" where
  "sleepCtx cancelled pick d \<longleftrightarrow> \<not> before_timer cancelled d pick"

section \<open>Background loops\<close>

datatype background = RenewLoop | HeartbeatLoop | ReapLoop | PromoteLoop | SchedulerLoop

datatype loop_ctx = RunCtx | MaintCtx

definition startMaintenance :: "server \<Rightarrow> (background \<times> loop_ctx) list" where
  "startMaintenance s = (RenewLoop, MaintCtx) #
     (if \<not> sv_maint s then []
      else [(HeartbeatLoop, MaintCtx), (ReapLoop, RunCtx), (PromoteLoop, RunCtx)]
        @ (if sv_entries s \<noteq> [] then [(SchedulerLoop, RunCtx)] else []))"

text \<open>One round of each loop; an error of the broker is logged and the loop goes on.\<close>

definition reap_round :: "server \<Rightarrow> time \<Rightarrow> broker \<Rightarrow> broker" where
  "reap_round s now b = snd (Reap now (cfg_Queues (sv_cfg s)) reapBatch b)"

definition promote_round :: "time \<Rightarrow> broker \<Rightarrow> broker" where
  "promote_round now b = snd (Promote now promoteBatch b)"

definition beat :: "server \<Rightarrow> int \<Rightarrow> time \<Rightarrow> int \<Rightarrow> time \<Rightarrow> broker \<Rightarrow> broker" where
  "beat s pid started inFlight now b = snd (Heartbeat now
     \<lparr>w_ID = cfg_WorkerID (sv_cfg s), w_Host = sv_host s, w_PID = pid, w_Queues = cfg_Queues (sv_cfg s),
      w_Concurrency = cfg_Concurrency (sv_cfg s), w_InFlight = inFlight, w_StartedAt = started, w_LastBeat = 0\<rparr>
     (heartbeatTTL s) b)"

section \<open>Shutdown\<close>

text \<open>
  \<open>finish\<close> is when the last run ends if nobody cancels it, \<open>finish'\<close> when it ends after the cancellation,
  both counted from the start of the respective wait. The result is the error, whether the jobs were
  cancelled, and how long \<^verbatim>\<open>drain\<close> took.
\<close>

definition drain :: "server \<Rightarrow> duration option \<Rightarrow> bool \<Rightarrow> duration option \<Rightarrow> bool \<Rightarrow> string option \<times> bool \<times> duration" where
  "drain s finish pick finish' pick' =
     (if before_timer finish (cfg_ShutdownTimeout (sv_cfg s)) pick then (None, False, the finish)
      else if before_timer finish' forceGracePeriod pick'
        then (None, True, cfg_ShutdownTimeout (sv_cfg s) + the finish')
      else (Some ''taskq: shutdown timed out with jobs still running'', True,
            cfg_ShutdownTimeout (sv_cfg s) + forceGracePeriod))"

definition Run :: "server \<Rightarrow> 'h option \<Rightarrow> string option \<times> bool \<times> duration \<Rightarrow> string option" where
  "Run s h drained = (case h of None \<Rightarrow> Some ''taskq: nil handler'' | Some _ \<Rightarrow> fst drained)"

section \<open>What the loops and the shutdown guarantee\<close>

text \<open>Draining jobs keep their leases: renewal and heartbeats, and nothing else, outlive the context of \<^verbatim>\<open>Run\<close>.\<close>

lemma loops_that_outlive_run:
  "(RenewLoop, MaintCtx) \<in> set (startMaintenance s)"
  "(l, MaintCtx) \<in> set (startMaintenance s) \<longleftrightarrow> l = RenewLoop \<or> l = HeartbeatLoop \<and> sv_maint s"
  "(SchedulerLoop, c) \<in> set (startMaintenance s) \<longleftrightarrow> c = RunCtx \<and> sv_maint s \<and> sv_entries s \<noteq> []"
  by (auto simp: startMaintenance_def)

text \<open>
  Shutdown is bounded: it waits for the jobs as long as configured before it cancels any of them, takes at
  most the grace period longer, and fails only when a job has not ended by then.
\<close>

lemma drain_bounded:
  assumes "server_wf s" and "drain s finish pick finish' pick' = (err, cancelled, took)"
  shows "took \<le> cfg_ShutdownTimeout (sv_cfg s) + forceGracePeriod"
    and "cancelled \<Longrightarrow> \<forall>u. finish = Some u \<longrightarrow> cfg_ShutdownTimeout (sv_cfg s) \<le> u"
    and "err \<noteq> None \<Longrightarrow> cancelled \<and> (\<forall>u. finish' = Some u \<longrightarrow> forceGracePeriod \<le> u)"
  using assms by (auto simp: drain_def before_timer_def server_wf_def forceGracePeriod_def split: if_splits option.splits)

lemma rounds_reachable:
  assumes "reachable b"
  shows "reachable (reap_round s now b)" "reachable (promote_round now b)" "reachable (beat s pid started n now b)"
  using reachable_exec [OF assms, of "(now, OpReap (cfg_Queues (sv_cfg s)) reapBatch)"]
    reachable_exec [OF assms, of "(now, OpPromote promoteBatch)"]
    reachable_exec [OF assms, of "(now, OpHeartbeat wi (heartbeatTTL s))" for wi]
  by (simp_all add: reap_round_def promote_round_def beat_def)

text \<open>A worker is listed for three intervals after a beat, so that two lost beats do not hide it.\<close>

lemma beat_lists_worker:
  assumes "server_wf s" and "\<not> closed b" and "u < now + 3 * heartbeatInterval s"
  shows "\<exists>ws. Workers u (beat s pid started n now b) = Inr ws \<and> cfg_WorkerID (sv_cfg s) \<in> w_ID ` set ws"
proof -
  let ?wi = "\<lparr>w_ID = cfg_WorkerID (sv_cfg s), w_Host = sv_host s, w_PID = pid, w_Queues = cfg_Queues (sv_cfg s),
      w_Concurrency = cfg_Concurrency (sv_cfg s), w_InFlight = n, w_StartedAt = started, w_LastBeat = now\<rparr>"
  let ?e = "\<lparr>we_info = ?wi, we_expiresAt = now + heartbeatTTL s\<rparr>"
  have "0 < heartbeatTTL s" and id: "cfg_WorkerID (sv_cfg s) \<noteq> []"
    using assms(1) by (auto simp: heartbeatTTL_def heartbeatInterval_def Let_def server_wf_def)
  then have b: "beat s pid started n now b = b\<lparr>workers := AList.update (cfg_WorkerID (sv_cfg s)) ?e (workers b)\<rparr>"
    using assms(2) by (simp add: beat_def Heartbeat_def checkOpen_def)
  have "map_of (workers (beat s pid started n now b)) (cfg_WorkerID (sv_cfg s)) = Some ?e" by (simp add: b)
  then have "(cfg_WorkerID (sv_cfg s), ?e) \<in> set (workers (beat s pid started n now b))" by (rule map_of_SomeD)
  then show ?thesis using assms(2,3) by (force simp: Workers_def checkOpen_def b heartbeatTTL_def)
qed

end
