(* ===== verification/Redis.thy ===== *)
theory Redis
  imports Go_Strings
begin

text \<open>
  The Redis server and its Lua host, as far as src/internal/rdb uses them. Neither is part of the
  repository: the function from a command and the server's keyspace to its reply and the new keyspace is
  a parameter, \<open>call\<close>, of every definition that talks to Redis, and \<open>redis_commands\<close> collects what the
  documentation of the commands says about it, each command on keys of its own type. Scores are integers,
  which millisecond times are exactly; a key disappears when its last element is removed. Expiry happens
  between commands, by the passage of time, and is not a command.
\<close>

section \<open>Keyspace, commands and replies\<close>

datatype rvalue = RStr string | RHash "(string \<times> string) list" | RList "string list" | RZset "(string \<times> int) list"
  | RSet "string list"

record keyspace =
  rs_keys :: "string \<rightharpoonup> rvalue"
  rs_sec :: int
  rs_usec :: int

datatype reply = RNil | RInt int | RBulk string | RArr "reply list" | RErr string

datatype command =
    TIME
  | EXISTS string
  | HGET string string
  | HSET string "(string \<times> string) list"
  | HINCRBY string string int
  | HGETALL string
  | LPOP string
  | LPUSH string string
  | RPUSH string string
  | ZADD string int string
  | ZADDNX string int string
  | ZREM string string
  | ZSCORE string string
  | ZRANGEBYSCORE string int int
  | ZRANGEBYSCORE_WITHSCORES string int int
  | ZREMRANGEBYSCORE string int
  | SADD string string
  | INCR string
  | DEL string
  | PEXPIRE string int
  | GET string
  | SET_NX_PX string string int
  | SET_PX string string int

type_synonym redis = "command \<Rightarrow> keyspace \<Rightarrow> reply \<times> keyspace"

section \<open>Values of a key\<close>

fun as_hash :: "rvalue option \<Rightarrow> (string \<times> string) list option" where
  "as_hash None = Some []"
| "as_hash (Some (RHash h)) = Some h"
| "as_hash _ = None"

fun as_list :: "rvalue option \<Rightarrow> string list option" where
  "as_list None = Some []"
| "as_list (Some (RList l)) = Some l"
| "as_list _ = None"

fun as_zset :: "rvalue option \<Rightarrow> (string \<times> int) list option" where
  "as_zset None = Some []"
| "as_zset (Some (RZset z)) = Some z"
| "as_zset _ = None"

fun as_set :: "rvalue option \<Rightarrow> string list option" where
  "as_set None = Some []"
| "as_set (Some (RSet x)) = Some x"
| "as_set _ = None"

definition put :: "string \<Rightarrow> rvalue option \<Rightarrow> keyspace \<Rightarrow> keyspace" where
  "put k v s = s\<lparr>rs_keys := (rs_keys s)(k := v)\<rparr>"

definition put_list :: "string \<Rightarrow> string list \<Rightarrow> keyspace \<Rightarrow> keyspace" where
  "put_list k l s = put k (if l = [] then None else Some (RList l)) s"

definition put_zset :: "string \<Rightarrow> (string \<times> int) list \<Rightarrow> keyspace \<Rightarrow> keyspace" where
  "put_zset k z s = put k (if z = [] then None else Some (RZset z)) s"

definition hset_fields :: "(string \<times> string) list \<Rightarrow> (string \<times> string) list \<Rightarrow> (string \<times> string) list" where
  "hset_fields fvs h = fold (\<lambda>(f, v). AList.update f v) fvs h"

text \<open>The members with a score of at most \<open>mx\<close>, lowest score first, equal scores in the order of the members.\<close>

definition in_score_order :: "int \<Rightarrow> int \<Rightarrow> (string \<times> int) list \<Rightarrow> due_entry list" where
  "in_score_order mx n z = take (nat n) (sort (map (\<lambda>(m, sc). Due m sc) (filter (\<lambda>(m, sc). sc \<le> mx) z)))"

fun flatten :: "(string \<times> string) list \<Rightarrow> reply list" where
  "flatten [] = []"
| "flatten ((f, v) # h) = RBulk f # RBulk v # flatten h"

text \<open>A decimal integer, as \<^verbatim>\<open>tonumber\<close> of Lua and the counters of Redis read it.\<close>

definition parse_digits :: "string \<Rightarrow> int option" where
  "parse_digits ds = (if ds = [] \<or> \<not> list_all (\<lambda>c. digit_val c \<noteq> None) ds then None else Some (int (digits_value ds)))"

definition parse_int :: "string \<Rightarrow> int option" where
  "parse_int s = (case s of [] \<Rightarrow> None
     | c # ds \<Rightarrow> if c = CHR ''-'' then map_option uminus (parse_digits ds) else parse_digits s)"

lemma parse_int_itoa [simp]: "parse_int (itoa i) = Some i"
proof -
  have d: "parse_digits (itoa_nat n) = Some (int n)" for n
    using itoa_nat_all_digits by (simp add: parse_digits_def list_all_iff)
  show ?thesis
  proof (cases "i < 0")
    case True
    then show ?thesis by (simp add: itoa_def parse_int_def d)
  next
    case False
    obtain c ds where cs: "itoa_nat (nat i) = c # ds" using itoa_nat_nonempty [of "nat i"] by (cases "itoa_nat (nat i)") auto
    then have "c \<noteq> CHR ''-''" using itoa_nat_no_minus by metis
    with cs d [of "nat i"] False show ?thesis by (simp add: itoa_def parse_int_def)
  qed
qed

section \<open>What the documentation says of the commands\<close>

definition counter_of :: "string option \<Rightarrow> int option" where
  "counter_of x = (case x of None \<Rightarrow> Some 0 | Some s \<Rightarrow> parse_int s)"

definition redis_reads :: "redis \<Rightarrow> bool" where
  "redis_reads call \<longleftrightarrow>
     (\<forall>s. call TIME s = (RArr [RBulk (itoa (rs_sec s)), RBulk (itoa (rs_usec s))], s))
   \<and> (\<forall>k s. call (EXISTS k) s = (RInt (if rs_keys s k = None then 0 else 1), s))
   \<and> (\<forall>k f s h. as_hash (rs_keys s k) = Some h \<longrightarrow>
        call (HGET k f) s = (case map_of h f of None \<Rightarrow> RNil | Some v \<Rightarrow> RBulk v, s))
   \<and> (\<forall>k s h. as_hash (rs_keys s k) = Some h \<longrightarrow>
        (\<exists>l. mset l = mset h \<and> call (HGETALL k) s = (RArr (flatten l), s)))
   \<and> (\<forall>k m s z. as_zset (rs_keys s k) = Some z \<longrightarrow>
        call (ZSCORE k m) s = (case map_of z m of None \<Rightarrow> RNil | Some sc \<Rightarrow> RBulk (itoa sc), s))
   \<and> (\<forall>k mx n s z. as_zset (rs_keys s k) = Some z \<longrightarrow>
        call (ZRANGEBYSCORE k mx n) s = (RArr (map (\<lambda>d. RBulk (due_id d)) (in_score_order mx n z)), s))
   \<and> (\<forall>k mx n s z. as_zset (rs_keys s k) = Some z \<longrightarrow>
        call (ZRANGEBYSCORE_WITHSCORES k mx n) s
          = (RArr (concat (map (\<lambda>d. [RBulk (due_id d), RBulk (itoa (due_at d))]) (in_score_order mx n z))), s))
   \<and> (\<forall>k s. rs_keys s k = None \<longrightarrow> call (GET k) s = (RNil, s))
   \<and> (\<forall>k x s. rs_keys s k = Some (RStr x) \<longrightarrow> call (GET k) s = (RBulk x, s))"

definition redis_writes :: "redis \<Rightarrow> bool" where
  "redis_writes call \<longleftrightarrow>
     (\<forall>k fvs s h. as_hash (rs_keys s k) = Some h \<longrightarrow>
        (\<exists>n. call (HSET k fvs) s = (RInt n, put k (Some (RHash (hset_fields fvs h))) s)))
   \<and> (\<forall>k f n s h i. as_hash (rs_keys s k) = Some h \<and> counter_of (map_of h f) = Some i \<longrightarrow>
        call (HINCRBY k f n) s = (RInt (i + n), put k (Some (RHash (AList.update f (itoa (i + n)) h))) s))
   \<and> (\<forall>k s. as_list (rs_keys s k) = Some [] \<longrightarrow> call (LPOP k) s = (RNil, s))
   \<and> (\<forall>k s x l. as_list (rs_keys s k) = Some (x # l) \<longrightarrow> call (LPOP k) s = (RBulk x, put_list k l s))
   \<and> (\<forall>k x s l. as_list (rs_keys s k) = Some l \<longrightarrow> call (LPUSH k x) s = (RInt (int (length l) + 1), put_list k (x # l) s))
   \<and> (\<forall>k x s l. as_list (rs_keys s k) = Some l \<longrightarrow> call (RPUSH k x) s = (RInt (int (length l) + 1), put_list k (l @ [x]) s))
   \<and> (\<forall>k sc m s z. as_zset (rs_keys s k) = Some z \<longrightarrow>
        call (ZADD k sc m) s = (RInt (if map_of z m = None then 1 else 0), put_zset k (AList.update m sc z) s))
   \<and> (\<forall>k sc m s z. as_zset (rs_keys s k) = Some z \<longrightarrow>
        call (ZADDNX k sc m) s = (if map_of z m = None then (RInt 1, put_zset k (AList.update m sc z) s) else (RInt 0, s)))
   \<and> (\<forall>k m s z. as_zset (rs_keys s k) = Some z \<longrightarrow>
        call (ZREM k m) s = (RInt (if map_of z m = None then 0 else 1), put_zset k (AList.delete m z) s))
   \<and> (\<forall>k mx s z. as_zset (rs_keys s k) = Some z \<longrightarrow>
        (\<exists>n. call (ZREMRANGEBYSCORE k mx) s = (RInt n, put_zset k (filter (\<lambda>(m, sc). mx < sc) z) s)))
   \<and> (\<forall>k m s x. as_set (rs_keys s k) = Some x \<longrightarrow>
        (\<exists>n. call (SADD k m) s = (RInt n, put k (Some (RSet (List.insert m x))) s)))
   \<and> (\<forall>k s i. counter_of (case rs_keys s k of None \<Rightarrow> None | Some (RStr x) \<Rightarrow> Some x | Some _ \<Rightarrow> Some []) = Some i \<longrightarrow>
        call (INCR k) s = (RInt (i + 1), put k (Some (RStr (itoa (i + 1)))) s))
   \<and> (\<forall>k s. \<exists>n. call (DEL k) s = (RInt n, put k None s))
   \<and> (\<forall>k ttl s. 0 < ttl \<longrightarrow> (\<exists>n. call (PEXPIRE k ttl) s = (RInt n, s)))
   \<and> (\<forall>k x ttl s. 0 < ttl \<longrightarrow> call (SET_PX k x ttl) s = (RBulk ''OK'', put k (Some (RStr x)) s))
   \<and> (\<forall>k x ttl s. 0 < ttl \<longrightarrow>
        call (SET_NX_PX k x ttl) s = (if rs_keys s k = None then (RBulk ''OK'', put k (Some (RStr x)) s) else (RNil, s)))"

definition redis_commands :: "redis \<Rightarrow> bool" where
  "redis_commands call \<longleftrightarrow> redis_reads call \<and> redis_writes call"

end
