(* ===== verification/Redis_Scripts.thy ===== *)
theory Redis_Scripts
  imports Redis
begin

text \<open>
  The twelve Lua scripts under src/internal/rdb/scripts, one definition each. A script is a function of its
  \<^verbatim>\<open>KEYS\<close> and \<^verbatim>\<open>ARGV\<close>; it runs atomically on the keyspace and ends with a value or with a Lua error, which
  leaves in place what it has written so far. Lua's \<^verbatim>\<open>false\<close>, which a nil reply becomes, stays \<open>RNil\<close>;
  concatenating it, or computing with a string that is not a number, is an error.
\<close>

type_synonym 'a lua = "keyspace \<Rightarrow> (string + 'a) \<times> keyspace"

definition lua_return :: "'a \<Rightarrow> 'a lua" where
  "lua_return x s = (Inr x, s)"

definition lua_error :: "string \<Rightarrow> 'a lua" where
  "lua_error e s = (Inl e, s)"

definition lua_bind :: "'a lua \<Rightarrow> ('a \<Rightarrow> 'b lua) \<Rightarrow> 'b lua" where
  "lua_bind m f s = (case m s of (Inl e, s') \<Rightarrow> (Inl e, s') | (Inr x, s') \<Rightarrow> f x s')"

definition redis_call :: "redis \<Rightarrow> command \<Rightarrow> reply lua" where
  "redis_call call c s = (case call c s of
       (RErr e, s') \<Rightarrow> (Inl e, s')
     | (x, s') \<Rightarrow> (Inr x, s'))"

definition tostring :: "reply \<Rightarrow> string" where
  "tostring x = (case x of RBulk t \<Rightarrow> t | RInt i \<Rightarrow> itoa i | _ \<Rightarrow> ''false'')"

definition lua_str :: "reply \<Rightarrow> string lua" where
  "lua_str x = (case x of RBulk t \<Rightarrow> lua_return t | RInt i \<Rightarrow> lua_return (itoa i)
     | _ \<Rightarrow> lua_error ''attempt to concatenate a boolean value'')"

definition lua_num :: "reply \<Rightarrow> int lua" where
  "lua_num x = (case x of
       RInt i \<Rightarrow> lua_return i
     | RBulk t \<Rightarrow> (case parse_int t of Some i \<Rightarrow> lua_return i | None \<Rightarrow> lua_error ''attempt to perform arithmetic on a nil value'')
     | _ \<Rightarrow> lua_error ''attempt to perform arithmetic on a nil value'')"

definition now_ms :: "redis \<Rightarrow> int lua" where
  "now_ms call = lua_bind (redis_call call TIME) (\<lambda>t. case t of
       RArr [a, b] \<Rightarrow> lua_bind (lua_num a) (\<lambda>x. lua_bind (lua_num b) (\<lambda>y. lua_return (x * 1000 + y div 1000)))
     | _ \<Rightarrow> lua_error ''attempt to index a nil value'')"

section \<open>Enqueue and dequeue\<close>

definition enqueue_store_lua :: "redis \<Rightarrow> int \<Rightarrow> string list \<Rightarrow> string list \<Rightarrow> reply lua" where
  "enqueue_store_lua call now KEYS ARGV =
     lua_bind (lua_num (RBulk (ARGV ! 5))) (\<lambda>run_at.
     let state = (if now < run_at then ''scheduled'' else ''pending'') in
     lua_bind (redis_call call (HSET (KEYS ! 0)
       [(''id'', ARGV ! 0), (''queue'', ARGV ! 1), (''type'', ARGV ! 2), (''payload'', ARGV ! 3), (''attempt'', itoa 0),
        (''max_attempts'', ARGV ! 4), (''recoveries'', itoa 0), (''state'', state), (''owner'', []), (''unique_key'', ARGV ! 7),
        (''last_err'', []), (''enqueued_at'', itoa now), (''run_at'', ARGV ! 5), (''started_at'', itoa 0), (''deadline'', itoa 0)])) (\<lambda>_.
     lua_bind (if state = ''scheduled'' then redis_call call (ZADD (KEYS ! 2) run_at (ARGV ! 0))
               else redis_call call (RPUSH (KEYS ! 1) (ARGV ! 0))) (\<lambda>_.
     lua_bind (redis_call call (SADD (KEYS ! 3) (ARGV ! 1))) (\<lambda>_.
     lua_return (RArr [RInt 1])))))"

definition enqueue_lua :: "redis \<Rightarrow> string list \<Rightarrow> string list \<Rightarrow> reply lua" where
  "enqueue_lua call KEYS ARGV =
     lua_bind (now_ms call) (\<lambda>now.
     lua_bind (lua_num (RBulk (ARGV ! 6))) (\<lambda>unique_ttl.
     if 0 < unique_ttl then
       lua_bind (redis_call call (SET_NX_PX (KEYS ! 4) (ARGV ! 0) unique_ttl)) (\<lambda>won.
       if won = RNil then
         lua_bind (redis_call call (GET (KEYS ! 4))) (\<lambda>holder.
         lua_return (RArr [RInt 0, if holder = RNil then RBulk [] else holder]))
       else enqueue_store_lua call now KEYS ARGV)
     else enqueue_store_lua call now KEYS ARGV))"

text \<open>The inner loop over at most \<open>n\<close> IDs; \<open>None\<close> when it ends without a job.\<close>

fun dequeue_tries :: "redis \<Rightarrow> nat \<Rightarrow> int \<Rightarrow> string \<Rightarrow> int \<Rightarrow> string \<Rightarrow> string \<Rightarrow> string \<Rightarrow> reply option lua" where
  "dequeue_tries call 0 now worker vt prefix ready active = lua_return None"
| "dequeue_tries call (Suc n) now worker vt prefix ready active =
     lua_bind (redis_call call (LPOP ready)) (\<lambda>x.
     if x = RNil then lua_return None
     else lua_bind (lua_str x) (\<lambda>id.
       lua_bind (redis_call call (EXISTS (prefix @ id))) (\<lambda>e.
       if e = RInt 1 then
         lua_bind (redis_call call (HINCRBY (prefix @ id) ''attempt'' 1)) (\<lambda>_.
         lua_bind (redis_call call (HSET (prefix @ id) [(''state'', ''active''), (''owner'', worker),
           (''started_at'', itoa now), (''deadline'', itoa (now + vt))])) (\<lambda>_.
         lua_bind (redis_call call (ZADD active (now + vt) id)) (\<lambda>_.
         lua_bind (redis_call call (HGETALL (prefix @ id))) (\<lambda>h. lua_return (Some h)))))
       else dequeue_tries call n now worker vt prefix ready active)))"

fun dequeue_queues :: "redis \<Rightarrow> int \<Rightarrow> string \<Rightarrow> int \<Rightarrow> string \<Rightarrow> string list \<Rightarrow> reply lua" where
  "dequeue_queues call now worker vt prefix (ready # active # KEYS) =
     lua_bind (dequeue_tries call 20 now worker vt prefix ready active) (\<lambda>found.
     case found of Some h \<Rightarrow> lua_return h | None \<Rightarrow> dequeue_queues call now worker vt prefix KEYS)"
| "dequeue_queues call now worker vt prefix _ = lua_return RNil"

definition dequeue_lua :: "redis \<Rightarrow> string list \<Rightarrow> string list \<Rightarrow> reply lua" where
  "dequeue_lua call KEYS ARGV =
     lua_bind (now_ms call) (\<lambda>now.
     lua_bind (lua_num (RBulk (ARGV ! 1))) (\<lambda>vt.
     dequeue_queues call now (ARGV ! 0) vt (ARGV ! 2) KEYS))"

section \<open>Ack, nack, kill and extend\<close>

text \<open>
  What ack.lua, nack.lua and kill.lua have in common: the fencing check, and the removal of the job from the
  active set of its queue; \<open>rest\<close> is what follows.
\<close>

definition fenced_lua :: "redis \<Rightarrow> string \<Rightarrow> string \<Rightarrow> string \<Rightarrow> (string \<Rightarrow> reply lua) \<Rightarrow> reply lua" where
  "fenced_lua call job worker active_prefix rest =
     lua_bind (redis_call call (EXISTS job)) (\<lambda>e.
     if e = RInt 0 then lua_return (RArr [RInt 0, RBulk ''notfound''])
     else lua_bind (redis_call call (HGET job ''state'')) (\<lambda>state.
       lua_bind (redis_call call (HGET job ''owner'')) (\<lambda>owner.
       if state \<noteq> RBulk ''active'' \<or> owner \<noteq> RBulk worker
       then lua_return (RArr [RInt 0, RBulk ''lease'', RBulk (tostring state), RBulk (tostring owner)])
       else lua_bind (redis_call call (HGET job ''id'')) (\<lambda>x.
         lua_bind (redis_call call (HGET job ''queue'')) (\<lambda>y.
         lua_bind (lua_str y) (\<lambda>queue.
         lua_bind (lua_str x) (\<lambda>id.
         lua_bind (redis_call call (ZREM (active_prefix @ queue) id)) (\<lambda>_. rest id))))))))"

definition ack_lua :: "redis \<Rightarrow> string list \<Rightarrow> string list \<Rightarrow> reply lua" where
  "ack_lua call KEYS ARGV = fenced_lua call (KEYS ! 0) (ARGV ! 0) (ARGV ! 2) (\<lambda>id.
     lua_bind (redis_call call (INCR (KEYS ! 1))) (\<lambda>_.
     lua_bind (lua_num (RBulk (ARGV ! 1))) (\<lambda>ttl.
     if 0 < ttl then
       lua_bind (redis_call call (HSET (KEYS ! 0) [(''state'', ''completed''), (''owner'', [])])) (\<lambda>_.
       lua_bind (redis_call call (PEXPIRE (KEYS ! 0) ttl)) (\<lambda>_. lua_return (RArr [RInt 1])))
     else lua_bind (redis_call call (DEL (KEYS ! 0))) (\<lambda>_. lua_return (RArr [RInt 1])))))"

definition nack_lua :: "redis \<Rightarrow> string list \<Rightarrow> string list \<Rightarrow> reply lua" where
  "nack_lua call KEYS ARGV = fenced_lua call (KEYS ! 0) (ARGV ! 0) (ARGV ! 3) (\<lambda>id.
     lua_bind (redis_call call (HSET (KEYS ! 0) [(''last_err'', ARGV ! 2), (''owner'', [])])) (\<lambda>_.
     lua_bind (redis_call call (HGET (KEYS ! 0) ''attempt'')) (\<lambda>x.
     lua_bind (lua_num x) (\<lambda>attempt.
     lua_bind (redis_call call (HGET (KEYS ! 0) ''max_attempts'')) (\<lambda>y.
     lua_bind (lua_num y) (\<lambda>max_attempts.
     if max_attempts \<le> attempt then
       lua_bind (redis_call call (HSET (KEYS ! 0) [(''state'', ''dead'')])) (\<lambda>_.
       lua_bind (now_ms call) (\<lambda>now.
       lua_bind (redis_call call (ZADD (KEYS ! 2) now id)) (\<lambda>_.
       lua_bind (redis_call call (INCR (KEYS ! 3))) (\<lambda>_. lua_return (RArr [RInt 1, RBulk ''dead''])))))
     else
       lua_bind (redis_call call (HSET (KEYS ! 0) [(''state'', ''retry'')])) (\<lambda>_.
       lua_bind (lua_num (RBulk (ARGV ! 1))) (\<lambda>retry_at.
       lua_bind (redis_call call (ZADD (KEYS ! 1) retry_at id)) (\<lambda>_. lua_return (RArr [RInt 1, RBulk ''retry'']))))))))))"

definition kill_lua :: "redis \<Rightarrow> string list \<Rightarrow> string list \<Rightarrow> reply lua" where
  "kill_lua call KEYS ARGV = fenced_lua call (KEYS ! 0) (ARGV ! 0) (ARGV ! 2) (\<lambda>id.
     lua_bind (redis_call call (HSET (KEYS ! 0) [(''state'', ''dead''), (''owner'', []), (''last_err'', ARGV ! 1)])) (\<lambda>_.
     lua_bind (now_ms call) (\<lambda>now.
     lua_bind (redis_call call (ZADD (KEYS ! 1) now id)) (\<lambda>_.
     lua_bind (redis_call call (INCR (KEYS ! 2))) (\<lambda>_. lua_return (RArr [RInt 1]))))))"

text \<open>One job of extend.lua: whether its lease was renewed.\<close>

definition extend_one :: "redis \<Rightarrow> int \<Rightarrow> string \<Rightarrow> int \<Rightarrow> string \<Rightarrow> string \<Rightarrow> string \<Rightarrow> bool lua" where
  "extend_one call now worker vt job_prefix active_prefix i =
     lua_bind (redis_call call (EXISTS (job_prefix @ i))) (\<lambda>e.
     if e = RInt 1 then
       lua_bind (redis_call call (HGET (job_prefix @ i) ''state'')) (\<lambda>state.
       lua_bind (redis_call call (HGET (job_prefix @ i) ''owner'')) (\<lambda>owner.
       if state = RBulk ''active'' \<and> owner = RBulk worker then
         lua_bind (redis_call call (HGET (job_prefix @ i) ''queue'')) (\<lambda>y.
         lua_bind (redis_call call (HSET (job_prefix @ i) [(''deadline'', itoa (now + vt))])) (\<lambda>_.
         lua_bind (lua_str y) (\<lambda>queue.
         lua_bind (redis_call call (ZADD (active_prefix @ queue) (now + vt) i)) (\<lambda>_. lua_return True))))
       else lua_return False))
     else lua_return False)"

fun extend_jobs :: "redis \<Rightarrow> int \<Rightarrow> string \<Rightarrow> int \<Rightarrow> string \<Rightarrow> string \<Rightarrow> string list \<Rightarrow> string list \<Rightarrow> reply lua" where
  "extend_jobs call now worker vt job_prefix active_prefix [] lost = lua_return (RArr (map RBulk lost))"
| "extend_jobs call now worker vt job_prefix active_prefix (i # ids) lost =
     lua_bind (extend_one call now worker vt job_prefix active_prefix i) (\<lambda>renewed.
     extend_jobs call now worker vt job_prefix active_prefix ids (if renewed then lost else lost @ [i]))"

definition extend_lua :: "redis \<Rightarrow> string list \<Rightarrow> string list \<Rightarrow> reply lua" where
  "extend_lua call KEYS ARGV =
     lua_bind (now_ms call) (\<lambda>now.
     lua_bind (lua_num (RBulk (ARGV ! 1))) (\<lambda>vt.
     extend_jobs call now (ARGV ! 0) vt (ARGV ! 2) (ARGV ! 3) (drop 4 ARGV) []))"

section \<open>Reap, promote, heartbeat, leases and cron\<close>

text \<open>One expired entry: the counts of recovered and buried jobs grow by what it adds.\<close>

definition reap_entry :: "redis \<Rightarrow> int \<Rightarrow> string list \<Rightarrow> string \<Rightarrow> string \<Rightarrow> int \<times> int \<Rightarrow> (int \<times> int) lua" where
  "reap_entry call now KEYS job_prefix i counts =
     lua_bind (redis_call call (ZREM (KEYS ! 0) i)) (\<lambda>removed.
     if removed = RInt 1 then
       lua_bind (redis_call call (EXISTS (job_prefix @ i))) (\<lambda>e.
       if e = RInt 1 then
         lua_bind (redis_call call (HINCRBY (job_prefix @ i) ''recoveries'' 1)) (\<lambda>_.
         lua_bind (redis_call call (HSET (job_prefix @ i) [(''owner'', [])])) (\<lambda>_.
         lua_bind (redis_call call (HGET (job_prefix @ i) ''attempt'')) (\<lambda>x.
         lua_bind (lua_num x) (\<lambda>attempt.
         lua_bind (redis_call call (HGET (job_prefix @ i) ''max_attempts'')) (\<lambda>y.
         lua_bind (lua_num y) (\<lambda>max_attempts.
         if max_attempts \<le> attempt then
           lua_bind (redis_call call (HSET (job_prefix @ i) [(''state'', ''dead''),
             (''last_err'', ''orphaned: lease expired after '' @ itoa attempt @ '' attempts'')])) (\<lambda>_.
           lua_bind (redis_call call (ZADD (KEYS ! 1) now i)) (\<lambda>_.
           lua_bind (redis_call call (INCR (KEYS ! 3))) (\<lambda>_. lua_return (fst counts, snd counts + 1))))
         else
           lua_bind (redis_call call (HSET (job_prefix @ i) [(''state'', ''pending'')])) (\<lambda>_.
           lua_bind (redis_call call (LPUSH (KEYS ! 2) i)) (\<lambda>_. lua_return (fst counts + 1, snd counts)))))))))
       else lua_return counts)
     else lua_return counts)"

fun reap_entries :: "redis \<Rightarrow> int \<Rightarrow> string list \<Rightarrow> string \<Rightarrow> reply list \<Rightarrow> int \<times> int \<Rightarrow> reply lua" where
  "reap_entries call now KEYS job_prefix [] counts = lua_return (RArr [RInt (fst counts), RInt (snd counts)])"
| "reap_entries call now KEYS job_prefix (x # expired) counts =
     lua_bind (lua_str x) (\<lambda>id.
     lua_bind (reap_entry call now KEYS job_prefix id counts) (\<lambda>counts'.
     reap_entries call now KEYS job_prefix expired counts'))"

definition elements :: "reply \<Rightarrow> reply list" where
  "elements x = (case x of RArr xs \<Rightarrow> xs | _ \<Rightarrow> [])"

definition reap_lua :: "redis \<Rightarrow> string list \<Rightarrow> string list \<Rightarrow> reply lua" where
  "reap_lua call KEYS ARGV =
     lua_bind (now_ms call) (\<lambda>now.
     lua_bind (lua_num (RBulk (ARGV ! 0))) (\<lambda>limit.
     lua_bind (redis_call call (ZRANGEBYSCORE (KEYS ! 0) now limit)) (\<lambda>expired.
     reap_entries call now KEYS (ARGV ! 1) (elements expired) (0, 0))))"

definition promote_entry :: "redis \<Rightarrow> string \<Rightarrow> string \<Rightarrow> string \<Rightarrow> string \<Rightarrow> int \<Rightarrow> int lua" where
  "promote_entry call zset job_prefix queue_prefix i promoted =
     lua_bind (redis_call call (ZREM zset i)) (\<lambda>removed.
     if removed = RInt 1 then
       lua_bind (redis_call call (EXISTS (job_prefix @ i))) (\<lambda>e.
       if e = RInt 1 then
         lua_bind (redis_call call (HGET (job_prefix @ i) ''queue'')) (\<lambda>y.
         lua_bind (redis_call call (HSET (job_prefix @ i) [(''state'', ''pending''), (''owner'', [])])) (\<lambda>_.
         lua_bind (lua_str y) (\<lambda>queue.
         lua_bind (redis_call call (RPUSH (queue_prefix @ queue) i)) (\<lambda>_. lua_return (promoted + 1)))))
       else lua_return promoted)
     else lua_return promoted)"

fun promote_entries :: "redis \<Rightarrow> string \<Rightarrow> string \<Rightarrow> string \<Rightarrow> reply list \<Rightarrow> int \<Rightarrow> int lua" where
  "promote_entries call zset job_prefix queue_prefix [] promoted = lua_return promoted"
| "promote_entries call zset job_prefix queue_prefix (x # due) promoted =
     lua_bind (lua_str x) (\<lambda>id.
     lua_bind (promote_entry call zset job_prefix queue_prefix id promoted) (\<lambda>promoted'.
     promote_entries call zset job_prefix queue_prefix due promoted'))"

definition promote_set :: "redis \<Rightarrow> int \<Rightarrow> int \<Rightarrow> string \<Rightarrow> string \<Rightarrow> string \<Rightarrow> int \<Rightarrow> int lua" where
  "promote_set call now limit job_prefix queue_prefix zset promoted =
     (if promoted < limit then
        lua_bind (redis_call call (ZRANGEBYSCORE zset now (limit - promoted))) (\<lambda>due.
        promote_entries call zset job_prefix queue_prefix (elements due) promoted)
      else lua_return promoted)"

definition promote_lua :: "redis \<Rightarrow> string list \<Rightarrow> string list \<Rightarrow> reply lua" where
  "promote_lua call KEYS ARGV =
     lua_bind (now_ms call) (\<lambda>now.
     lua_bind (lua_num (RBulk (ARGV ! 0))) (\<lambda>limit.
     lua_bind (promote_set call now limit (ARGV ! 1) (ARGV ! 2) (KEYS ! 0) 0) (\<lambda>n.
     lua_bind (promote_set call now limit (ARGV ! 1) (ARGV ! 2) (KEYS ! 1) n) (\<lambda>m.
     lua_return (RInt m)))))"

definition heartbeat_lua :: "redis \<Rightarrow> string list \<Rightarrow> string list \<Rightarrow> reply lua" where
  "heartbeat_lua call KEYS ARGV =
     lua_bind (now_ms call) (\<lambda>now.
     lua_bind (lua_num (RBulk (ARGV ! 1))) (\<lambda>ttl.
     lua_bind (redis_call call (ZADD (KEYS ! 0) now (ARGV ! 0))) (\<lambda>_.
     lua_bind (redis_call call (HSET (KEYS ! 1) [(''id'', ARGV ! 0), (''host'', ARGV ! 2), (''pid'', ARGV ! 3),
       (''queues'', ARGV ! 4), (''concurrency'', ARGV ! 5), (''in_flight'', ARGV ! 6), (''started_at'', ARGV ! 7),
       (''last_beat'', itoa now)])) (\<lambda>_.
     lua_bind (redis_call call (PEXPIRE (KEYS ! 1) ttl)) (\<lambda>_.
     lua_bind (redis_call call (ZREMRANGEBYSCORE (KEYS ! 0) (now - ttl))) (\<lambda>_.
     lua_return (RInt 1)))))))"

definition lease_acquire_lua :: "redis \<Rightarrow> string list \<Rightarrow> string list \<Rightarrow> reply lua" where
  "lease_acquire_lua call KEYS ARGV =
     lua_bind (redis_call call (GET (KEYS ! 0))) (\<lambda>current.
     if current = RNil \<or> current = RBulk (ARGV ! 0) then
       lua_bind (lua_num (RBulk (ARGV ! 1))) (\<lambda>ttl.
       lua_bind (redis_call call (SET_PX (KEYS ! 0) (ARGV ! 0) ttl)) (\<lambda>_. lua_return (RInt 1)))
     else lua_return (RInt 0))"

definition lease_release_lua :: "redis \<Rightarrow> string list \<Rightarrow> string list \<Rightarrow> reply lua" where
  "lease_release_lua call KEYS ARGV =
     lua_bind (redis_call call (GET (KEYS ! 0))) (\<lambda>current.
     if current = RBulk (ARGV ! 0) then
       lua_bind (redis_call call (DEL (KEYS ! 0))) (\<lambda>_. lua_return (RInt 1))
     else lua_return (RInt 0))"

definition cron_claim_lua :: "redis \<Rightarrow> string list \<Rightarrow> string list \<Rightarrow> reply lua" where
  "cron_claim_lua call KEYS ARGV =
     lua_bind (redis_call call (ZSCORE (KEYS ! 0) (ARGV ! 0))) (\<lambda>score.
     if score = RNil then lua_return (RInt 0)
     else lua_bind (lua_num score) (\<lambda>at.
       lua_bind (lua_num (RBulk (ARGV ! 1))) (\<lambda>expected.
       if at \<noteq> expected then lua_return (RInt 0)
       else lua_bind (lua_num (RBulk (ARGV ! 2))) (\<lambda>next.
         lua_bind (redis_call call (ZADD (KEYS ! 0) next (ARGV ! 0))) (\<lambda>_. lua_return (RInt 1))))))"

end
