(* ===== verification/Redis_Server.thy ===== *)
theory Redis_Server
  imports Redis_Scripts
begin

text \<open>
  A concrete server that behaves as the documentation says, to show that the hypotheses on Redis can hold
  and to evaluate examples; and the rules by which a script is stepped through on any such server.
\<close>

section \<open>A concrete server\<close>

definition wrong_type :: "keyspace \<Rightarrow> reply \<times> keyspace" where
  "wrong_type s = (RErr ''WRONGTYPE'', s)"

definition on_hash :: "string \<Rightarrow> keyspace \<Rightarrow> ((string \<times> string) list \<Rightarrow> reply \<times> keyspace) \<Rightarrow> reply \<times> keyspace" where
  "on_hash k s f = (case as_hash (rs_keys s k) of None \<Rightarrow> wrong_type s | Some h \<Rightarrow> f h)"

definition on_list :: "string \<Rightarrow> keyspace \<Rightarrow> (string list \<Rightarrow> reply \<times> keyspace) \<Rightarrow> reply \<times> keyspace" where
  "on_list k s f = (case as_list (rs_keys s k) of None \<Rightarrow> wrong_type s | Some l \<Rightarrow> f l)"

definition on_zset :: "string \<Rightarrow> keyspace \<Rightarrow> ((string \<times> int) list \<Rightarrow> reply \<times> keyspace) \<Rightarrow> reply \<times> keyspace" where
  "on_zset k s f = (case as_zset (rs_keys s k) of None \<Rightarrow> wrong_type s | Some z \<Rightarrow> f z)"

fun ref_call :: redis where
  "ref_call TIME s = (RArr [RBulk (itoa (rs_sec s)), RBulk (itoa (rs_usec s))], s)"
| "ref_call (EXISTS k) s = (RInt (if rs_keys s k = None then 0 else 1), s)"
| "ref_call (HGET k f) s = on_hash k s (\<lambda>h. (case map_of h f of None \<Rightarrow> RNil | Some v \<Rightarrow> RBulk v, s))"
| "ref_call (HSET k fvs) s = on_hash k s (\<lambda>h. (RInt (int (length fvs)), put k (Some (RHash (hset_fields fvs h))) s))"
| "ref_call (HINCRBY k f n) s = on_hash k s (\<lambda>h. case counter_of (map_of h f) of
       None \<Rightarrow> (RErr ''ERR hash value is not an integer'', s)
     | Some i \<Rightarrow> (RInt (i + n), put k (Some (RHash (AList.update f (itoa (i + n)) h))) s))"
| "ref_call (HGETALL k) s = on_hash k s (\<lambda>h. (RArr (flatten h), s))"
| "ref_call (LPOP k) s = on_list k s (\<lambda>l. case l of [] \<Rightarrow> (RNil, s) | x # xs \<Rightarrow> (RBulk x, put_list k xs s))"
| "ref_call (LPUSH k x) s = on_list k s (\<lambda>l. (RInt (int (length l) + 1), put_list k (x # l) s))"
| "ref_call (RPUSH k x) s = on_list k s (\<lambda>l. (RInt (int (length l) + 1), put_list k (l @ [x]) s))"
| "ref_call (ZADD k sc m) s = on_zset k s (\<lambda>z. (RInt (if map_of z m = None then 1 else 0), put_zset k (AList.update m sc z) s))"
| "ref_call (ZADDNX k sc m) s = on_zset k s (\<lambda>z.
     if map_of z m = None then (RInt 1, put_zset k (AList.update m sc z) s) else (RInt 0, s))"
| "ref_call (ZREM k m) s = on_zset k s (\<lambda>z. (RInt (if map_of z m = None then 0 else 1), put_zset k (AList.delete m z) s))"
| "ref_call (ZSCORE k m) s = on_zset k s (\<lambda>z. (case map_of z m of None \<Rightarrow> RNil | Some sc \<Rightarrow> RBulk (itoa sc), s))"
| "ref_call (ZRANGEBYSCORE k mx n) s = on_zset k s (\<lambda>z. (RArr (map (\<lambda>d. RBulk (due_id d)) (in_score_order mx n z)), s))"
| "ref_call (ZRANGEBYSCORE_WITHSCORES k mx n) s = on_zset k s (\<lambda>z.
     (RArr (concat (map (\<lambda>d. [RBulk (due_id d), RBulk (itoa (due_at d))]) (in_score_order mx n z))), s))"
| "ref_call (ZREMRANGEBYSCORE k mx) s = on_zset k s (\<lambda>z.
     (RInt (int (length (filter (\<lambda>(m, sc). sc \<le> mx) z))), put_zset k (filter (\<lambda>(m, sc). mx < sc) z) s))"
| "ref_call (SADD k m) s = (case as_set (rs_keys s k) of
       None \<Rightarrow> wrong_type s
     | Some x \<Rightarrow> (RInt (if m \<in> set x then 0 else 1), put k (Some (RSet (List.insert m x))) s))"
| "ref_call (INCR k) s =
     (case counter_of (case rs_keys s k of None \<Rightarrow> None | Some (RStr x) \<Rightarrow> Some x | Some _ \<Rightarrow> Some []) of
        None \<Rightarrow> (RErr ''ERR value is not an integer'', s)
      | Some i \<Rightarrow> (RInt (i + 1), put k (Some (RStr (itoa (i + 1)))) s))"
| "ref_call (DEL k) s = (RInt (if rs_keys s k = None then 0 else 1), put k None s)"
| "ref_call (PEXPIRE k ttl) s = (RInt (if rs_keys s k = None then 0 else 1), if 0 < ttl then s else put k None s)"
| "ref_call (GET k) s = (case rs_keys s k of None \<Rightarrow> (RNil, s) | Some (RStr x) \<Rightarrow> (RBulk x, s) | Some _ \<Rightarrow> wrong_type s)"
| "ref_call (SET_NX_PX k x ttl) s =
     (if ttl \<le> 0 then (RErr ''ERR invalid expire time'', s)
      else if rs_keys s k = None then (RBulk ''OK'', put k (Some (RStr x)) s) else (RNil, s))"
| "ref_call (SET_PX k x ttl) s =
     (if ttl \<le> 0 then (RErr ''ERR invalid expire time'', s) else (RBulk ''OK'', put k (Some (RStr x)) s))"

lemma ref_call_reads: "redis_reads ref_call"
  unfolding redis_reads_def by (simp add: on_hash_def on_zset_def) blast

lemma ref_call_writes: "redis_writes ref_call"
  unfolding redis_writes_def by (simp add: on_hash_def on_list_def on_zset_def split: list.splits)

lemma ref_call_commands: "redis_commands ref_call"
  by (simp add: redis_commands_def ref_call_reads ref_call_writes)

section \<open>Stepping through a script\<close>

named_theorems lua_steps \<open>one step of a script on a server that behaves as documented\<close>

lemma lua_bind_return [lua_steps]: "lua_bind (lua_return x) f = f x"
  by (rule ext) (simp add: lua_bind_def lua_return_def)

lemma lua_num_simps [lua_steps]:
  "lua_num (RBulk (itoa i)) = lua_return i" "lua_num (RInt i) = lua_return i"
  by (simp_all add: lua_num_def)

lemma lua_num_parse [lua_steps]: "parse_int x = Some i \<Longrightarrow> lua_num (RBulk x) = lua_return i"
  by (simp add: lua_num_def)

lemma lua_str_simps [lua_steps]: "lua_str (RBulk x) = lua_return x"
  by (simp add: lua_str_def)

lemma bind_reads [lua_steps]:
  assumes "redis_commands call"
  shows "lua_bind (redis_call call TIME) f s = f (RArr [RBulk (itoa (rs_sec s)), RBulk (itoa (rs_usec s))]) s"
    and "lua_bind (redis_call call (EXISTS k)) f s = f (RInt (if rs_keys s k = None then 0 else 1)) s"
    and "as_hash (rs_keys s k) = Some h \<Longrightarrow>
      lua_bind (redis_call call (HGET k x)) f s = f (case map_of h x of None \<Rightarrow> RNil | Some v \<Rightarrow> RBulk v) s"
    and "as_zset (rs_keys s k) = Some z \<Longrightarrow>
      lua_bind (redis_call call (ZSCORE k x)) f s = f (case map_of z x of None \<Rightarrow> RNil | Some sc \<Rightarrow> RBulk (itoa sc)) s"
    and "as_zset (rs_keys s k) = Some z \<Longrightarrow>
      lua_bind (redis_call call (ZRANGEBYSCORE k mx n)) f s = f (RArr (map (\<lambda>d. RBulk (due_id d)) (in_score_order mx n z))) s"
    and "rs_keys s k = None \<Longrightarrow> lua_bind (redis_call call (GET k)) f s = f RNil s"
    and "rs_keys s k = Some (RStr x) \<Longrightarrow> lua_bind (redis_call call (GET k)) f s = f (RBulk x) s"
  using assms by (auto simp: redis_commands_def redis_reads_def lua_bind_def redis_call_def split: option.splits)

lemma bind_int: "call c s = (RInt n, s') \<Longrightarrow> lua_bind (redis_call call c) f s = f (RInt n) s'"
  by (simp add: lua_bind_def redis_call_def)

lemma bind_ignore:
  "\<exists>n. call c s = (RInt n, s') \<Longrightarrow> lua_bind (redis_call call c) (\<lambda>_. m) s = m s'"
  by (auto simp: lua_bind_def redis_call_def)

text \<open>For commands whose reply the scripts ignore, only the effect matters.\<close>

lemma bind_writes [lua_steps]:
  assumes "redis_commands call"
  shows "as_hash (rs_keys s k) = Some h \<Longrightarrow>
      lua_bind (redis_call call (HSET k fvs)) (\<lambda>_. m) s = m (put k (Some (RHash (hset_fields fvs h))) s)"
    and "as_hash (rs_keys s k) = Some h \<Longrightarrow> counter_of (map_of h x) = Some i \<Longrightarrow>
      lua_bind (redis_call call (HINCRBY k x n)) (\<lambda>_. m) s = m (put k (Some (RHash (AList.update x (itoa (i + n)) h))) s)"
    and "as_list (rs_keys s k) = Some l \<Longrightarrow> lua_bind (redis_call call (LPUSH k x)) (\<lambda>_. m) s = m (put_list k (x # l) s)"
    and "as_list (rs_keys s k) = Some l \<Longrightarrow> lua_bind (redis_call call (RPUSH k x)) (\<lambda>_. m) s = m (put_list k (l @ [x]) s)"
    and "as_zset (rs_keys s k) = Some z \<Longrightarrow> lua_bind (redis_call call (ZADD k sc x)) (\<lambda>_. m) s = m (put_zset k (AList.update x sc z) s)"
    and "as_zset (rs_keys s k) = Some z \<Longrightarrow>
      lua_bind (redis_call call (ZREM k x)) f s = f (RInt (if map_of z x = None then 0 else 1)) (put_zset k (AList.delete x z) s)"
    and "as_zset (rs_keys s k) = Some z \<Longrightarrow>
      lua_bind (redis_call call (ZREMRANGEBYSCORE k mx)) (\<lambda>_. m) s = m (put_zset k (filter (\<lambda>(x, sc). mx < sc) z) s)"
    and "as_set (rs_keys s k) = Some y \<Longrightarrow>
      lua_bind (redis_call call (SADD k x)) (\<lambda>_. m) s = m (put k (Some (RSet (List.insert x y))) s)"
    and "counter_of (case rs_keys s k of None \<Rightarrow> None | Some (RStr x) \<Rightarrow> Some x | Some _ \<Rightarrow> Some []) = Some i \<Longrightarrow>
      lua_bind (redis_call call (INCR k)) (\<lambda>_. m) s = m (put k (Some (RStr (itoa (i + 1)))) s)"
    and "lua_bind (redis_call call (DEL k)) (\<lambda>_. m) s = m (put k None s)"
    and "0 < ttl \<Longrightarrow> lua_bind (redis_call call (PEXPIRE k ttl)) (\<lambda>_. m) s = m s"
    and "0 < ttl \<Longrightarrow> lua_bind (redis_call call (SET_PX k x ttl)) (\<lambda>_. m) s = m (put k (Some (RStr x)) s)"
proof -
  have laws: "redis_writes call" using assms by (simp add: redis_commands_def)
  note w = laws [unfolded redis_writes_def, THEN conjunct1] laws [unfolded redis_writes_def, THEN conjunct2]
  show "as_hash (rs_keys s k) = Some h \<Longrightarrow>
      lua_bind (redis_call call (HSET k fvs)) (\<lambda>_. m) s = m (put k (Some (RHash (hset_fields fvs h))) s)"
    by (rule bind_ignore) (use w(1) in blast)
  show "as_hash (rs_keys s k) = Some h \<Longrightarrow> counter_of (map_of h x) = Some i \<Longrightarrow>
      lua_bind (redis_call call (HINCRBY k x n)) (\<lambda>_. m) s = m (put k (Some (RHash (AList.update x (itoa (i + n)) h))) s)"
    by (rule bind_ignore, rule exI) (use w(2) in simp)
  show "as_list (rs_keys s k) = Some l \<Longrightarrow> lua_bind (redis_call call (LPUSH k x)) (\<lambda>_. m) s = m (put_list k (x # l) s)"
    by (rule bind_ignore) (use w(2) in simp)
  show "as_list (rs_keys s k) = Some l \<Longrightarrow> lua_bind (redis_call call (RPUSH k x)) (\<lambda>_. m) s = m (put_list k (l @ [x]) s)"
    by (rule bind_ignore) (use w(2) in simp)
  show "as_zset (rs_keys s k) = Some z \<Longrightarrow> lua_bind (redis_call call (ZADD k sc x)) (\<lambda>_. m) s = m (put_zset k (AList.update x sc z) s)"
    by (rule bind_ignore) (use w(2) in simp)
  show "as_zset (rs_keys s k) = Some z \<Longrightarrow>
      lua_bind (redis_call call (ZREM k x)) f s = f (RInt (if map_of z x = None then 0 else 1)) (put_zset k (AList.delete x z) s)"
    by (rule bind_int) (use w(2) in simp)
  show "as_zset (rs_keys s k) = Some z \<Longrightarrow>
      lua_bind (redis_call call (ZREMRANGEBYSCORE k mx)) (\<lambda>_. m) s = m (put_zset k (filter (\<lambda>(x, sc). mx < sc) z) s)"
    by (rule bind_ignore) (use w(2) in simp)
  show "as_set (rs_keys s k) = Some y \<Longrightarrow>
      lua_bind (redis_call call (SADD k x)) (\<lambda>_. m) s = m (put k (Some (RSet (List.insert x y))) s)"
    by (rule bind_ignore) (use w(2) in simp)
  show "counter_of (case rs_keys s k of None \<Rightarrow> None | Some (RStr x) \<Rightarrow> Some x | Some _ \<Rightarrow> Some []) = Some i \<Longrightarrow>
      lua_bind (redis_call call (INCR k)) (\<lambda>_. m) s = m (put k (Some (RStr (itoa (i + 1)))) s)"
    by (rule bind_ignore) (use w(2) in simp)
  show "lua_bind (redis_call call (DEL k)) (\<lambda>_. m) s = m (put k None s)"
    by (rule bind_ignore) (use w(2) in simp)
  show "0 < ttl \<Longrightarrow> lua_bind (redis_call call (PEXPIRE k ttl)) (\<lambda>_. m) s = m s"
    by (rule bind_ignore) (use w(2) in simp)
  show "0 < ttl \<Longrightarrow> lua_bind (redis_call call (SET_PX k x ttl)) (\<lambda>_. m) s = m (put k (Some (RStr x)) s)"
    using w(2) by (simp add: lua_bind_def redis_call_def)
qed

lemma bind_pops [lua_steps]:
  assumes "redis_commands call"
  shows "as_list (rs_keys s k) = Some [] \<Longrightarrow> lua_bind (redis_call call (LPOP k)) f s = f RNil s"
    and "as_list (rs_keys s k) = Some (x # l) \<Longrightarrow> lua_bind (redis_call call (LPOP k)) f s = f (RBulk x) (put_list k l s)"
    and "0 < ttl \<Longrightarrow> rs_keys s k = None \<Longrightarrow>
      lua_bind (redis_call call (SET_NX_PX k x ttl)) f s = f (RBulk ''OK'') (put k (Some (RStr x)) s)"
    and "0 < ttl \<Longrightarrow> rs_keys s k = Some v \<Longrightarrow> lua_bind (redis_call call (SET_NX_PX k x ttl)) f s = f RNil s"
  using assms by (simp_all add: redis_commands_def redis_writes_def lua_bind_def redis_call_def)

definition clock_ms :: "keyspace \<Rightarrow> int" where
  "clock_ms s = rs_sec s * 1000 + rs_usec s div 1000"

lemma bind_now_ms [lua_steps]: "redis_commands call \<Longrightarrow> lua_bind (now_ms call) f s = f (clock_ms s) s"
  by (simp add: now_ms_def lua_bind_def [of "lua_bind m g" for m g] lua_steps clock_ms_def lua_return_def)

end
