(* ===== verification/Redis_Broker.thy ===== *)
theory Redis_Broker
  imports Redis_Scripts Job
begin

text \<open>
  The Redis broker, src/internal/rdb: keys, encodings, and every method as the arguments it passes to its
  script and what it makes of the reply. A round trip can fail before or after the server has run the
  script, which is the argument \<open>conn\<close>; the caller cannot tell the two apart. One round trip runs the script at
  most once: a call that go-redis sends again after a network error is a call with a lost reply or request
  followed by the same call. Reading the embedded scripts
  at startup cannot fail, since they are compiled in.
\<close>

section \<open>Round trips\<close>

datatype conn = Delivered | LostRequest string | LostReply string

datatype client_error = RedisNil | RedisError string

definition round_trip :: "conn \<Rightarrow> reply lua \<Rightarrow> keyspace \<Rightarrow> (client_error + reply) \<times> keyspace" where
  "round_trip conn script s = (case conn of
       LostRequest e \<Rightarrow> (Inl (RedisError e), s)
     | LostReply e \<Rightarrow> (Inl (RedisError e), snd (script s))
     | Delivered \<Rightarrow> (case script s of
           (Inl e, s') \<Rightarrow> (Inl (RedisError e), s')
         | (Inr RNil, s') \<Rightarrow> (Inl RedisNil, s')
         | (Inr x, s') \<Rightarrow> (Inr x, s')))"

text \<open>\<^verbatim>\<open>Slice\<close> of a go-redis command.\<close>

definition Slice :: "client_error + reply \<Rightarrow> client_error + reply list" where
  "Slice x = (case x of
       Inl e \<Rightarrow> Inl e
     | Inr (RArr xs) \<Rightarrow> Inr xs
     | Inr _ \<Rightarrow> Inl (RedisError ''redis: unexpected type for Slice''))"

fun error_text :: "client_error \<Rightarrow> string" where
  "error_text RedisNil = ''redis: nil''"
| "error_text (RedisError e) = e"

section \<open>Encodings\<close>

text \<open>
  \<^verbatim>\<open>strconv.ParseInt(s, 10, 64)\<close> with its error dropped: 0 for a syntax error, the nearest bound for a number
  out of range.
\<close>

definition atoi64 :: "string \<Rightarrow> int" where
  "atoi64 s =
     (let v = (case s of [] \<Rightarrow> None
                | c # ds \<Rightarrow> if c = CHR ''+'' then parse_digits ds else parse_int s)
      in case v of None \<Rightarrow> 0 | Some i \<Rightarrow> max (- (2 ^ 63)) (min (2 ^ 63 - 1) i))"

definition toInt64 :: "reply \<Rightarrow> int" where
  "toInt64 x = (case x of RInt n \<Rightarrow> n | RBulk t \<Rightarrow> atoi64 t | _ \<Rightarrow> 0)"

text \<open>\<^verbatim>\<open>Int\<close> of a go-redis command, and \<^verbatim>\<open>v, _ := x.(string)\<close>.\<close>

definition Int_reply :: "client_error + reply \<Rightarrow> client_error + int" where
  "Int_reply x = (case x of
       Inl e \<Rightarrow> Inl e
     | Inr (RInt n) \<Rightarrow> Inr n
     | Inr _ \<Rightarrow> Inl (RedisError ''redis: unexpected type for Int''))"

definition as_string :: "reply \<Rightarrow> string" where
  "as_string x = (case x of RBulk t \<Rightarrow> t | _ \<Rightarrow> [])"

definition msFromTime :: "time \<Rightarrow> int" where
  "msFromTime t = (if t = 0 then 0 else UnixMilli t)"

definition timeFromMs :: "int \<Rightarrow> time" where
  "timeFromMs ms = (if ms = 0 then 0 else (ms + 62135596800000) * Millisecond)"

definition Milliseconds :: "duration \<Rightarrow> int" where
  "Milliseconds d = (if 0 \<le> d then d div Millisecond else - ((- d) div Millisecond))"

definition state_of_string :: "string \<Rightarrow> state" where
  "state_of_string t = (case map_of (map (\<lambda>s. (state_String s, s))
       [StateNone, StateScheduled, StateRetry, StatePending, StateActive, StateCompleted, StateDead]) t of
     None \<Rightarrow> StateUnknown t | Some s \<Rightarrow> s)"

fun hash_pairs :: "reply list \<Rightarrow> (string \<times> string) list" where
  "hash_pairs (RBulk k # RBulk v # flat) = (k, v) # hash_pairs flat"
| "hash_pairs (_ # _ # flat) = hash_pairs flat"
| "hash_pairs _ = []"

definition hash_field :: "(string \<times> string) list \<Rightarrow> string \<Rightarrow> string" where
  "hash_field ps k = (case map_of (rev ps) k of None \<Rightarrow> [] | Some v \<Rightarrow> v)"

definition decodeJob :: "reply list \<Rightarrow> error + job" where
  "decodeJob flat =
     (if odd (length flat) then Inl (Plain (''taskq/rdb: malformed job hash: '' @ itoa (int (length flat)) @ '' fields''))
      else let m = hash_field (hash_pairs flat) in
        if m ''id'' = [] then Inl (Wrap ErrJobNotFound ''job hash has no id'')
        else Inr \<lparr>ID = m ''id'', Queue = m ''queue'', Type = m ''type'',
               Payload = (if m ''payload'' = [] then None else Some (m ''payload'')),
               Attempt = atoi64 (m ''attempt''), MaxAttempts = atoi64 (m ''max_attempts''),
               Recoveries = atoi64 (m ''recoveries''), State = state_of_string (m ''state''), Owner = m ''owner'',
               UniqueKey = m ''unique_key'', UniqueTTL = 0, LastErr = m ''last_err'',
               EnqueuedAt = timeFromMs (atoi64 (m ''enqueued_at'')), RunAt = timeFromMs (atoi64 (m ''run_at'')),
               StartedAt = timeFromMs (atoi64 (m ''started_at'')), Deadline = timeFromMs (atoi64 (m ''deadline''))\<rparr>)"

section \<open>The broker and its keys\<close>

definition DefaultPrefix :: string where
  "DefaultPrefix = ''taskq''"

definition DefaultCompletedTTL :: duration where
  "DefaultCompletedTTL = Hour"

record rdb =
  rdb_prefix :: string
  rdb_completedTTL :: duration

definition WithPrefix :: "string \<Rightarrow> rdb \<Rightarrow> rdb" where
  "WithPrefix p b = b\<lparr>rdb_prefix := p\<rparr>"

definition WithCompletedTTL :: "duration \<Rightarrow> rdb \<Rightarrow> rdb" where
  "WithCompletedTTL d b = b\<lparr>rdb_completedTTL := d\<rparr>"

text \<open>The first argument says whether the client is there.\<close>

definition rdb_New :: "bool \<Rightarrow> (rdb \<Rightarrow> rdb) list \<Rightarrow> string + rdb" where
  "rdb_New client opts =
     (if \<not> client then Inl ''taskq/rdb: nil redis client''
      else let b = fold (\<lambda>opt b. opt b) opts \<lparr>rdb_prefix = DefaultPrefix, rdb_completedTTL = DefaultCompletedTTL\<rparr>
           in if rdb_prefix b = [] then Inl ''taskq/rdb: empty key prefix'' else Inr b)"

definition kJob :: "rdb \<Rightarrow> string \<Rightarrow> string" where "kJob b i = rdb_prefix b @ '':job:'' @ i"
definition kQueue :: "rdb \<Rightarrow> string \<Rightarrow> string" where "kQueue b q = rdb_prefix b @ '':q:'' @ q"
definition kActive :: "rdb \<Rightarrow> string \<Rightarrow> string" where "kActive b q = rdb_prefix b @ '':active:'' @ q"
definition kUnique :: "rdb \<Rightarrow> string \<Rightarrow> string" where "kUnique b k = rdb_prefix b @ '':unique:'' @ k"
definition kDelayed :: "rdb \<Rightarrow> string" where "kDelayed b = rdb_prefix b @ '':delayed''"
definition kRetry :: "rdb \<Rightarrow> string" where "kRetry b = rdb_prefix b @ '':retry''"
definition kDead :: "rdb \<Rightarrow> string" where "kDead b = rdb_prefix b @ '':dead''"
definition kQueues :: "rdb \<Rightarrow> string" where "kQueues b = rdb_prefix b @ '':queues''"
definition kProcessed :: "rdb \<Rightarrow> string" where "kProcessed b = rdb_prefix b @ '':stat:processed''"
definition kFailed :: "rdb \<Rightarrow> string" where "kFailed b = rdb_prefix b @ '':stat:failed''"
definition kWorkers :: "rdb \<Rightarrow> string" where "kWorkers b = rdb_prefix b @ '':workers''"
definition kWorker :: "rdb \<Rightarrow> string \<Rightarrow> string" where "kWorker b i = rdb_prefix b @ '':worker:'' @ i"
definition kLease :: "rdb \<Rightarrow> string \<Rightarrow> string" where "kLease b n = rdb_prefix b @ '':lease:'' @ n"
definition kCron :: "rdb \<Rightarrow> string" where "kCron b = rdb_prefix b @ '':cron''"
definition pJob :: "rdb \<Rightarrow> string" where "pJob b = rdb_prefix b @ '':job:''"
definition pActive :: "rdb \<Rightarrow> string" where "pActive b = rdb_prefix b @ '':active:''"

section \<open>The hot path\<close>

definition defaultUniqueTTL :: duration where
  "defaultUniqueTTL = Hour"

definition rdb_enqueue_args :: "rdb \<Rightarrow> job \<Rightarrow> string list \<times> string list" where
  "rdb_enqueue_args b j =
     (let uniqueTTL = (if UniqueKey j \<noteq> [] then Milliseconds (if UniqueTTL j \<le> 0 then defaultUniqueTTL else UniqueTTL j) else 0);
          uniqueKey = (if UniqueKey j \<noteq> [] then kUnique b (UniqueKey j) else kUnique b ''__none__'')
      in ([kJob b (ID j), kQueue b (Queue j), kDelayed b, kQueues b, uniqueKey],
          [ID j, Queue j, Type j, (case Payload j of None \<Rightarrow> [] | Some p \<Rightarrow> p), itoa (MaxAttempts j),
           itoa (msFromTime (RunAt j)), itoa uniqueTTL, UniqueKey j]))"

text \<open>\<open>newID\<close> and \<open>now\<close> are what \<^verbatim>\<open>NewID()\<close> and \<^verbatim>\<open>time.Now()\<close> return on the producer.\<close>

definition rdb_Enqueue :: "redis \<Rightarrow> conn \<Rightarrow> rdb \<Rightarrow> string \<Rightarrow> time \<Rightarrow> job option \<Rightarrow> keyspace \<Rightarrow> error option \<times> job option \<times> keyspace" where
  "rdb_Enqueue call conn b newID now jo s = (case jo of
       None \<Rightarrow> (Some (Wrap ErrInvalidTask ''nil job''), None, s)
     | Some j0 \<Rightarrow>
         if Queue j0 = [] then (Some (Wrap ErrInvalidTask ''job has no queue''), Some j0, s)
         else if Type j0 = [] then (Some (Wrap ErrInvalidTask ''job has no type''), Some j0, s)
         else
           (let j1 = (if ID j0 = [] then j0\<lparr>ID := newID\<rparr> else j0);
                j = (if MaxAttempts j1 \<le> 0 then j1\<lparr>MaxAttempts := DefaultMaxAttempts\<rparr> else j1)
            in case rdb_enqueue_args b j of (keys, args) \<Rightarrow>
              (case round_trip conn (enqueue_lua call keys args) s of (res, s') \<Rightarrow>
                (case Slice res of
                   Inl e \<Rightarrow> (Some (Plain (''taskq/rdb: enqueue '' @ ID j @ '': '' @ error_text e)), Some j, s')
                 | Inr [] \<Rightarrow> (Some (Plain (''taskq/rdb: empty enqueue reply for job '' @ ID j)), Some j, s')
                 | Inr (x # xs) \<Rightarrow>
                     if toInt64 x = 0
                     then (Some (DuplicateError (UniqueKey j) (case xs of [] \<Rightarrow> [] | y # _ \<Rightarrow> as_string y)), Some j, s')
                     else (None, Some (j\<lparr>State := (if RunAt j \<noteq> 0 \<and> now < RunAt j then StateScheduled else StatePending)\<rparr>), s')))))"

definition rdb_Dequeue :: "redis \<Rightarrow> conn \<Rightarrow> rdb \<Rightarrow> claim_opts \<Rightarrow> keyspace \<Rightarrow> (error + job) \<times> keyspace" where
  "rdb_Dequeue call conn b opts s =
     (if WorkerID opts = [] then (Inl (Wrap ErrInvalidTask ''empty worker ID''), s)
      else if VisibilityTimeout opts \<le> 0 then (Inl (Wrap ErrInvalidTask ''visibility timeout must be positive''), s)
      else if Queues opts = [] then (Inl (Wrap ErrNoJob []), s)
      else
        (let keys = concat (map (\<lambda>q. [kQueue b q, kActive b q]) (Queues opts));
             args = [WorkerID opts, itoa (Milliseconds (VisibilityTimeout opts)), pJob b]
         in case round_trip conn (dequeue_lua call keys args) s of (res, s') \<Rightarrow>
              (case Slice res of
                 Inl RedisNil \<Rightarrow> (Inl (Wrap ErrNoJob []), s')
               | Inl e \<Rightarrow> (Inl (Plain (''taskq/rdb: dequeue: '' @ error_text e)), s')
               | Inr flat \<Rightarrow> (decodeJob flat, s'))))"

definition rdb_Extend :: "redis \<Rightarrow> conn \<Rightarrow> rdb \<Rightarrow> string \<Rightarrow> string list \<Rightarrow> duration \<Rightarrow> keyspace \<Rightarrow> (error + string list) \<times> keyspace" where
  "rdb_Extend call conn b workerID jobIDs vt s =
     (if vt \<le> 0 then (Inl (Wrap ErrInvalidTask ''visibility timeout must be positive''), s)
      else if jobIDs = [] then (Inr [], s)
      else
        (let args = [workerID, itoa (Milliseconds vt), pJob b, pActive b] @ jobIDs
         in case round_trip conn (extend_lua call [] args) s of (res, s') \<Rightarrow>
              (case Slice res of
                 Inl e \<Rightarrow> (Inl (Plain (''taskq/rdb: extend: '' @ error_text e)), s')
               | Inr xs \<Rightarrow> (Inr (concat (map (\<lambda>x. case x of RBulk t \<Rightarrow> [t] | _ \<Rightarrow> []) xs)), s'))))"

text \<open>The text of an error is kept where callers do not branch on it.\<close>

definition fenceError :: "reply list \<Rightarrow> string \<Rightarrow> string \<Rightarrow> error option" where
  "fenceError res jobID workerID = (case res of
       [] \<Rightarrow> Some (Plain (''taskq/rdb: empty script reply for job '' @ jobID))
     | x # xs \<Rightarrow>
         if toInt64 x = 1 then None
         else (let reason = (case xs of [] \<Rightarrow> [] | y # _ \<Rightarrow> as_string y) in
           if reason = ''notfound'' then Some (Wrap ErrJobNotFound jobID)
           else if reason = ''lease'' then
             (let state = (if 2 < length res then as_string (res ! 2) else ''?'');
                  owner = (if 3 < length res then as_string (res ! 3) else ''?'')
              in Some (Wrap ErrLeaseLost (''job '' @ jobID @ '' is '' @ state @ '' owned by '' @ go_quote owner
                         @ '', not '' @ go_quote workerID)))
           else Some (Plain (''taskq/rdb: job '' @ jobID @ '' rejected: '' @ reason))))"

definition rdb_report :: "string \<Rightarrow> conn \<Rightarrow> reply lua \<Rightarrow> string \<Rightarrow> string \<Rightarrow> keyspace \<Rightarrow> error option \<times> keyspace" where
  "rdb_report what conn script workerID jobID s = (case round_trip conn script s of (res, s') \<Rightarrow>
     (case Slice res of
        Inl e \<Rightarrow> (Some (Plain (''taskq/rdb: '' @ what @ '' '' @ jobID @ '': '' @ error_text e)), s')
      | Inr xs \<Rightarrow> (fenceError xs jobID workerID, s')))"

definition rdb_Ack :: "redis \<Rightarrow> conn \<Rightarrow> rdb \<Rightarrow> string \<Rightarrow> string \<Rightarrow> keyspace \<Rightarrow> error option \<times> keyspace" where
  "rdb_Ack call conn b workerID jobID =
     rdb_report ''ack'' conn (ack_lua call [kJob b jobID, kProcessed b]
       [workerID, itoa (Milliseconds (rdb_completedTTL b)), pActive b]) workerID jobID"

definition rdb_Nack :: "redis \<Rightarrow> conn \<Rightarrow> rdb \<Rightarrow> string \<Rightarrow> string \<Rightarrow> time \<Rightarrow> string \<Rightarrow> keyspace \<Rightarrow> error option \<times> keyspace" where
  "rdb_Nack call conn b workerID jobID retryAt reason =
     rdb_report ''nack'' conn (nack_lua call [kJob b jobID, kRetry b, kDead b, kFailed b]
       [workerID, itoa (msFromTime retryAt), reason, pActive b]) workerID jobID"

definition rdb_Kill :: "redis \<Rightarrow> conn \<Rightarrow> rdb \<Rightarrow> string \<Rightarrow> string \<Rightarrow> string \<Rightarrow> keyspace \<Rightarrow> error option \<times> keyspace" where
  "rdb_Kill call conn b workerID jobID reason =
     rdb_report ''kill'' conn (kill_lua call [kJob b jobID, kDead b, kFailed b]
       [workerID, reason, pActive b]) workerID jobID"

section \<open>Maintenance\<close>

definition rdb_reap_queue :: "redis \<Rightarrow> conn \<Rightarrow> rdb \<Rightarrow> string \<Rightarrow> int \<Rightarrow> keyspace \<Rightarrow> (error + int \<times> int) \<times> keyspace" where
  "rdb_reap_queue call conn b q limit s =
     (case round_trip conn (reap_lua call [kActive b q, kDead b, kQueue b q, kFailed b] [itoa limit, pJob b]) s of (res, s') \<Rightarrow>
       (case Slice res of
          Inl e \<Rightarrow> (Inl (Plain (''taskq/rdb: reap queue '' @ q @ '': '' @ error_text e)), s')
        | Inr (x # y # _) \<Rightarrow> (Inr (toInt64 x, toInt64 y), s')
        | Inr _ \<Rightarrow> (Inl (Plain (''taskq/rdb: malformed reap reply for queue '' @ q)), s')))"

text \<open>The loop of Reap returns the total so far together with the error; \<open>conns\<close> is what happens to each round trip.\<close>

fun rdb_reap_loop :: "redis \<Rightarrow> (string \<Rightarrow> conn) \<Rightarrow> rdb \<Rightarrow> string list \<Rightarrow> int \<Rightarrow> int \<Rightarrow> keyspace \<Rightarrow> int \<times> error option \<times> keyspace" where
  "rdb_reap_loop call conns b [] limit n s = (n, None, s)"
| "rdb_reap_loop call conns b (q # qs) limit n s =
     (case rdb_reap_queue call (conns q) b q limit s of
        (Inl e, s') \<Rightarrow> (n, Some e, s')
      | (Inr (recovered, dead), s') \<Rightarrow> rdb_reap_loop call conns b qs limit (n + recovered + dead) s')"

definition rdb_Reap :: "redis \<Rightarrow> (string \<Rightarrow> conn) \<Rightarrow> rdb \<Rightarrow> string list \<Rightarrow> int \<Rightarrow> keyspace \<Rightarrow> int \<times> error option \<times> keyspace" where
  "rdb_Reap call conns b qs limit s = (if limit \<le> 0 then (0, None, s) else rdb_reap_loop call conns b qs limit 0 s)"

definition rdb_ReapDetail :: "redis \<Rightarrow> conn \<Rightarrow> rdb \<Rightarrow> string \<Rightarrow> int \<Rightarrow> keyspace \<Rightarrow> (error + int \<times> int) \<times> keyspace" where
  "rdb_ReapDetail call conn b q limit s = (if limit \<le> 0 then (Inr (0, 0), s) else rdb_reap_queue call conn b q limit s)"

definition rdb_Promote :: "redis \<Rightarrow> conn \<Rightarrow> rdb \<Rightarrow> int \<Rightarrow> keyspace \<Rightarrow> (error + int) \<times> keyspace" where
  "rdb_Promote call conn b limit s =
     (if limit \<le> 0 then (Inr 0, s)
      else case round_trip conn (promote_lua call [kDelayed b, kRetry b] [itoa limit, pJob b, rdb_prefix b @ '':q:'']) s of (res, s') \<Rightarrow>
        (case Int_reply res of
           Inl e \<Rightarrow> (Inl (Plain (''taskq/rdb: promote: '' @ error_text e)), s')
         | Inr n \<Rightarrow> (Inr n, s')))"

definition rdb_Heartbeat :: "redis \<Rightarrow> conn \<Rightarrow> rdb \<Rightarrow> worker_info \<Rightarrow> duration \<Rightarrow> keyspace \<Rightarrow> error option \<times> keyspace" where
  "rdb_Heartbeat call conn b w ttl s =
     (if w_ID w = [] then (Some (Wrap ErrInvalidTask ''empty worker ID''), s)
      else if ttl \<le> 0 then (Some (Wrap ErrInvalidTask ''heartbeat ttl must be positive''), s)
      else case round_trip conn (heartbeat_lua call [kWorkers b, kWorker b (w_ID w)]
             [w_ID w, itoa (Milliseconds ttl), w_Host w, itoa (w_PID w), join (CHR '','') (w_Queues w), itoa (w_Concurrency w),
              itoa (w_InFlight w), itoa (msFromTime (w_StartedAt w))]) s of (res, s') \<Rightarrow>
        (case res of
           Inl e \<Rightarrow> (Some (Plain (''taskq/rdb: heartbeat '' @ w_ID w @ '': '' @ error_text e)), s')
         | Inr _ \<Rightarrow> (None, s')))"

definition rdb_AcquireLease :: "redis \<Rightarrow> conn \<Rightarrow> rdb \<Rightarrow> string \<Rightarrow> string \<Rightarrow> duration \<Rightarrow> keyspace \<Rightarrow> (error + bool) \<times> keyspace" where
  "rdb_AcquireLease call conn b name owner ttl s =
     (if name = [] \<or> owner = [] then (Inl (Wrap ErrInvalidTask ''lease name and owner must be non-empty''), s)
      else if ttl \<le> 0 then (Inl (Wrap ErrInvalidTask ''lease ttl must be positive''), s)
      else case round_trip conn (lease_acquire_lua call [kLease b name] [owner, itoa (Milliseconds ttl)]) s of (res, s') \<Rightarrow>
        (case Int_reply res of
           Inl e \<Rightarrow> (Inl (Plain (''taskq/rdb: acquire lease '' @ name @ '': '' @ error_text e)), s')
         | Inr held \<Rightarrow> (Inr (held = 1), s')))"

definition rdb_ReleaseLease :: "redis \<Rightarrow> conn \<Rightarrow> rdb \<Rightarrow> string \<Rightarrow> string \<Rightarrow> keyspace \<Rightarrow> error option \<times> keyspace" where
  "rdb_ReleaseLease call conn b name owner s =
     (if name = [] \<or> owner = [] then (Some (Wrap ErrInvalidTask ''lease name and owner must be non-empty''), s)
      else case round_trip conn (lease_release_lua call [kLease b name] [owner]) s of (res, s') \<Rightarrow>
        (case res of
           Inl e \<Rightarrow> (Some (Plain (''taskq/rdb: release lease '' @ name @ '': '' @ error_text e)), s')
         | Inr _ \<Rightarrow> (None, s')))"

section \<open>Cron store\<close>

definition rdb_ScheduleCronIfAbsent :: "redis \<Rightarrow> conn \<Rightarrow> rdb \<Rightarrow> string \<Rightarrow> time \<Rightarrow> keyspace \<Rightarrow> (error + bool) \<times> keyspace" where
  "rdb_ScheduleCronIfAbsent call conn b i at s =
     (if i = [] then (Inl (Wrap ErrInvalidTask ''cron entry has no ID''), s)
      else case round_trip conn (redis_call call (ZADDNX (kCron b) (UnixMilli at) i)) s of (res, s') \<Rightarrow>
        (case Int_reply res of
           Inl e \<Rightarrow> (Inl (Plain (''taskq/rdb: schedule cron '' @ i @ '': '' @ error_text e)), s')
         | Inr n \<Rightarrow> (Inr (n = 1), s')))"

fun due_pairs :: "reply list \<Rightarrow> due_entry list" where
  "due_pairs (RBulk i # sc # xs) = Due i ((toInt64 sc + 62135596800000) * Millisecond) # due_pairs xs"
| "due_pairs (_ # _ # xs) = due_pairs xs"
| "due_pairs _ = []"

text \<open>Two round trips: the server's time, and the entries up to it.\<close>

definition rdb_DueCron :: "redis \<Rightarrow> conn \<Rightarrow> conn \<Rightarrow> rdb \<Rightarrow> int \<Rightarrow> keyspace \<Rightarrow> error + due_entry list" where
  "rdb_DueCron call conn conn' b limit s =
     (if limit \<le> 0 then Inr []
      else case round_trip conn (\<lambda>s. case now_ms call s of (Inl e, s') \<Rightarrow> (Inl e, s') | (Inr t, s') \<Rightarrow> (Inr (RInt t), s')) s of (res, s') \<Rightarrow>
        (case Int_reply res of
           Inl e \<Rightarrow> Inl (Plain (''taskq/rdb: read server time: '' @ error_text e))
         | Inr now \<Rightarrow>
             (case Slice (fst (round_trip conn' (redis_call call (ZRANGEBYSCORE_WITHSCORES (kCron b) now limit)) s')) of
                Inl e \<Rightarrow> Inl (Plain (''taskq/rdb: read due cron entries: '' @ error_text e))
              | Inr xs \<Rightarrow> Inr (due_pairs xs))))"

definition rdb_ClaimCron :: "redis \<Rightarrow> conn \<Rightarrow> rdb \<Rightarrow> string \<Rightarrow> time \<Rightarrow> time \<Rightarrow> keyspace \<Rightarrow> (error + bool) \<times> keyspace" where
  "rdb_ClaimCron call conn b i firedAt nextAt s =
     (if i = [] then (Inl (Wrap ErrInvalidTask ''cron entry has no ID''), s)
      else case round_trip conn (cron_claim_lua call [kCron b] [i, itoa (UnixMilli firedAt), itoa (UnixMilli nextAt)]) s of (res, s') \<Rightarrow>
        (case Int_reply res of
           Inl e \<Rightarrow> (Inl (Plain (''taskq/rdb: claim cron '' @ i @ '': '' @ error_text e)), s')
         | Inr won \<Rightarrow> (Inr (won = 1), s')))"

definition rdb_RemoveCron :: "redis \<Rightarrow> conn \<Rightarrow> rdb \<Rightarrow> string \<Rightarrow> keyspace \<Rightarrow> error option \<times> keyspace" where
  "rdb_RemoveCron call conn b i s =
     (case round_trip conn (redis_call call (ZREM (kCron b) i)) s of (res, s') \<Rightarrow>
       (case res of
          Inl e \<Rightarrow> (Some (Plain (''taskq/rdb: remove cron '' @ i @ '': '' @ error_text e)), s')
        | Inr _ \<Rightarrow> (None, s')))"

end
