(* ===== verification/Redis_Keys.thy ===== *)
theory Redis_Keys
  imports Redis_Server Redis_Broker
begin

text \<open>
  The keys of a broker, free of their spelling: \<open>at b s\<close> is the part of the keyspace that the broker with
  prefix and options \<open>b\<close> sees, as a function of the kind of key.
\<close>

section \<open>Keys\<close>

datatype rkey = KJob string | KQueue string | KActive string | KUnique string | KDelayed | KRetry | KDead | KQueues
  | KProcessed | KFailed | KWorkers | KWorker string | KLease string | KCron

fun key_name :: "rdb \<Rightarrow> rkey \<Rightarrow> string" where
  "key_name b (KJob i) = kJob b i"
| "key_name b (KQueue q) = kQueue b q"
| "key_name b (KActive q) = kActive b q"
| "key_name b (KUnique k) = kUnique b k"
| "key_name b KDelayed = kDelayed b"
| "key_name b KRetry = kRetry b"
| "key_name b KDead = kDead b"
| "key_name b KQueues = kQueues b"
| "key_name b KProcessed = kProcessed b"
| "key_name b KFailed = kFailed b"
| "key_name b KWorkers = kWorkers b"
| "key_name b (KWorker i) = kWorker b i"
| "key_name b (KLease n) = kLease b n"
| "key_name b KCron = kCron b"

lemmas key_defs = kJob_def kQueue_def kActive_def kUnique_def kDelayed_def kRetry_def kDead_def kQueues_def kProcessed_def
  kFailed_def kWorkers_def kWorker_def kLease_def kCron_def

lemma key_name_inj: "key_name b x = key_name b y \<longleftrightarrow> x = y"
  by (cases x; cases y) (simp_all add: key_defs)

text \<open>
  C23. The keys of a broker never collide: whatever job IDs, queue names, unique keys, worker IDs and lease
  names applications choose (colons included), two different things never share a Redis key.
\<close>

theorem keys_never_collide: "inj (key_name b)"
  by (rule injI) (simp add: key_name_inj)

lemmas key_fold = key_name.simps [symmetric]

lemma prefix_fold:
  "pJob b @ i = key_name b (KJob i)" "pActive b @ q = key_name b (KActive q)" "(rdb_prefix b @ '':q:'') @ q = key_name b (KQueue q)"
  by (simp_all add: pJob_def pActive_def key_defs)

declare key_name.simps [simp del]

section \<open>The view of a broker\<close>

type_synonym view = "rkey \<Rightarrow> rvalue option"

definition at :: "rdb \<Rightarrow> keyspace \<Rightarrow> view" where
  "at b s x = rs_keys s (key_name b x)"

text \<open>A value for a sorted set or a list, absent when empty.\<close>

definition zval :: "(string \<times> int) list \<Rightarrow> rvalue option" where
  "zval z = (if z = [] then None else Some (RZset z))"

definition lval :: "string list \<Rightarrow> rvalue option" where
  "lval l = (if l = [] then None else Some (RList l))"

lemma as_val [simp]: "as_zset (zval z) = Some z" "as_list (lval l) = Some l"
  by (simp_all add: zval_def lval_def)

lemma at_put [simp]:
  "at b (put (key_name b x) v s) = (at b s)(x := v)"
  "at b (put_list (key_name b x) l s) = (at b s)(x := lval l)"
  "at b (put_zset (key_name b x) z s) = (at b s)(x := zval z)"
  by (rule ext, simp add: at_def put_def put_list_def put_zset_def key_name_inj lval_def zval_def)+

lemma rs_keys_at: "rs_keys s (key_name b x) = at b s x"
  by (simp add: at_def)

lemma clock_put [simp]:
  "clock_ms (put k v s) = clock_ms s" "clock_ms (put_list k l s) = clock_ms s" "clock_ms (put_zset k z s) = clock_ms s"
  by (simp_all add: clock_ms_def put_def put_list_def put_zset_def)

end
