(* ===== verification/Redis_Wf.thy ===== *)
theory Redis_Wf
  imports Redis_Keys Broker_Interface
begin

text \<open>
  The invariant of the Redis keyspace, on the view of a broker: every key holds a value of its own kind, a
  job is in exactly the container that its state names, and the score of an active job is its deadline. The
  jobs of the abstract lifecycle are the decoded hashes; a completed job, which only waits for its key to
  expire, is none. A script moves one job at a time from one container to another: \<open>rdb_wf_relocate\<close> and its
  variants say once that such a move keeps the invariant.
\<close>

section \<open>Jobs\<close>

type_synonym hash = "(string \<times> string) list"

text \<open>No key twice.\<close>

definition proper :: "('a \<times> 'b) list \<Rightarrow> bool" where
  "proper h \<longleftrightarrow> distinct (map fst h)"

lemma proper_simps [simp]:
  "proper []" "proper h \<Longrightarrow> proper (AList.update f v h)" "proper h \<Longrightarrow> proper (AList.delete f h)" "proper h \<Longrightarrow> proper (filter P h)"
  by (auto simp: proper_def distinct_map_filter)

definition fld :: "hash \<Rightarrow> string \<Rightarrow> string" where
  "fld h f = (case map_of h f of None \<Rightarrow> [] | Some v \<Rightarrow> v)"

definition num :: "hash \<Rightarrow> string \<Rightarrow> int" where
  "num h f = (case parse_int (fld h f) of None \<Rightarrow> 0 | Some n \<Rightarrow> n)"

definition job_of :: "hash \<Rightarrow> job" where
  "job_of h = \<lparr>ID = fld h ''id'', Queue = fld h ''queue'', Type = fld h ''type'',
     Payload = (if fld h ''payload'' = [] then None else Some (fld h ''payload'')),
     Attempt = num h ''attempt'', MaxAttempts = num h ''max_attempts'', Recoveries = num h ''recoveries'',
     State = state_of_string (fld h ''state''), Owner = fld h ''owner'', UniqueKey = fld h ''unique_key'', UniqueTTL = 0,
     LastErr = fld h ''last_err'', EnqueuedAt = timeFromMs (num h ''enqueued_at''), RunAt = timeFromMs (num h ''run_at''),
     StartedAt = timeFromMs (num h ''started_at''), Deadline = timeFromMs (num h ''deadline'')\<rparr>"

lemma fld_simps [simp]:
  "fld (AList.update f v h) g = (if g = f then v else fld h g)" "num (AList.update f (itoa n) h) f = n"
  "g \<noteq> f \<Longrightarrow> num (AList.update f v h) g = num h g" "hset_fields [] h = h"
  "hset_fields ((f, v) # fvs) h = hset_fields fvs (AList.update f v h)"
  by (auto simp: fld_def num_def hset_fields_def update_conv')

lemma job_of_simps:
  "State (job_of h) = state_of_string (fld h ''state'')" "Owner (job_of h) = fld h ''owner''"
  "Exhausted (job_of h) \<longleftrightarrow> num h ''max_attempts'' \<le> num h ''attempt''" "Deadline (job_of h) = timeFromMs (num h ''deadline'')"
  "ID (job_of h) = fld h ''id''" "MaxAttempts (job_of h) = num h ''max_attempts''" "Attempt (job_of h) = num h ''attempt''"
  by (simp_all add: job_of_def Exhausted_def)

text \<open>The states that a stored hash can have.\<close>

lemma state_of_string_simps [simp]:
  "state_of_string ''pending'' = StatePending" "state_of_string ''scheduled'' = StateScheduled" "state_of_string ''retry'' = StateRetry"
  "state_of_string ''active'' = StateActive" "state_of_string ''completed'' = StateCompleted" "state_of_string ''dead'' = StateDead"
  by (simp_all add: state_of_string_def)

definition hash_states :: "string list" where
  "hash_states = [''pending'', ''scheduled'', ''retry'', ''active'', ''completed'', ''dead'']"

definition job_ok :: "string \<Rightarrow> hash \<Rightarrow> bool" where
  "job_ok i h \<longleftrightarrow> proper h \<and> map_of h ''id'' = Some i \<and> map_of h ''queue'' \<noteq> None
     \<and> (\<exists>st \<in> set hash_states. map_of h ''state'' = Some st)
     \<and> map_of h ''owner'' \<noteq> None \<and> (fld h ''owner'' \<noteq> [] \<longleftrightarrow> fld h ''state'' = ''active'')
     \<and> (\<exists>n. map_of h ''attempt'' = Some (itoa n)) \<and> (\<exists>n > 0. map_of h ''max_attempts'' = Some (itoa n))
     \<and> (\<exists>n. map_of h ''recoveries'' = Some (itoa n))"

lemma job_okD:
  assumes "job_ok i h"
  shows "fld h ''id'' = i" "map_of h ''id'' = Some i" "map_of h ''queue'' = Some (fld h ''queue'')" "map_of h ''state'' = Some (fld h ''state'')"
    "map_of h ''owner'' = Some (fld h ''owner'')" "map_of h ''attempt'' = Some (itoa (num h ''attempt''))"
    "map_of h ''max_attempts'' = Some (itoa (num h ''max_attempts''))" "map_of h ''recoveries'' = Some (itoa (num h ''recoveries''))"
    "0 < num h ''max_attempts''" "fld h ''state'' \<in> set hash_states" "proper h" "fld h ''owner'' \<noteq> [] \<longleftrightarrow> fld h ''state'' = ''active''"
  using assms by (auto simp: job_ok_def fld_def num_def)

lemma job_ok_wf: "job_ok i h \<Longrightarrow> fld h ''state'' \<noteq> ''completed'' \<Longrightarrow> job_wf i (job_of h)"
  using job_okD(1,9,10,12) [of i h] by (auto simp: job_wf_def job_of_def live_states_def hash_states_def)

lemma map_of_upd: "map_of (AList.update f v h) g = (if g = f then Some v else map_of h g)"
  by (simp add: update_conv')

lemma job_ok_set:
  assumes "job_ok i h" and "f \<notin> {''id'', ''queue'', ''state'', ''owner'', ''attempt'', ''max_attempts'', ''recoveries''}"
  shows "job_ok i (AList.update f v h)"
proof -
  have "g \<noteq> f" if "g \<in> {''id'', ''queue'', ''state'', ''owner'', ''attempt'', ''max_attempts'', ''recoveries''}" for g
    using that assms(2) by blast
  with assms(1) show ?thesis by (simp add: job_ok_def map_of_upd)
qed

lemma job_ok_count: "job_ok i h \<Longrightarrow> f = ''attempt'' \<or> f = ''recoveries'' \<Longrightarrow> job_ok i (AList.update f (itoa n) h)"
  by (elim disjE) (simp_all add: job_ok_def map_of_upd, blast+)

lemma job_ok_state:
  assumes "job_ok i h" and "st \<in> set hash_states" and "ow \<noteq> [] \<longleftrightarrow> st = ''active''"
  shows "job_ok i (AList.update ''state'' st (AList.update ''owner'' ow h))" "job_ok i (AList.update ''owner'' ow (AList.update ''state'' st h))"
  using assms by (simp_all add: job_ok_def map_of_upd)

section \<open>Containers\<close>

text \<open>The container that the state of a job names.\<close>

definition container :: "hash \<Rightarrow> rkey option" where
  "container h = map_of [(''pending'', KQueue (fld h ''queue'')), (''active'', KActive (fld h ''queue'')), (''scheduled'', KDelayed),
     (''retry'', KRetry), (''dead'', KDead)] (fld h ''state'')"

fun mem_of :: "rkey \<Rightarrow> rvalue option \<Rightarrow> string set" where
  "mem_of (KQueue q) v = set (the (as_list v))"
| "mem_of (KActive q) v = Map.dom (map_of (the (as_zset v)))"
| "mem_of KDelayed v = Map.dom (map_of (the (as_zset v)))"
| "mem_of KRetry v = Map.dom (map_of (the (as_zset v)))"
| "mem_of KDead v = Map.dom (map_of (the (as_zset v)))"
| "mem_of _ v = {}"

fun scores :: "rkey \<Rightarrow> rvalue option \<Rightarrow> string \<rightharpoonup> int" where
  "scores (KActive q) v = map_of (the (as_zset v))"
| "scores _ v = Map.empty"

fun key_ok :: "rkey \<Rightarrow> rvalue option \<Rightarrow> bool" where
  "key_ok (KJob i) v \<longleftrightarrow> v = None \<or> (\<exists>h. v = Some (RHash h) \<and> job_ok i h)"
| "key_ok (KQueue q) v \<longleftrightarrow> (\<exists>l. as_list v = Some l \<and> distinct l)"
| "key_ok (KUnique k) v \<longleftrightarrow> v = None \<or> (\<exists>x. v = Some (RStr x))"
| "key_ok (KLease n) v \<longleftrightarrow> v = None \<or> (\<exists>x. v = Some (RStr x))"
| "key_ok KQueues v \<longleftrightarrow> as_set v \<noteq> None"
| "key_ok KProcessed v \<longleftrightarrow> v = None \<or> (\<exists>n. v = Some (RStr (itoa n)))"
| "key_ok KFailed v \<longleftrightarrow> v = None \<or> (\<exists>n. v = Some (RStr (itoa n)))"
| "key_ok (KWorker i) v \<longleftrightarrow> as_hash v \<noteq> None"
| "key_ok _ v \<longleftrightarrow> (\<exists>z. as_zset v = Some z \<and> proper z)"

definition typed :: "view \<Rightarrow> bool" where
  "typed f \<longleftrightarrow> (\<forall>x. key_ok x (f x))"

definition job_at :: "view \<Rightarrow> string \<Rightarrow> hash option" where
  "job_at f i = (case f (KJob i) of Some (RHash h) \<Rightarrow> Some h | _ \<Rightarrow> None)"

text \<open>The jobs of the lifecycle.\<close>

definition jobs_in :: "view \<Rightarrow> store" where
  "jobs_in f i = (case job_at f i of None \<Rightarrow> None | Some h \<Rightarrow> if fld h ''state'' = ''completed'' then None else Some (job_of h))"

definition rdb_wf :: "view \<Rightarrow> bool" where
  "rdb_wf f \<longleftrightarrow> typed f
     \<and> (\<forall>i x. i \<in> mem_of x (f x) \<longleftrightarrow> (\<exists>h. job_at f i = Some h \<and> container h = Some x))
     \<and> (\<forall>i x d. scores x (f x) i = Some d \<longrightarrow> (\<exists>h. job_at f i = Some h \<and> num h ''deadline'' = d))"

lemma typed_upd [simp]: "typed f \<Longrightarrow> key_ok x v \<Longrightarrow> typed (f(x := v))"
  by (simp add: typed_def)

lemma typed_job:
  assumes "typed f"
  shows "f (KJob i) = None \<and> job_at f i = None \<or> (\<exists>h. f (KJob i) = Some (RHash h) \<and> job_at f i = Some h \<and> job_ok i h)"
  using assms [unfolded typed_def, rule_format, of "KJob i"] by (auto simp: job_at_def)

lemma typed_counter:
  assumes "typed f" and "x = KProcessed \<or> x = KFailed"
  shows "\<exists>n. counter_of (case f x of None \<Rightarrow> None | Some (RStr x) \<Rightarrow> Some x | Some _ \<Rightarrow> Some []) = Some n"
  using assms(1) [unfolded typed_def, rule_format, of x] assms(2) by (auto simp: counter_of_def)

text \<open>The keys that hold a sorted set of jobs.\<close>

fun zkey :: "rkey \<Rightarrow> bool" where
  "zkey (KActive q) \<longleftrightarrow> True"
| "zkey KDelayed \<longleftrightarrow> True"
| "zkey KRetry \<longleftrightarrow> True"
| "zkey KDead \<longleftrightarrow> True"
| "zkey _ \<longleftrightarrow> False"

lemma typed_zset: "typed f \<Longrightarrow> zkey x \<Longrightarrow> \<exists>z. as_zset (f x) = Some z \<and> proper z"
  unfolding typed_def by (drule spec [of _ x]) (cases x; simp)

lemma typed_list: "typed f \<Longrightarrow> \<exists>l. as_list (f (KQueue q)) = Some l \<and> distinct l"
  unfolding typed_def by (drule spec [of _ "KQueue q"]) simp

lemma rdb_wf_typed: "rdb_wf f \<Longrightarrow> typed f"
  by (simp add: rdb_wf_def)

lemma rdb_wf_store:
  assumes "rdb_wf f"
  shows "store_wf (jobs_in f)"
proof -
  have "job_wf i j" if "jobs_in f i = Some j" for i j
    using that typed_job [OF rdb_wf_typed [OF assms], of i] by (auto simp: jobs_in_def intro: job_ok_wf split: if_splits)
  then show ?thesis by (simp add: store_wf_def)
qed

section \<open>Moving one job\<close>

lemma rdb_wf_move:
  assumes "rdb_wf f" and "typed g" and "\<And>j. j \<noteq> i \<Longrightarrow> g (KJob j) = f (KJob j)"
    and "\<And>x j. j \<noteq> i \<Longrightarrow> j \<in> mem_of x (g x) \<longleftrightarrow> j \<in> mem_of x (f x)"
    and "\<And>x. i \<in> mem_of x (g x) \<longleftrightarrow> (\<exists>h. job_at g i = Some h \<and> container h = Some x)"
    and "\<And>x j. j \<noteq> i \<Longrightarrow> scores x (g x) j = scores x (f x) j"
    and "\<And>x d. scores x (g x) i = Some d \<Longrightarrow> \<exists>h. job_at g i = Some h \<and> num h ''deadline'' = d"
  shows "rdb_wf g \<and> jobs_in g = (jobs_in f)(i := jobs_in g i)"
proof
  have same: "job_at g j = job_at f j" if "j \<noteq> i" for j using assms(3) that by (simp add: job_at_def)
  have "j \<in> mem_of x (g x) \<longleftrightarrow> (\<exists>h. job_at g j = Some h \<and> container h = Some x)" for j x
    using assms(1,4,5) same by (cases "j = i") (auto simp: rdb_wf_def)
  moreover have "\<exists>h. job_at g j = Some h \<and> num h ''deadline'' = d" if "scores x (g x) j = Some d" for j x d
    using assms(1,6,7) same that by (cases "j = i") (auto simp: rdb_wf_def)
  ultimately show "rdb_wf g" using assms(2) by (simp add: rdb_wf_def)
  show "jobs_in g = (jobs_in f)(i := jobs_in g i)" using same by (auto simp: jobs_in_def)
qed

text \<open>The value \<open>v'\<close> of key \<open>x\<close> is \<open>v\<close> without the job, or with it.\<close>

definition leaves :: "rkey \<Rightarrow> string \<Rightarrow> rvalue option \<Rightarrow> rvalue option \<Rightarrow> bool" where
  "leaves x i v v' \<longleftrightarrow> key_ok x v' \<and> mem_of x v' = mem_of x v - {i} \<and> scores x v' = (scores x v)(i := None)"

definition enters :: "rkey \<Rightarrow> string \<Rightarrow> int \<Rightarrow> rvalue option \<Rightarrow> rvalue option \<Rightarrow> bool" where
  "enters x i d v v' \<longleftrightarrow> key_ok x v' \<and> mem_of x v' = insert i (mem_of x v)
     \<and> scores x v' = (case x of KActive q \<Rightarrow> (scores x v)(i \<mapsto> d) | _ \<Rightarrow> Map.empty)"

lemma leaves_zset: "zkey x \<Longrightarrow> as_zset v = Some z \<Longrightarrow> proper z \<Longrightarrow> leaves x i v (zval (AList.delete i z))"
  by (cases x) (auto simp: leaves_def delete_conv' fun_eq_iff dom_def)

lemma leaves_list: "as_list v = Some (i # l) \<Longrightarrow> distinct (i # l) \<Longrightarrow> leaves (KQueue q) i v (lval l)"
  by (auto simp: leaves_def)

lemma enters_zset: "zkey x \<Longrightarrow> as_zset v = Some z \<Longrightarrow> proper z \<Longrightarrow> enters x i d v (zval (AList.update i d z))"
  by (cases x) (auto simp: enters_def update_conv' fun_eq_iff dom_def)

lemma enters_list:
  "as_list v = Some l \<Longrightarrow> distinct l \<Longrightarrow> i \<notin> set l \<Longrightarrow> enters (KQueue q) i d v (lval (i # l))"
  "as_list v = Some l \<Longrightarrow> distinct l \<Longrightarrow> i \<notin> set l \<Longrightarrow> enters (KQueue q) i d v (lval (l @ [i]))"
  by (auto simp: enters_def)

lemma leavesD:
  assumes "leaves x i v v'"
  shows "key_ok x v'" "i \<notin> mem_of x v'" "j \<noteq> i \<Longrightarrow> j \<in> mem_of x v' \<longleftrightarrow> j \<in> mem_of x v"
    "scores x v' i = None" "j \<noteq> i \<Longrightarrow> scores x v' j = scores x v j"
  using assms by (simp_all add: leaves_def)

lemma entersD:
  assumes "enters y i d v v'"
  shows "key_ok y v'" "i \<in> mem_of y v'" "j \<noteq> i \<Longrightarrow> j \<in> mem_of y v' \<longleftrightarrow> j \<in> mem_of y v"
    "scores y v' i = Some e \<Longrightarrow> e = d \<and> (\<exists>q. y = KActive q)" "j \<noteq> i \<Longrightarrow> scores y v' j = scores y v j"
  using assms by (simp_all add: enters_def split: rkey.splits)

lemma container_kind:
  assumes "container h = Some x"
  shows "x \<noteq> KJob i" and "fld h ''state'' \<noteq> ''completed''"
  using assms by (auto simp: container_def split: if_splits)

lemma containers_hold:
  assumes "rdb_wf f" and "job_at f i = Some h"
  shows "i \<in> mem_of x (f x) \<longleftrightarrow> container h = Some x"
  using assms by (simp add: rdb_wf_def)

lemma scores_mem: "scores x v i \<noteq> None \<Longrightarrow> i \<in> mem_of x v"
  by (cases x) auto

lemma job_at_upd [simp]:
  "job_at (f(KJob i := v)) j = (if j = i then (case v of Some (RHash h) \<Rightarrow> Some h | _ \<Rightarrow> None) else job_at f j)"
  "(\<And>i. x \<noteq> KJob i) \<Longrightarrow> job_at (f(x := v)) j = job_at f j"
  by (auto simp: job_at_def)

text \<open>From one container to another.\<close>

lemma rdb_wf_relocate:
  assumes "rdb_wf f" and "job_at f i = Some h" and "container h = Some x" and "leaves x i (f x) vx"
    and "enters y i d (f y) vy" and "x \<noteq> y" and "job_ok i h'" and "container h' = Some y"
    and "\<And>q. y = KActive q \<Longrightarrow> num h' ''deadline'' = d"
  shows "rdb_wf (f(x := vx, KJob i \<mapsto> RHash h', y := vy))
    \<and> jobs_in (f(x := vx, KJob i \<mapsto> RHash h', y := vy)) = (jobs_in f)(i \<mapsto> job_of h')"
proof -
  let ?g = "f(x := vx, KJob i \<mapsto> RHash h', y := vy)"
  note kind = container_kind(1) [OF assms(3)] container_kind(1) [OF assms(8)]
  have hold: "i \<in> mem_of k (f k) \<longleftrightarrow> k = x" for k using containers_hold [OF assms(1,2)] assms(3) by auto
  have at: "job_at ?g i = Some h'" using kind by simp
  have "rdb_wf ?g \<and> jobs_in ?g = (jobs_in f)(i := jobs_in ?g i)"
  proof (rule rdb_wf_move [OF assms(1)])
    show "typed ?g" using assms(1,7) leavesD(1) [OF assms(4)] entersD(1) [OF assms(5)] by (simp add: rdb_wf_typed)
    show "?g (KJob j) = f (KJob j)" if "j \<noteq> i" for j using that kind by auto
    show "j \<in> mem_of k (?g k) \<longleftrightarrow> j \<in> mem_of k (f k)" if "j \<noteq> i" for k j
      using leavesD(3) [OF assms(4) that] entersD(3) [OF assms(5) that] by simp
    show "i \<in> mem_of k (?g k) \<longleftrightarrow> (\<exists>h. job_at ?g i = Some h \<and> container h = Some k)" for k
      using at assms(6,8) hold [of k] leavesD(2) [OF assms(4)] entersD(2) [OF assms(5)] kind by auto
    show "scores k (?g k) j = scores k (f k) j" if "j \<noteq> i" for k j
      using leavesD(5) [OF assms(4) that] entersD(5) [OF assms(5) that] by simp
    show "\<exists>h. job_at ?g i = Some h \<and> num h ''deadline'' = e" if "scores k (?g k) i = Some e" for k e
    proof (cases "k = y")
      case True
      then show ?thesis using that at assms(9) entersD(4) [OF assms(5), of e] by auto
    next
      case False
      have "scores k (f k) i = None" if "k \<noteq> x" using that hold [of k] scores_mem [of k "f k" i] by blast
      with False that leavesD(4) [OF assms(4)] container_kind(1) [OF assms(3), of i] show ?thesis by (cases "k = x"; cases "k = KJob i") simp_all
    qed
  qed
  then show ?thesis using at container_kind(2) [OF assms(8)] by (simp add: jobs_in_def)
qed

text \<open>Out of a container, to completion.\<close>

lemma rdb_wf_settle:
  assumes "rdb_wf f" and "job_at f i = Some h" and "container h = Some x" and "leaves x i (f x) vx"
    and "v = None \<or> (\<exists>h'. v = Some (RHash h') \<and> job_ok i h' \<and> fld h' ''state'' = ''completed'')"
  shows "rdb_wf (f(x := vx, KJob i := v)) \<and> jobs_in (f(x := vx, KJob i := v)) = (jobs_in f)(i := None)"
proof -
  let ?g = "f(x := vx, KJob i := v)"
  note kind = container_kind(1) [OF assms(3)]
  have hold: "i \<in> mem_of k (f k) \<longleftrightarrow> k = x" for k using containers_hold [OF assms(1,2)] assms(3) by auto
  have none: "job_at ?g i = Some h' \<Longrightarrow> container h' = None \<and> fld h' ''state'' = ''completed''" for h'
    using assms(5) by (auto simp: container_def)
  have "rdb_wf ?g \<and> jobs_in ?g = (jobs_in f)(i := jobs_in ?g i)"
  proof (rule rdb_wf_move [OF assms(1)])
    show "typed ?g" using assms(1,5) leavesD(1) [OF assms(4)] by (auto simp: rdb_wf_typed)
    show "?g (KJob j) = f (KJob j)" if "j \<noteq> i" for j using that kind by auto
    show "j \<in> mem_of k (?g k) \<longleftrightarrow> j \<in> mem_of k (f k)" if "j \<noteq> i" for k j
      using leavesD(3) [OF assms(4) that] by simp
    show "i \<in> mem_of k (?g k) \<longleftrightarrow> (\<exists>h. job_at ?g i = Some h \<and> container h = Some k)" for k
      using none hold [of k] leavesD(2) [OF assms(4)] by auto
    show "scores k (?g k) j = scores k (f k) j" if "j \<noteq> i" for k j
      using leavesD(5) [OF assms(4) that] by simp
    show "\<exists>h. job_at ?g i = Some h \<and> num h ''deadline'' = e" if "scores k (?g k) i = Some e" for k e
    proof -
      have "scores k (f k) i = None" if "k \<noteq> x" using that hold [of k] scores_mem [of k "f k" i] by blast
      with that leavesD(4) [OF assms(4)] container_kind(1) [OF assms(3), of i] show ?thesis by (cases "k = x"; cases "k = KJob i") simp_all
    qed
  qed
  moreover have "jobs_in ?g i = None" using none by (simp add: jobs_in_def split: option.splits)
  ultimately show ?thesis by simp
qed

text \<open>Into a container, from nowhere.\<close>

lemma rdb_wf_enter:
  assumes "rdb_wf f" and "f (KJob i) = None" and "enters y i d (f y) vy" and "job_ok i h'" and "container h' = Some y"
    and "\<And>q. y \<noteq> KActive q"
  shows "rdb_wf (f(KJob i \<mapsto> RHash h', y := vy)) \<and> jobs_in (f(KJob i \<mapsto> RHash h', y := vy)) = (jobs_in f)(i \<mapsto> job_of h')"
proof -
  let ?g = "f(KJob i \<mapsto> RHash h', y := vy)"
  note kind = container_kind(1) [OF assms(5)]
  have hold: "i \<notin> mem_of k (f k)" for k using assms(1,2) by (simp add: rdb_wf_def job_at_def)
  have at: "job_at ?g i = Some h'" using kind by simp
  have "rdb_wf ?g \<and> jobs_in ?g = (jobs_in f)(i := jobs_in ?g i)"
  proof (rule rdb_wf_move [OF assms(1)])
    show "typed ?g" using assms(1,4) entersD(1) [OF assms(3)] by (simp add: rdb_wf_typed)
    show "?g (KJob j) = f (KJob j)" if "j \<noteq> i" for j using that kind by auto
    show "j \<in> mem_of k (?g k) \<longleftrightarrow> j \<in> mem_of k (f k)" if "j \<noteq> i" for k j
      using entersD(3) [OF assms(3) that] by simp
    show "i \<in> mem_of k (?g k) \<longleftrightarrow> (\<exists>h. job_at ?g i = Some h \<and> container h = Some k)" for k
      using at assms(5) hold [of k] entersD(2) [OF assms(3)] by auto
    show "scores k (?g k) j = scores k (f k) j" if "j \<noteq> i" for k j
      using entersD(5) [OF assms(3) that] by simp
    show "\<exists>h. job_at ?g i = Some h \<and> num h ''deadline'' = e" if "scores k (?g k) i = Some e" for k e
    proof -
      have "scores k (f k) i = None" using hold [of k] scores_mem [of k "f k" i] by blast
      with that assms(6) entersD(4) [OF assms(3), of e] show ?thesis by (cases "k = y"; cases "k = KJob i") simp_all
    qed
  qed
  then show ?thesis using at container_kind(2) [OF assms(5)] by (simp add: jobs_in_def)
qed

text \<open>Within its container, with a new score.\<close>

lemma rdb_wf_renew:
  assumes "rdb_wf f" and "job_at f i = Some h" and "container h = Some (KActive q)" and "enters (KActive q) i d (f (KActive q)) v"
    and "job_ok i h'" and "container h' = Some (KActive q)" and "num h' ''deadline'' = d"
  shows "rdb_wf (f(KJob i \<mapsto> RHash h', KActive q := v)) \<and> jobs_in (f(KJob i \<mapsto> RHash h', KActive q := v)) = (jobs_in f)(i \<mapsto> job_of h')"
proof -
  let ?g = "f(KJob i \<mapsto> RHash h', KActive q := v)"
  have hold: "i \<in> mem_of k (f k) \<longleftrightarrow> k = KActive q" for k using containers_hold [OF assms(1,2)] assms(3) by auto
  have at: "job_at ?g i = Some h'" by simp
  have "rdb_wf ?g \<and> jobs_in ?g = (jobs_in f)(i := jobs_in ?g i)"
  proof (rule rdb_wf_move [OF assms(1)])
    show "typed ?g" using assms(1,5) entersD(1) [OF assms(4)] by (simp add: rdb_wf_typed)
    show "?g (KJob j) = f (KJob j)" if "j \<noteq> i" for j using that by simp
    show "j \<in> mem_of k (?g k) \<longleftrightarrow> j \<in> mem_of k (f k)" if "j \<noteq> i" for k j
      using entersD(3) [OF assms(4) that] by simp
    show "i \<in> mem_of k (?g k) \<longleftrightarrow> (\<exists>h. job_at ?g i = Some h \<and> container h = Some k)" for k
      using at assms(6) hold [of k] entersD(2) [OF assms(4)] by auto
    show "scores k (?g k) j = scores k (f k) j" if "j \<noteq> i" for k j
      using entersD(5) [OF assms(4) that] by simp
    show "\<exists>h. job_at ?g i = Some h \<and> num h ''deadline'' = e" if "scores k (?g k) i = Some e" for k e
    proof -
      have "scores k (f k) i = None" if "k \<noteq> KActive q" using that hold [of k] scores_mem [of k "f k" i] by blast
      with that at assms(7) entersD(4) [OF assms(4), of e] show ?thesis by (cases "k = KActive q"; cases "k = KJob i") simp_all
    qed
  qed
  then show ?thesis using at container_kind(2) [OF assms(6)] by (simp add: jobs_in_def)
qed

text \<open>Keys that hold no job.\<close>

fun side :: "rkey \<Rightarrow> bool" where
  "side (KUnique k) \<longleftrightarrow> True"
| "side KQueues \<longleftrightarrow> True"
| "side KProcessed \<longleftrightarrow> True"
| "side KFailed \<longleftrightarrow> True"
| "side KWorkers \<longleftrightarrow> True"
| "side (KWorker i) \<longleftrightarrow> True"
| "side (KLease n) \<longleftrightarrow> True"
| "side KCron \<longleftrightarrow> True"
| "side _ \<longleftrightarrow> False"

lemma rdb_wf_same:
  assumes "rdb_wf f" and "key_ok x v" and "mem_of x v = mem_of x (f x)" and "scores x v = scores x (f x)" and "\<And>i. x \<noteq> KJob i"
  shows "rdb_wf (f(x := v)) \<and> jobs_in (f(x := v)) = jobs_in f"
proof -
  have at: "job_at (f(x := v)) = job_at f" using assms(5) by (auto simp: job_at_def fun_eq_iff)
  have "mem_of k ((f(x := v)) k) = mem_of k (f k)" "scores k ((f(x := v)) k) = scores k (f k)" for k
    using assms(3,4) by simp_all
  moreover have "typed (f(x := v))" using assms(1,2) by (simp add: rdb_wf_typed)
  ultimately show ?thesis using assms(1) by (simp add: rdb_wf_def jobs_in_def fun_eq_iff at)
qed

lemma rdb_wf_side:
  assumes "rdb_wf f" and "side x" and "key_ok x v"
  shows "rdb_wf (f(x := v)) \<and> jobs_in (f(x := v)) = jobs_in f"
  using assms by (intro rdb_wf_same) (cases x; simp)+

lemma counter_ok: "x = KProcessed \<or> x = KFailed \<Longrightarrow> key_ok x (Some (RStr (itoa n)))"
  by auto

lemma rdb_wf_count:
  assumes "rdb_wf f \<and> jobs_in f = J" and "x = KProcessed \<or> x = KFailed"
  shows "rdb_wf (f(x \<mapsto> RStr (itoa n))) \<and> jobs_in (f(x \<mapsto> RStr (itoa n))) = J"
  using rdb_wf_side [of f x "Some (RStr (itoa n))"] assms counter_ok [OF assms(2)] by auto

end
