(* ===== verification/Redis_Reports.thy ===== *)
theory Redis_Reports
  imports Redis_Wf
begin

text \<open>
  The scripts by which the owner of a job reports on it (ack.lua, nack.lua, kill.lua and extend.lua): what they
  do to a job, that they do nothing to a job of someone else, and that they are steps of the lifecycle.
\<close>

abbreviation rsim :: "rdb \<Rightarrow> (event \<Rightarrow> bool) \<Rightarrow> (string \<times> string) list \<Rightarrow> keyspace \<Rightarrow> keyspace \<Rightarrow> bool" where
  "rsim b \<equiv> simulates (\<lambda>s. jobs_in (at b s)) (\<lambda>s. rdb_wf (at b s))"

section \<open>Fencing\<close>

definition owns :: "view \<Rightarrow> string \<Rightarrow> string \<Rightarrow> hash \<Rightarrow> bool" where
  "owns f w i h \<longleftrightarrow> job_at f i = Some h \<and> fld h ''state'' = ''active'' \<and> fld h ''owner'' = w"

lemma ownsD:
  assumes "typed f" and "owns f w i h"
  shows "f (KJob i) = Some (RHash h)" "job_ok i h" "container h = Some (KActive (fld h ''queue''))"
    "jobs_in f i = Some (job_of h)" "State (job_of h) = StateActive" "Owner (job_of h) = w" "w \<noteq> []"
  using typed_job [OF assms(1), of i] assms(2) job_okD(12) [of i h]
  by (auto simp: owns_def container_def jobs_in_def job_of_def)

text \<open>The common part of ack, nack and kill.\<close>

lemma fenced_lua_spec:
  assumes "redis_commands call" and "typed (at b s)"
  shows "fenced_lua call (key_name b (KJob i)) w (pActive b) rest s = (case job_at (at b s) i of
      None \<Rightarrow> (Inr (RArr [RInt 0, RBulk ''notfound'']), s)
    | Some h \<Rightarrow>
        if fld h ''state'' = ''active'' \<and> fld h ''owner'' = w
        then rest i (put_zset (key_name b (KActive (fld h ''queue'')))
               (AList.delete i (the (as_zset (at b s (KActive (fld h ''queue'')))))) s)
        else (Inr (RArr [RInt 0, RBulk ''lease'', RBulk (fld h ''state''), RBulk (fld h ''owner'')]), s))"
proof (cases "job_at (at b s) i")
  case None
  then have "at b s (KJob i) = None" using typed_job [OF assms(2), of i] by auto
  with None assms(1) show ?thesis
    by (simp add: fenced_lua_def key_fold lua_steps rs_keys_at lua_return_def)
next
  case (Some h)
  then have v: "at b s (KJob i) = Some (RHash h)" and ok: "job_ok i h" using typed_job [OF assms(2), of i] by auto
  obtain z where z: "as_zset (at b s (KActive (fld h ''queue''))) = Some z"
    using typed_zset [OF assms(2), of "KActive (fld h ''queue'')"] by auto
  from assms(1) v z job_okD(2-5) [OF ok] show ?thesis
    by (simp add: fenced_lua_def key_fold prefix_fold lua_steps rs_keys_at Some tostring_def lua_return_def)
qed

lemma fenced_lua_foreign:
  assumes "redis_commands call" and "typed (at b s)" and "\<nexists>h. owns (at b s) w i h"
  shows "snd (fenced_lua call (key_name b (KJob i)) w (pActive b) rest s) = s"
  using assms(3) by (auto simp: fenced_lua_spec [OF assms(1,2)] owns_def split: option.splits)

lemma fenced_lua_owner:
  assumes "redis_commands call" and "typed (at b s)" and "owns (at b s) w i h"
    and "as_zset (at b s (KActive (fld h ''queue''))) = Some z"
  shows "fenced_lua call (key_name b (KJob i)) w (pActive b) rest s
    = rest i (put_zset (key_name b (KActive (fld h ''queue''))) (AList.delete i z) s)"
  using assms(3,4) by (simp add: fenced_lua_spec [OF assms(1,2)] owns_def)

section \<open>Nack and kill\<close>

text \<open>A job that its owner sends to the retry or the dead set.\<close>

lemma leave_active:
  assumes "rdb_wf f" and "owns f w i h" and "as_zset (f (KActive (fld h ''queue''))) = Some z"
    and "y = KRetry \<and> st = ''retry'' \<or> y = KDead \<and> st = ''dead''" and "as_zset (f y) = Some zy"
    and "h' = AList.update ''state'' st (AList.update ''owner'' [] (AList.update ''last_err'' r h))
      \<or> h' = AList.update ''last_err'' r (AList.update ''owner'' [] (AList.update ''state'' st h))"
  shows "rdb_wf (f(KActive (fld h ''queue'') := zval (AList.delete i z), KJob i \<mapsto> RHash h', y := zval (AList.update i t zy)))
    \<and> jobs_in (f(KActive (fld h ''queue'') := zval (AList.delete i z), KJob i \<mapsto> RHash h', y := zval (AList.update i t zy)))
        = (jobs_in f)(i \<mapsto> (job_of h)\<lparr>State := state_of_string st, Owner := [], LastErr := r\<rparr>)"
proof -
  note owner = ownsD [OF rdb_wf_typed [OF assms(1)] assms(2)]
  have jf: "job_of h' = (job_of h)\<lparr>State := state_of_string st, Owner := [], LastErr := r\<rparr>"
    using assms(6) by (auto simp: job_of_def)
  have st: "st \<in> set hash_states" "st \<noteq> ''active''" using assms(4) by (auto simp: hash_states_def)
  then have ok: "job_ok i h'" using assms(6) owner(2) by (auto simp: job_ok_state job_ok_set)
  have c: "container h' = Some y" using assms(4,6) by (auto simp: container_def)
  obtain z' where z': "as_zset (f (KActive (fld h ''queue''))) = Some z'" "proper z'"
    using typed_zset [OF rdb_wf_typed [OF assms(1)], of "KActive (fld h ''queue'')"] by auto
  have zk: "zkey y" using assms(4) by auto
  obtain zy' where zy': "as_zset (f y) = Some zy'" "proper zy'"
    using typed_zset [OF rdb_wf_typed [OF assms(1)] zk] by auto
  have l: "leaves (KActive (fld h ''queue'')) i (f (KActive (fld h ''queue''))) (zval (AList.delete i z))"
    using leaves_zset [OF _ z'] z'(1) assms(3) by simp
  have e: "enters y i t (f y) (zval (AList.update i t zy))"
    using enters_zset [OF zk zy'] zy'(1) assms(5) by simp
  have ne: "KActive (fld h ''queue'') \<noteq> y" "\<And>q. y = KActive q \<Longrightarrow> num h' ''deadline'' = t" using assms(4) by auto
  show ?thesis
    using rdb_wf_relocate [OF assms(1) _ owner(3) l e ne(1) ok c ne(2)] assms(2) unfolding jf owns_def by blast
qed

lemma simulates_change:
  assumes "rdb_wf (at b s') \<and> jobs_in (at b s') = J" and "lstep (jobs_in (at b s)) e J" and "al e" and "event_handout e = None"
  shows "rsim b al [] s s'"
  using assms by (intro simulates_step_silent [where e = e]) simp_all

lemma simulates_claim:
  "rdb_wf (at b s') \<and> jobs_in (at b s') = J \<Longrightarrow> lstep (jobs_in (at b s)) (Claimed i w) J \<Longrightarrow> al (Claimed i w) \<Longrightarrow> rsim b al [(i, w)] s s'"
  using simulates_step [of "\<lambda>s. rdb_wf (at b s)" s' "\<lambda>s. jobs_in (at b s)" s "Claimed i w" al] by simp

lemma nack_lua_owner:
  assumes rc: "redis_commands call" and wf: "rdb_wf (at b s)" and h: "owns (at b s) w i h"
  shows "\<exists>s' x. nack_lua call [kJob b i, kRetry b, kDead b, kFailed b] [w, itoa t, r, pActive b] s = (Inr (RArr [RInt 1, x]), s')
    \<and> rdb_wf (at b s') \<and> jobs_in (at b s') = (jobs_in (at b s))(i \<mapsto>
        (job_of h)\<lparr>State := (if Exhausted (job_of h) then StateDead else StateRetry), Owner := [], LastErr := r\<rparr>)"
proof -
  note ty = rdb_wf_typed [OF wf] and owner = ownsD [OF rdb_wf_typed [OF wf] h] and ok = job_okD [OF ownsD(2) [OF rdb_wf_typed [OF wf] h]]
  obtain z zr zd where z: "as_zset (at b s (KActive (fld h ''queue''))) = Some z" "as_zset (at b s KRetry) = Some zr" "as_zset (at b s KDead) = Some zd"
    using typed_zset [OF ty, of "KActive (fld h ''queue'')"] typed_zset [OF ty, of KRetry] typed_zset [OF ty, of KDead] by auto
  obtain n where n: "counter_of (case at b s KFailed of None \<Rightarrow> None | Some (RStr x) \<Rightarrow> Some x | Some _ \<Rightarrow> Some []) = Some n"
    using typed_counter [OF ty, of KFailed] by blast
  let ?run = "nack_lua call [kJob b i, kRetry b, kDead b, kFailed b] [w, itoa t, r, pActive b] s"
  let ?dead = "num h ''max_attempts'' \<le> num h ''attempt''"
  let ?f = "(at b s)(KActive (fld h ''queue'') := zval (AList.delete i z),
    KJob i \<mapsto> RHash (AList.update ''state'' (if ?dead then ''dead'' else ''retry'') (AList.update ''owner'' [] (AList.update ''last_err'' r h))),
    (if ?dead then KDead else KRetry) := zval (if ?dead then AList.update i (clock_ms s) zd else AList.update i t zr))"
  have run: "?run = (Inr (RArr [RInt 1, RBulk (if ?dead then ''dead'' else ''retry'')]), snd ?run)"
    and at: "at b (snd ?run) = (if ?dead then ?f(KFailed \<mapsto> RStr (itoa (n + 1))) else ?f)"
    using rc owner(1) ok(6,7) z n
    by (simp_all add: nack_lua_def key_fold fenced_lua_owner [OF rc ty h z(1)] lua_steps rs_keys_at lua_return_def map_of_upd)
  have "rdb_wf (at b (snd ?run)) \<and> jobs_in (at b (snd ?run)) = (jobs_in (at b s))(i \<mapsto>
      (job_of h)\<lparr>State := (if Exhausted (job_of h) then StateDead else StateRetry), Owner := [], LastErr := r\<rparr>)"
    using rdb_wf_count [OF leave_active [OF wf h z(1) disjI2 [OF conjI [OF refl refl]] z(3) disjI1 [OF refl]]]
      leave_active [OF wf h z(1) disjI1 [OF conjI [OF refl refl]] z(2) disjI1 [OF refl]] at
    by (cases ?dead) (simp_all add: job_of_simps(3))
  with run show ?thesis by blast
qed

lemma nack_lua_sim:
  assumes rc: "redis_commands call" and wf: "rdb_wf (at b s)" and al: "al (Retried i w)" "al (Buried i w)"
  shows "rsim b al [] s (snd (nack_lua call [kJob b i, kRetry b, kDead b, kFailed b] [w, itoa t, r, pActive b] s))"
proof (cases "\<exists>h. owns (at b s) w i h")
  case False
  then have "snd (nack_lua call [kJob b i, kRetry b, kDead b, kFailed b] [w, itoa t, r, pActive b] s) = s"
    using fenced_lua_foreign [OF rc rdb_wf_typed [OF wf], of w i] by (simp add: nack_lua_def key_fold)
  then show ?thesis using wf by simp
next
  case True
  then obtain h where h: "owns (at b s) w i h" by blast
  note owner = ownsD(4-6) [OF rdb_wf_typed [OF wf] h]
  let ?s = "snd (nack_lua call [kJob b i, kRetry b, kDead b, kFailed b] [w, itoa t, r, pActive b] s)"
  have "rdb_wf (at b ?s) \<and> jobs_in (at b ?s) = (jobs_in (at b s))(i \<mapsto>
      (job_of h)\<lparr>State := (if Exhausted (job_of h) then StateDead else StateRetry), Owner := [], LastErr := r\<rparr>)"
    using nack_lua_owner [OF rc wf h, of t r] by (metis snd_conv)
  then show ?thesis
    by (rule simulates_change [where e = "if Exhausted (job_of h) then Buried i w else Retried i w"])
      (use owner al in \<open>auto intro: lstep.buried lstep.retried\<close>)
qed

lemma kill_lua_owner:
  assumes rc: "redis_commands call" and wf: "rdb_wf (at b s)" and h: "owns (at b s) w i h"
  shows "\<exists>s'. kill_lua call [kJob b i, kDead b, kFailed b] [w, r, pActive b] s = (Inr (RArr [RInt 1]), s')
    \<and> rdb_wf (at b s') \<and> jobs_in (at b s') = (jobs_in (at b s))(i \<mapsto> (job_of h)\<lparr>State := StateDead, Owner := [], LastErr := r\<rparr>)"
proof -
  note ty = rdb_wf_typed [OF wf] and owner = ownsD [OF rdb_wf_typed [OF wf] h]
  obtain z zd where z: "as_zset (at b s (KActive (fld h ''queue''))) = Some z" "as_zset (at b s KDead) = Some zd"
    using typed_zset [OF ty, of "KActive (fld h ''queue'')"] typed_zset [OF ty, of KDead] by auto
  obtain n where n: "counter_of (case at b s KFailed of None \<Rightarrow> None | Some (RStr x) \<Rightarrow> Some x | Some _ \<Rightarrow> Some []) = Some n"
    using typed_counter [OF ty, of KFailed] by blast
  let ?run = "kill_lua call [kJob b i, kDead b, kFailed b] [w, r, pActive b] s"
  have run: "?run = (Inr (RArr [RInt 1]), snd ?run)" and at: "at b (snd ?run) = (at b s)(KActive (fld h ''queue'') := zval (AList.delete i z),
      KJob i \<mapsto> RHash (AList.update ''last_err'' r (AList.update ''owner'' [] (AList.update ''state'' ''dead'' h))),
      KDead := zval (AList.update i (clock_ms s) zd), KFailed \<mapsto> RStr (itoa (n + 1)))"
    using rc owner(1) z n by (simp_all add: kill_lua_def key_fold fenced_lua_owner [OF rc ty h z(1)] lua_steps rs_keys_at lua_return_def)
  then have "rdb_wf (at b (snd ?run))
      \<and> jobs_in (at b (snd ?run)) = (jobs_in (at b s))(i \<mapsto> (job_of h)\<lparr>State := StateDead, Owner := [], LastErr := r\<rparr>)"
    using rdb_wf_count [OF leave_active [OF wf h z(1) disjI2 [OF conjI [OF refl refl]] z(2) disjI2 [OF refl]]] by simp
  with run show ?thesis by blast
qed

lemma kill_lua_sim:
  assumes rc: "redis_commands call" and wf: "rdb_wf (at b s)" and al: "al (Buried i w)"
  shows "rsim b al [] s (snd (kill_lua call [kJob b i, kDead b, kFailed b] [w, r, pActive b] s))"
proof (cases "\<exists>h. owns (at b s) w i h")
  case False
  then have "snd (kill_lua call [kJob b i, kDead b, kFailed b] [w, r, pActive b] s) = s"
    using fenced_lua_foreign [OF rc rdb_wf_typed [OF wf], of w i] by (simp add: kill_lua_def key_fold)
  then show ?thesis using wf by simp
next
  case True
  then obtain h where h: "owns (at b s) w i h" by blast
  let ?s = "snd (kill_lua call [kJob b i, kDead b, kFailed b] [w, r, pActive b] s)"
  have "rdb_wf (at b ?s) \<and> jobs_in (at b ?s) = (jobs_in (at b s))(i \<mapsto> (job_of h)\<lparr>State := StateDead, Owner := [], LastErr := r\<rparr>)"
    using kill_lua_owner [OF rc wf h, of r] by (metis snd_conv)
  then show ?thesis
    by (rule simulates_change [where e = "Buried i w"])
      (use ownsD(4-6) [OF rdb_wf_typed [OF wf] h] al in \<open>auto intro: lstep.buried\<close>)
qed

section \<open>Ack\<close>

lemma ack_lua_owner:
  assumes rc: "redis_commands call" and wf: "rdb_wf (at b s)" and h: "owns (at b s) w i h"
  shows "\<exists>s'. ack_lua call [kJob b i, kProcessed b] [w, itoa ttl, pActive b] s = (Inr (RArr [RInt 1]), s')
    \<and> rdb_wf (at b s') \<and> jobs_in (at b s') = (jobs_in (at b s))(i := None)"
proof -
  note ty = rdb_wf_typed [OF wf] and owner = ownsD [OF rdb_wf_typed [OF wf] h]
  obtain z where z: "as_zset (at b s (KActive (fld h ''queue''))) = Some z" "proper z"
    using typed_zset [OF ty, of "KActive (fld h ''queue'')"] by auto
  obtain n where n: "counter_of (case at b s KProcessed of None \<Rightarrow> None | Some (RStr x) \<Rightarrow> Some x | Some _ \<Rightarrow> Some []) = Some n"
    using typed_counter [OF ty, of KProcessed] by blast
  let ?run = "ack_lua call [kJob b i, kProcessed b] [w, itoa ttl, pActive b] s"
  let ?v = "if 0 < ttl then Some (RHash (AList.update ''owner'' [] (AList.update ''state'' ''completed'' h))) else None"
  have run: "?run = (Inr (RArr [RInt 1]), snd ?run)"
    and at: "at b (snd ?run) = (at b s)(KActive (fld h ''queue'') := zval (AList.delete i z), KJob i := ?v, KProcessed \<mapsto> RStr (itoa (n + 1)))"
    using rc owner(1) z(1) n
    by (simp_all add: ack_lua_def key_fold fenced_lua_owner [OF rc ty h z(1)] lua_steps rs_keys_at lua_return_def fun_upd_twist)
  have "job_ok i (AList.update ''owner'' [] (AList.update ''state'' ''completed'' h))"
    by (rule job_ok_state(2) [OF owner(2)]) (simp_all add: hash_states_def)
  then have v: "?v = None \<or> (\<exists>h'. ?v = Some (RHash h') \<and> job_ok i h' \<and> fld h' ''state'' = ''completed'')" by simp
  have "job_at (at b s) i = Some h" using h by (simp add: owns_def)
  then have "rdb_wf (at b (snd ?run)) \<and> jobs_in (at b (snd ?run)) = (jobs_in (at b s))(i := None)"
    using rdb_wf_count [OF rdb_wf_settle [OF wf _ owner(3) leaves_zset [OF _ z] v]] at by simp
  with run show ?thesis by blast
qed

lemma ack_lua_sim:
  assumes rc: "redis_commands call" and wf: "rdb_wf (at b s)" and al: "al (Completed i w)"
  shows "rsim b al [] s (snd (ack_lua call [kJob b i, kProcessed b] [w, itoa ttl, pActive b] s))"
proof (cases "\<exists>h. owns (at b s) w i h")
  case False
  then have "snd (ack_lua call [kJob b i, kProcessed b] [w, itoa ttl, pActive b] s) = s"
    using fenced_lua_foreign [OF rc rdb_wf_typed [OF wf], of w i] by (simp add: ack_lua_def key_fold)
  then show ?thesis using wf by simp
next
  case True
  then obtain h where h: "owns (at b s) w i h" by blast
  let ?s = "snd (ack_lua call [kJob b i, kProcessed b] [w, itoa ttl, pActive b] s)"
  have "rdb_wf (at b ?s) \<and> jobs_in (at b ?s) = (jobs_in (at b s))(i := None)"
    using ack_lua_owner [OF rc wf h, of ttl] by (metis snd_conv)
  then show ?thesis
    by (rule simulates_change [where e = "Completed i w"])
      (use ownsD(4-6) [OF rdb_wf_typed [OF wf] h] al in \<open>auto intro: lstep.completed\<close>)
qed

section \<open>Extend\<close>

definition holds :: "view \<Rightarrow> string \<Rightarrow> string \<Rightarrow> bool" where
  "holds f w i \<longleftrightarrow> (\<exists>h. owns f w i h)"

lemma holds_iff: "holds f w i \<longleftrightarrow> (case job_at f i of None \<Rightarrow> False | Some h \<Rightarrow> fld h ''state'' = ''active'' \<and> fld h ''owner'' = w)"
  by (auto simp: holds_def owns_def split: option.splits)

lemma extend_one_skips:
  assumes rc: "redis_commands call" and ty: "typed (at b s)" and "\<not> holds (at b s) w i"
  shows "extend_one call now w vt (pJob b) (pActive b) i s = (Inr False, s)"
proof (cases "job_at (at b s) i")
  case None
  then have "at b s (KJob i) = None" using typed_job [OF ty, of i] by auto
  with rc show ?thesis by (simp add: extend_one_def prefix_fold lua_steps rs_keys_at lua_return_def)
next
  case (Some h)
  then have v: "at b s (KJob i) = Some (RHash h)" and ok: "job_ok i h" using typed_job [OF ty, of i] by auto
  with rc assms(3) Some job_okD(4,5) [OF ok] show ?thesis
    by (auto simp: extend_one_def prefix_fold lua_steps rs_keys_at lua_return_def holds_iff)
qed

lemma extend_one_renews:
  assumes rc: "redis_commands call" and wf: "rdb_wf (at b s)" and al: "al (Renewed i w)" and h: "owns (at b s) w i h"
  shows "\<exists>s'. extend_one call now w vt (pJob b) (pActive b) i s = (Inr True, s') \<and> rsim b al [] s s'
    \<and> (\<forall>j. holds (at b s') w j = holds (at b s) w j)"
proof -
  note ty = rdb_wf_typed [OF wf] and owner = ownsD [OF rdb_wf_typed [OF wf] h]
  obtain z where z: "as_zset (at b s (KActive (fld h ''queue''))) = Some z" "proper z"
    using typed_zset [OF ty, of "KActive (fld h ''queue'')"] by auto
  let ?h = "AList.update ''deadline'' (itoa (now + vt)) h"
  let ?s = "put_zset (key_name b (KActive (fld h ''queue''))) (AList.update i (now + vt) z)
    (put (key_name b (KJob i)) (Some (RHash ?h)) s)"
  have at_h: "job_at (at b s) i = Some h" "fld h ''state'' = ''active''" "fld h ''owner'' = w" using h by (simp_all add: owns_def)
  have run: "extend_one call now w vt (pJob b) (pActive b) i s = (Inr True, ?s)"
    using rc owner(1) z(1) at_h job_okD(3-5) [OF owner(2)]
    by (simp add: extend_one_def prefix_fold lua_steps rs_keys_at lua_return_def)
  have e: "enters (KActive (fld h ''queue'')) i (now + vt) (at b s (KActive (fld h ''queue''))) (zval (AList.update i (now + vt) z))"
    by (rule enters_zset [OF _ z]) simp
  have ok: "job_ok i ?h" "container ?h = Some (KActive (fld h ''queue''))" "num ?h ''deadline'' = now + vt"
    using owner(2) at_h(2) by (simp_all add: job_ok_set container_def)
  have "rdb_wf (at b ?s) \<and> jobs_in (at b ?s) = (jobs_in (at b s))(i \<mapsto> job_of ?h)"
    using rdb_wf_renew [OF wf at_h(1) owner(3) e ok] by simp
  then have "rsim b al [] s ?s"
  proof (rule simulates_change [where e = "Renewed i w"])
    have "job_of ?h = (job_of h)\<lparr>Deadline := timeFromMs (now + vt)\<rparr>" by (simp add: job_of_def)
    with lstep.renewed [of "jobs_in (at b s)", OF owner(4-6)] show "lstep (jobs_in (at b s)) (Renewed i w) ((jobs_in (at b s))(i \<mapsto> job_of ?h))" by simp
  qed (simp_all add: al)
  moreover have "holds (at b ?s) w j = holds (at b s) w j" for j using at_h by (simp add: holds_iff)
  ultimately show ?thesis using run by blast
qed

lemma extend_jobs_run:
  assumes rc: "redis_commands call" and "rdb_wf (at b s)" and "\<And>i. i \<in> set ids \<Longrightarrow> al (Renewed i w)"
  shows "\<exists>s'. extend_jobs call now w vt (pJob b) (pActive b) ids lost s
      = (Inr (RArr (map RBulk (lost @ filter (\<lambda>i. \<not> holds (at b s) w i) ids))), s') \<and> rsim b al [] s s'"
  using assms(2,3)
proof (induction ids arbitrary: s lost)
  case Nil
  then show ?case by (simp add: lua_return_def)
next
  case (Cons i ids)
  show ?case
  proof (cases "holds (at b s) w i")
    case False
    then show ?thesis
      using Cons.IH [of s "lost @ [i]"] Cons.prems extend_one_skips [OF rc rdb_wf_typed [OF Cons.prems(1)] False]
      by (simp add: lua_bind_def)
  next
    case True
    then obtain h where "owns (at b s) w i h" by (auto simp: holds_def)
    from extend_one_renews [where al = al, OF rc Cons.prems(1) _ this, of now vt] Cons.prems(2) obtain s' where
      s': "extend_one call now w vt (pJob b) (pActive b) i s = (Inr True, s')" "rsim b al [] s s'"
        "\<And>j. holds (at b s') w j = holds (at b s) w j" by auto
    from Cons.IH [OF simulates_invar [OF s'(2)], of lost] Cons.prems(2) obtain s'' where
      "extend_jobs call now w vt (pJob b) (pActive b) ids lost s'
        = (Inr (RArr (map RBulk (lost @ filter (\<lambda>i. \<not> holds (at b s) w i) ids))), s'')" "rsim b al [] s' s''"
      by (auto simp: s'(3))
    with s'(1,2) True simulates_trans_silent [OF s'(2)] show ?thesis by (auto simp: lua_bind_def)
  qed
qed

end
