(* ===== verification/Redis_Flow.thy ===== *)
theory Redis_Flow
  imports Redis_Reports
begin

text \<open>
  The scripts that bring jobs in and hand them out (enqueue.lua, dequeue.lua): what they leave in the keyspace
  and what they return, and that they are steps of the lifecycle.
\<close>

section \<open>Enqueue\<close>

text \<open>The hash that enqueue.lua stores.\<close>

definition enqueued_hash :: "int \<Rightarrow> string \<Rightarrow> string \<Rightarrow> string \<Rightarrow> string \<Rightarrow> int \<Rightarrow> int \<Rightarrow> string \<Rightarrow> hash" where
  "enqueued_hash now i q ty p m run_at uk =
     [(''id'', i), (''queue'', q), (''type'', ty), (''payload'', p), (''attempt'', itoa 0),
      (''max_attempts'', itoa m), (''recoveries'', itoa 0), (''state'', if now < run_at then ''scheduled'' else ''pending''),
      (''owner'', []), (''unique_key'', uk), (''last_err'', []), (''enqueued_at'', itoa now), (''run_at'', itoa run_at),
      (''started_at'', itoa 0), (''deadline'', itoa 0)]"

lemma fld_Cons [simp]:
  "fld ((g, v) # h) f = (if f = g then v else fld h f)" "num ((g, itoa n) # h) g = n" "f \<noteq> g \<Longrightarrow> num ((g, v) # h) f = num h f"
  by (simp_all add: fld_def num_def)

lemma enqueued_hash_fld:
  "fld (enqueued_hash now i q ty p m run_at uk) ''queue'' = q"
  "fld (enqueued_hash now i q ty p m run_at uk) ''state'' = (if now < run_at then ''scheduled'' else ''pending'')"
  by (simp_all add: enqueued_hash_def)

lemma enqueued_hash_job:
  "job_of (enqueued_hash now i q ty p m run_at uk) = \<lparr>ID = i, Queue = q, Type = ty, Payload = (if p = [] then None else Some p),
     Attempt = 0, MaxAttempts = m, Recoveries = 0, State = (if now < run_at then StateScheduled else StatePending), Owner = [],
     UniqueKey = uk, UniqueTTL = 0, LastErr = [], EnqueuedAt = timeFromMs now, RunAt = timeFromMs run_at, StartedAt = timeFromMs 0,
     Deadline = timeFromMs 0\<rparr>"
  by (simp add: job_of_def enqueued_hash_def)

lemma enqueued_hash_ok: "0 < m \<Longrightarrow> job_ok i (enqueued_hash now i q ty p m run_at uk)"
  by (simp add: job_ok_def enqueued_hash_def proper_def hash_states_def) blast

lemma enqueued_hash_container:
  "container (enqueued_hash now i q ty p m run_at uk) = Some (if now < run_at then KDelayed else KQueue q)"
  by (simp add: container_def enqueued_hash_fld)

lemma enqueue_store_run:
  assumes rc: "redis_commands call" and wf: "rdb_wf (at b s)" and new: "at b s (KJob i) = None" and m: "0 < m"
    and al: "al (Enqueued (job_of (enqueued_hash now i q ty p m run_at uk)))"
  shows "\<exists>s' v qs. enqueue_store_lua call now [kJob b i, kQueue b q, kDelayed b, kQueues b, u] [i, q, ty, p, itoa m, itoa run_at, ttl, uk] s
      = (Inr (RArr [RInt 1]), s') \<and> rsim b al [] s s'
    \<and> (\<not> now < run_at \<longrightarrow> v = lval (the (as_list (at b s (KQueue q))) @ [i]))
    \<and> at b s' = (at b s)(KJob i \<mapsto> RHash (enqueued_hash now i q ty p m run_at uk), (if now < run_at then KDelayed else KQueue q) := v,
        KQueues \<mapsto> RSet qs)"
proof -
  note ty = rdb_wf_typed [OF wf]
  let ?h = "enqueued_hash now i q ty p m run_at uk" and ?y = "if now < run_at then KDelayed else KQueue q"
  obtain z where z: "as_zset (at b s KDelayed) = Some z" "proper z" using typed_zset [OF ty, of KDelayed] by auto
  obtain l where l: "as_list (at b s (KQueue q)) = Some l" "distinct l" using typed_list [OF ty] by blast
  obtain x where x: "as_set (at b s KQueues) = Some x" using ty [unfolded typed_def, rule_format, of KQueues] by auto
  have "i \<notin> set l" using wf new l(1) by (auto simp: rdb_wf_def job_at_def dest!: spec [of _ i] spec [of _ "KQueue q"])
  define v where "v = (if now < run_at then zval (AList.update i run_at z) else lval (l @ [i]))"
  have e: "enters ?y i run_at (at b s ?y) v"
    using enters_zset [OF _ z] enters_list(2) [OF l \<open>i \<notin> set l\<close>] by (simp add: v_def)
  define s' where "s' = snd (enqueue_store_lua call now [kJob b i, kQueue b q, kDelayed b, kQueues b, u]
    [i, q, ty, p, itoa m, itoa run_at, ttl, uk] s)"
  have run: "enqueue_store_lua call now [kJob b i, kQueue b q, kDelayed b, kQueues b, u] [i, q, ty, p, itoa m, itoa run_at, ttl, uk] s
      = (Inr (RArr [RInt 1]), s') \<and> at b s' = (at b s)(KJob i \<mapsto> RHash ?h, ?y := v, KQueues \<mapsto> RSet (List.insert q x))"
    unfolding s'_def using rc new z(1) l(1) x
    by (simp add: enqueue_store_lua_def key_fold lua_steps rs_keys_at lua_return_def enqueued_hash_def v_def)
  have "rdb_wf (at b s') \<and> jobs_in (at b s') = (jobs_in (at b s))(i \<mapsto> job_of ?h)"
    using rdb_wf_side [OF conjunct1 [OF rdb_wf_enter [OF wf new e enqueued_hash_ok [OF m] enqueued_hash_container]], of KQueues "Some (RSet (List.insert q x))"]
      rdb_wf_enter [OF wf new e enqueued_hash_ok [OF m] enqueued_hash_container] run by simp
  then have "rsim b al [] s s'"
  proof (rule simulates_change)
    have "jobs_in (at b s) i = None" using new by (simp add: jobs_in_def job_at_def)
    then show "lstep (jobs_in (at b s)) (Enqueued (job_of ?h)) ((jobs_in (at b s))(i \<mapsto> job_of ?h))"
      using lstep.enqueued [of "jobs_in (at b s)" "job_of ?h"] m by (simp add: enqueued_hash_job)
  qed (simp_all add: al)
  with run l(1) show ?thesis by (intro exI [of _ s'] exI [of _ v] exI [of _ "List.insert q x"]) (simp add: v_def)
qed

text \<open>A live unique key refuses the job; otherwise the job is stored and the key is set.\<close>

lemma enqueue_lua_refused:
  assumes "redis_commands call" and "0 < ttl" and "at b s (KUnique k) = Some (RStr holder)"
  shows "enqueue_lua call [kJob b i, kQueue b q, kDelayed b, kQueues b, kUnique b k] [i, q, ty, p, itoa m, itoa run_at, itoa ttl, uk] s
    = (Inr (RArr [RInt 0, RBulk holder]), s)"
  using assms by (simp add: enqueue_lua_def key_fold lua_steps rs_keys_at lua_return_def)

lemma enqueue_lua_stored:
  assumes rc: "redis_commands call" and wf: "rdb_wf (at b s)" and new: "at b s (KJob i) = None" and m: "0 < m"
    and al: "al (Enqueued (job_of (enqueued_hash (clock_ms s) i q ty p m run_at uk)))"
    and free: "ttl \<le> 0 \<or> at b s (KUnique k) = None"
  shows "\<exists>s' v qs. enqueue_lua call [kJob b i, kQueue b q, kDelayed b, kQueues b, kUnique b k] [i, q, ty, p, itoa m, itoa run_at, itoa ttl, uk] s
      = (Inr (RArr [RInt 1]), s') \<and> rsim b al [] s s'
    \<and> (\<not> clock_ms s < run_at \<longrightarrow> v = lval (the (as_list (at b s (KQueue q))) @ [i]))
    \<and> at b s' = (if 0 < ttl then (at b s)(KUnique k \<mapsto> RStr i) else at b s)
        (KJob i \<mapsto> RHash (enqueued_hash (clock_ms s) i q ty p m run_at uk), (if clock_ms s < run_at then KDelayed else KQueue q) := v,
         KQueues \<mapsto> RSet qs)"
proof -
  let ?s = "if 0 < ttl then put (key_name b (KUnique k)) (Some (RStr i)) s else s"
  have same: "rdb_wf (at b ?s) \<and> jobs_in (at b ?s) = jobs_in (at b s)"
    using rdb_wf_side [OF wf, of "KUnique k" "Some (RStr i)"] wf by simp
  then have sim: "rsim b al [] s ?s" by (intro simulates_same) simp_all
  have new': "at b ?s (KJob i) = None" using new by simp
  have run: "enqueue_lua call [kJob b i, kQueue b q, kDelayed b, kQueues b, kUnique b k] [i, q, ty, p, itoa m, itoa run_at, itoa ttl, uk] s
    = enqueue_store_lua call (clock_ms s) [kJob b i, kQueue b q, kDelayed b, kQueues b, kUnique b k] [i, q, ty, p, itoa m, itoa run_at, itoa ttl, uk] ?s"
    using rc free by (auto simp: enqueue_lua_def key_fold lua_steps rs_keys_at)
  have at: "at b ?s = (if 0 < ttl then (at b s)(KUnique k \<mapsto> RStr i) else at b s)" by simp
  from enqueue_store_run [where al = al, OF rc conjunct1 [OF same] new' m al, of "kUnique b k" "itoa ttl"] obtain s' v qs where
      "enqueue_store_lua call (clock_ms s) [kJob b i, kQueue b q, kDelayed b, kQueues b, kUnique b k] [i, q, ty, p, itoa m, itoa run_at, itoa ttl, uk] ?s
        = (Inr (RArr [RInt 1]), s')" and s': "rsim b al [] ?s s'" and "\<not> clock_ms s < run_at \<longrightarrow> v = lval (the (as_list (at b ?s (KQueue q))) @ [i])"
      and "at b s' = (at b ?s)(KJob i \<mapsto> RHash (enqueued_hash (clock_ms s) i q ty p m run_at uk),
        (if clock_ms s < run_at then KDelayed else KQueue q) := v, KQueues \<mapsto> RSet qs)" by blast
  with simulates_trans_silent [OF sim s'] show ?thesis
    unfolding run at by (intro exI [of _ s'] exI [of _ v] exI [of _ qs]) simp
qed

section \<open>Dequeue\<close>

lemma bind_HGETALL:
  assumes "redis_commands call" and "as_hash (rs_keys s k) = Some h"
  shows "\<exists>l. mset l = mset h \<and> lua_bind (redis_call call (HGETALL k)) f s = f (RArr (flatten l)) s"
proof -
  have "\<forall>k s h. as_hash (rs_keys s k) = Some h \<longrightarrow> (\<exists>l. mset l = mset h \<and> call (HGETALL k) s = (RArr (flatten l), s))"
    using assms(1) unfolding redis_commands_def redis_reads_def by (elim conjE)
  with assms(2) obtain l where "mset l = mset h" "call (HGETALL k) s = (RArr (flatten l), s)" by blast
  then show ?thesis by (auto simp: lua_bind_def redis_call_def)
qed

text \<open>The hash of a job after a worker has claimed it.\<close>

definition claimed_hash :: "int \<Rightarrow> string \<Rightarrow> int \<Rightarrow> hash \<Rightarrow> hash" where
  "claimed_hash now w vt h = hset_fields [(''state'', ''active''), (''owner'', w), (''started_at'', itoa now), (''deadline'', itoa (now + vt))]
     (AList.update ''attempt'' (itoa (num h ''attempt'' + 1)) h)"

lemma claimed_hash_simps:
  "fld (claimed_hash now w vt h) ''queue'' = fld h ''queue''" "fld (claimed_hash now w vt h) ''state'' = ''active''"
  "fld (claimed_hash now w vt h) ''id'' = fld h ''id''" "num (claimed_hash now w vt h) ''deadline'' = now + vt"
  "job_of (claimed_hash now w vt h) = (job_of h)\<lparr>Attempt := Attempt (job_of h) + 1, State := StateActive, Owner := w,
     StartedAt := timeFromMs now, Deadline := timeFromMs (now + vt)\<rparr>"
  by (simp_all add: claimed_hash_def job_of_def)

lemma claimed_hash_ok: "job_ok i h \<Longrightarrow> w \<noteq> [] \<Longrightarrow> job_ok i (claimed_hash now w vt h)"
  by (simp add: claimed_hash_def job_ok_set job_ok_state job_ok_count hash_states_def)

lemma timeFromMs_mono: "a < c \<Longrightarrow> 0 < c \<Longrightarrow> - 62135596800000 \<le> a \<Longrightarrow> timeFromMs a < timeFromMs c"
  by (auto simp: timeFromMs_def)

lemma dequeue_tries_empty:
  "redis_commands call \<Longrightarrow> as_list (at b s (KQueue q)) = Some [] \<Longrightarrow>
     dequeue_tries call n now w vt (pJob b) (kQueue b q) (kActive b q) s = (Inr None, s)"
  by (cases n) (simp_all add: key_fold lua_steps rs_keys_at lua_return_def)

text \<open>From \<open>s\<close> to \<open>s'\<close> the first job of a queue is handed to a worker: its hash is the reply \<open>r\<close>, in any order.\<close>

definition hands_out :: "rdb \<Rightarrow> int \<Rightarrow> string \<Rightarrow> int \<Rightarrow> (event \<Rightarrow> bool) \<Rightarrow> keyspace \<Rightarrow> string \<Rightarrow> reply \<Rightarrow> keyspace \<Rightarrow> bool" where
  "hands_out b now w vt al s q r s' \<longleftrightarrow> (\<exists>i l h g. as_list (at b s (KQueue q)) = Some (i # l) \<and> r = RArr (flatten g)
     \<and> job_at (at b s) i = Some h \<and> mset g = mset (claimed_hash now w vt h) \<and> rsim b al [(i, w)] s s'
     \<and> at b s' = (at b s)(KQueue q := lval l, KJob i \<mapsto> RHash (claimed_hash now w vt h),
         KActive q := zval (AList.update i (now + vt) (the (as_zset (at b s (KActive q)))))))"

lemma dequeue_tries_claims:
  assumes rc: "redis_commands call" and wf: "rdb_wf (at b s)" and l: "as_list (at b s (KQueue q)) = Some (i # l)"
    and w: "w \<noteq> []" and t: "0 < now" "0 < vt" and al: "al (Claimed i w)"
  shows "\<exists>s' r. dequeue_tries call (Suc n) now w vt (pJob b) (kQueue b q) (kActive b q) s = (Inr (Some r), s')
    \<and> hands_out b now w vt al s q r s'"
proof -
  note ty = rdb_wf_typed [OF wf]
  have dl: "distinct (i # l)" using typed_list [OF ty, of q] l by auto
  obtain h where h: "job_at (at b s) i = Some h" "container h = Some (KQueue q)"
    using wf l unfolding rdb_wf_def by (auto dest!: spec [of _ i] spec [of _ "KQueue q"])
  then have v: "at b s (KJob i) = Some (RHash h)" and ok: "job_ok i h" using typed_job [OF ty, of i] by auto
  have c: "fld h ''state'' = ''pending''" "fld h ''queue'' = q" using h(2) by (auto simp: container_def split: if_splits)
  obtain z where z: "as_zset (at b s (KActive q)) = Some z" "proper z" using typed_zset [OF ty, of "KActive q"] by auto
  let ?h = "claimed_hash now w vt h" and ?v = "zval (AList.update i (now + vt) z)"
  let ?s = "put_zset (key_name b (KActive q)) (AList.update i (now + vt) z)
    (put (key_name b (KJob i)) (Some (RHash ?h)) (put (key_name b (KJob i)) (Some (RHash (AList.update ''attempt'' (itoa (num h ''attempt'' + 1)) h)))
      (put_list (key_name b (KQueue q)) l s)))"
  have at: "at b ?s = (at b s)(KQueue q := lval l, KJob i \<mapsto> RHash ?h, KActive q := ?v)" by simp
  obtain g where g: "mset g = mset ?h" "lua_bind (redis_call call (HGETALL (key_name b (KJob i)))) (\<lambda>h. lua_return (Some h)) ?s
      = (Inr (Some (RArr (flatten g))), ?s)"
    using bind_HGETALL [OF rc, of ?s "key_name b (KJob i)" ?h "\<lambda>h. lua_return (Some h)"] by (auto simp: rs_keys_at lua_return_def)
  have run: "dequeue_tries call (Suc n) now w vt (pJob b) (kQueue b q) (kActive b q) s = (Inr (Some (RArr (flatten g))), ?s)"
    using rc l v z(1) g(2) job_okD(6) [OF ok]
    by (simp add: key_fold prefix_fold lua_steps rs_keys_at counter_of_def claimed_hash_def)
  have e: "enters (KActive q) i (now + vt) (at b s (KActive q)) ?v" by (rule enters_zset [OF _ z]) simp
  have "rdb_wf (at b ?s) \<and> jobs_in (at b ?s) = (jobs_in (at b s))(i \<mapsto> job_of ?h)"
    unfolding at
    by (rule rdb_wf_relocate [OF wf h leaves_list [OF l dl] e _ claimed_hash_ok [OF ok w]]) (simp_all add: container_def claimed_hash_simps c)
  moreover have "lstep (jobs_in (at b s)) (Claimed i w) ((jobs_in (at b s))(i \<mapsto> job_of ?h))"
    unfolding claimed_hash_simps
    by (rule lstep.claimed) (use h c w t in \<open>auto simp: jobs_in_def job_of_simps intro!: timeFromMs_mono\<close>)
  ultimately have "rsim b al [(i, w)] s ?s" using al by (rule simulates_claim)
  with run at g(1) h(1) l z(1) show ?thesis unfolding hands_out_def by (metis option.sel)
qed

declare dequeue_tries.simps [simp del]

lemma dequeue_queues_run:
  assumes rc: "redis_commands call" and wf: "rdb_wf (at b s)" and w: "w \<noteq> []" and t: "0 < now" "0 < vt" and al: "\<And>i. al (Claimed i w)"
  shows "(\<forall>q \<in> set qs. as_list (at b s (KQueue q)) = Some [])
      \<and> dequeue_queues call now w vt (pJob b) (concat (map (\<lambda>q. [kQueue b q, kActive b q]) qs)) s = (Inr RNil, s)
    \<or> (\<exists>q \<in> set qs. \<exists>r s'. dequeue_queues call now w vt (pJob b) (concat (map (\<lambda>q. [kQueue b q, kActive b q]) qs)) s = (Inr r, s')
      \<and> hands_out b now w vt al s q r s')"
proof (induction qs)
  case Nil
  then show ?case by (simp add: lua_return_def)
next
  case (Cons q qs)
  obtain l where l: "as_list (at b s (KQueue q)) = Some l" using typed_list [OF rdb_wf_typed [OF wf]] by blast
  show ?case
  proof (cases l)
    case Nil
    with l have "dequeue_tries call 20 now w vt (pJob b) (kQueue b q) (kActive b q) s = (Inr None, s)"
      by (simp add: dequeue_tries_empty [OF rc])
    with Cons.IH l Nil show ?thesis by (auto simp: lua_bind_def)
  next
    case (Cons i l')
    have "(20 :: nat) = Suc 19" by simp
    with dequeue_tries_claims [where al = al, OF rc wf l [unfolded Cons] w t al, of 19] obtain s' r where
      "dequeue_tries call 20 now w vt (pJob b) (kQueue b q) (kActive b q) s = (Inr (Some r), s')" "hands_out b now w vt al s q r s'"
      by metis
    then show ?thesis by (auto simp: lua_bind_def lua_return_def)
  qed
qed

end
