(* ===== verification/Redis_Sweep.thy ===== *)
theory Redis_Sweep
  imports Redis_Flow
begin

text \<open>
  The scripts that sweep the sorted sets (reap.lua, promote.lua): every entry they act on is a job whose lease
  has expired, or that waits in the delayed or the retry set, and each is one step of the lifecycle.
\<close>

section \<open>Reap\<close>

lemma timeFromMs_le: "a \<le> c \<Longrightarrow> 0 < c \<Longrightarrow> timeFromMs a \<le> timeFromMs c"
  by (auto simp: timeFromMs_def)

lemma active_jobD:
  assumes wf: "rdb_wf f" and z: "as_zset (f (KActive q)) = Some z" and d: "map_of z i = Some d"
  shows "\<exists>h. f (KJob i) = Some (RHash h) \<and> job_at f i = Some h \<and> job_ok i h \<and> container h = Some (KActive q) \<and> fld h ''queue'' = q
    \<and> jobs_in f i = Some (job_of h) \<and> State (job_of h) = StateActive \<and> Deadline (job_of h) = timeFromMs d"
proof -
  have "i \<in> mem_of (KActive q) (f (KActive q))" using z d by auto
  then obtain h where h: "job_at f i = Some h" "container h = Some (KActive q)" using wf unfolding rdb_wf_def by blast
  moreover have "\<exists>h. job_at f i = Some h \<and> num h ''deadline'' = d"
    using assms unfolding rdb_wf_def by (auto dest!: spec [of _ i] spec [of _ "KActive q"])
  ultimately have st: "fld h ''state'' = ''active''" "fld h ''queue'' = q" "num h ''deadline'' = d" by (auto simp: container_def split: if_splits)
  then have "owns f (fld h ''owner'') i h" using h(1) by (simp add: owns_def)
  from ownsD [OF rdb_wf_typed [OF wf] this] h(1) st show ?thesis by (auto simp: job_of_simps)
qed

lemma active_leaves:
  "rdb_wf f \<Longrightarrow> as_zset (f (KActive q)) = Some z \<Longrightarrow> leaves (KActive q) i (f (KActive q)) (zval (AList.delete i z))"
  using leaves_zset [of "KActive q"] typed_zset [OF rdb_wf_typed, of f "KActive q"] by auto

text \<open>A job whose lease has expired, after one more recovery: on the ready list again, or buried.\<close>

definition reaped_hash :: "hash \<Rightarrow> hash" where
  "reaped_hash h = AList.update ''owner'' [] (AList.update ''recoveries'' (itoa (num h ''recoveries'' + 1)) h)"

lemma reaped_hash_simps:
  "map_of (reaped_hash h) ''attempt'' = map_of h ''attempt''" "map_of (reaped_hash h) ''max_attempts'' = map_of h ''max_attempts''"
  "fld (reaped_hash h) ''queue'' = fld h ''queue''"
  "job_of (AList.update ''state'' ''pending'' (reaped_hash h)) = (job_of h)\<lparr>State := StatePending, Owner := [], Recoveries := Recoveries (job_of h) + 1\<rparr>"
  "job_of (AList.update ''last_err'' r (AList.update ''state'' ''dead'' (reaped_hash h)))
     = (job_of h)\<lparr>State := StateDead, Owner := [], Recoveries := Recoveries (job_of h) + 1, LastErr := r\<rparr>"
  by (simp_all add: reaped_hash_def job_of_def map_of_upd)

lemma reaped_hash_ok: "job_ok i h \<Longrightarrow> st \<in> set hash_states \<Longrightarrow> st \<noteq> ''active'' \<Longrightarrow> job_ok i (AList.update ''state'' st (reaped_hash h))"
  by (simp add: reaped_hash_def job_ok_state job_ok_count)

lemma reap_entry_gone:
  assumes rc: "redis_commands call" and wf: "rdb_wf (at b s)" and z: "as_zset (at b s (KActive q)) = Some z" and "map_of z i = None"
  shows "\<exists>s'. reap_entry call now [kActive b q, kDead b, kQueue b q, kFailed b] (pJob b) i counts s = (Inr counts, s') \<and> rsim b al [] s s'
    \<and> at b s' (KActive q) = zval (AList.delete i z) \<and> clock_ms s' = clock_ms s"
proof -
  let ?s = "put_zset (key_name b (KActive q)) (AList.delete i z) s"
  have run: "reap_entry call now [kActive b q, kDead b, kQueue b q, kFailed b] (pJob b) i counts s = (Inr counts, ?s)"
    using rc z assms(4) by (simp add: reap_entry_def key_fold lua_steps rs_keys_at lua_return_def)
  note l = active_leaves [OF wf z, of i]
  have "rdb_wf ((at b s)(KActive q := zval (AList.delete i z)))
      \<and> jobs_in ((at b s)(KActive q := zval (AList.delete i z))) = jobs_in (at b s)"
    by (rule rdb_wf_same [OF wf leavesD(1) [OF l]]) (use l z assms(4) in \<open>auto simp: leaves_def fun_eq_iff\<close>)
  then have "rsim b al [] s ?s" by (intro simulates_same) simp_all
  with run show ?thesis by auto
qed

lemma reap_entry_buries:
  assumes rc: "redis_commands call" and wf: "rdb_wf (at b s)" and z: "as_zset (at b s (KActive q)) = Some z"
    and d: "map_of z i = Some d" "d \<le> now" "0 < now" and al: "al (Orphaned i (timeFromMs now))"
    and h: "job_at (at b s) i = Some h" "num h ''max_attempts'' \<le> num h ''attempt''"
  shows "\<exists>s'. reap_entry call now [kActive b q, kDead b, kQueue b q, kFailed b] (pJob b) i counts s = (Inr (fst counts, snd counts + 1), s')
    \<and> rsim b al [] s s' \<and> at b s' (KActive q) = zval (AList.delete i z) \<and> clock_ms s' = clock_ms s"
proof -
  note ty = rdb_wf_typed [OF wf] and lv = active_leaves [OF wf z, of i]
  from active_jobD [OF wf z d(1)] h(1) have f: "at b s (KJob i) = Some (RHash h)" "job_ok i h" "container h = Some (KActive q)"
      "jobs_in (at b s) i = Some (job_of h)" "State (job_of h) = StateActive" "Deadline (job_of h) = timeFromMs d" by auto
  obtain zd where zd: "as_zset (at b s KDead) = Some zd" "proper zd" using typed_zset [OF ty, of KDead] by auto
  obtain n where n: "counter_of (case at b s KFailed of None \<Rightarrow> None | Some (RStr x) \<Rightarrow> Some x | Some _ \<Rightarrow> Some []) = Some n"
    using typed_counter [OF ty, of KFailed] by blast
  define r where "r = ''orphaned: lease expired after '' @ itoa (num h ''attempt'') @ '' attempts''"
  let ?h = "AList.update ''last_err'' r (AList.update ''state'' ''dead'' (reaped_hash h))"
  let ?run = "reap_entry call now [kActive b q, kDead b, kQueue b q, kFailed b] (pJob b) i counts s"
  have run: "?run = (Inr (fst counts, snd counts + 1), snd ?run)" and at: "at b (snd ?run) = (at b s)(KActive q := zval (AList.delete i z),
      KJob i \<mapsto> RHash ?h, KDead := zval (AList.update i now zd), KFailed \<mapsto> RStr (itoa (n + 1)))"
      and clock: "clock_ms (snd ?run) = clock_ms s"
    using rc z zd(1) n d(1) f(1) job_okD(6-8) [OF f(2)] h(2)
    by (simp_all add: reap_entry_def key_fold prefix_fold lua_steps rs_keys_at lua_return_def counter_of_def reaped_hash_def map_of_upd r_def)
  have e: "enters KDead i now (at b s KDead) (zval (AList.update i now zd))" by (rule enters_zset [OF _ zd]) simp
  have ok: "job_ok i ?h" "container ?h = Some KDead"
    using reaped_hash_ok [OF f(2), of "''dead''"] by (simp_all add: job_ok_set container_def hash_states_def)
  have "rdb_wf (at b (snd ?run)) \<and> jobs_in (at b (snd ?run)) = (jobs_in (at b s))(i \<mapsto> job_of ?h)"
    using rdb_wf_count [OF rdb_wf_relocate [OF wf h(1) f(3) lv e _ ok]] at by simp
  then have "rsim b al [] s (snd ?run)"
    unfolding reaped_hash_simps
    by (rule simulates_change [where e = "Orphaned i (timeFromMs now)"])
      (use f timeFromMs_le [OF d(2,3)] al h(2) in \<open>auto intro: lstep.orphaned simp: job_of_simps(3)\<close>)
  with run at clock show ?thesis by (intro exI [of _ "snd ?run"]) simp
qed

lemma reap_entry_recovers:
  assumes rc: "redis_commands call" and wf: "rdb_wf (at b s)" and z: "as_zset (at b s (KActive q)) = Some z"
    and d: "map_of z i = Some d" "d \<le> now" "0 < now" and al: "al (Recovered i (timeFromMs now))"
    and h: "job_at (at b s) i = Some h" "\<not> num h ''max_attempts'' \<le> num h ''attempt''"
  shows "\<exists>s'. reap_entry call now [kActive b q, kDead b, kQueue b q, kFailed b] (pJob b) i counts s = (Inr (fst counts + 1, snd counts), s')
    \<and> rsim b al [] s s' \<and> at b s' (KActive q) = zval (AList.delete i z) \<and> clock_ms s' = clock_ms s"
proof -
  note ty = rdb_wf_typed [OF wf] and lv = active_leaves [OF wf z, of i]
  from active_jobD [OF wf z d(1)] h(1) have f: "at b s (KJob i) = Some (RHash h)" "job_ok i h" "container h = Some (KActive q)"
      "jobs_in (at b s) i = Some (job_of h)" "State (job_of h) = StateActive" "Deadline (job_of h) = timeFromMs d" "fld h ''queue'' = q" by auto
  obtain l where l: "as_list (at b s (KQueue q)) = Some l" "distinct l" using typed_list [OF ty] by blast
  have il: "i \<notin> set l" using containers_hold [OF wf h(1), of "KQueue q"] f(3) l(1) by auto
  let ?h = "AList.update ''state'' ''pending'' (reaped_hash h)"
  let ?run = "reap_entry call now [kActive b q, kDead b, kQueue b q, kFailed b] (pJob b) i counts s"
  have run: "?run = (Inr (fst counts + 1, snd counts), snd ?run)" and at: "at b (snd ?run) = (at b s)(KActive q := zval (AList.delete i z),
      KJob i \<mapsto> RHash ?h, KQueue q := lval (i # l))"
      and clock: "clock_ms (snd ?run) = clock_ms s"
    using rc z l(1) d(1) f(1) job_okD(6-8) [OF f(2)] h(2)
    by (simp_all add: reap_entry_def key_fold prefix_fold lua_steps rs_keys_at lua_return_def counter_of_def reaped_hash_def map_of_upd)
  have e: "enters (KQueue q) i now (at b s (KQueue q)) (lval (i # l))" by (rule enters_list(1) [OF l il])
  have ok: "job_ok i ?h" "container ?h = Some (KQueue q)"
    using reaped_hash_ok [OF f(2), of "''pending''"] f(7) by (simp_all add: container_def hash_states_def reaped_hash_simps)
  have "rdb_wf (at b (snd ?run)) \<and> jobs_in (at b (snd ?run)) = (jobs_in (at b s))(i \<mapsto> job_of ?h)"
    using rdb_wf_relocate [OF wf h(1) f(3) lv e _ ok] at by simp
  then have "rsim b al [] s (snd ?run)"
    unfolding reaped_hash_simps
    by (rule simulates_change [where e = "Recovered i (timeFromMs now)"])
      (use f timeFromMs_le [OF d(2,3)] al h(2) in \<open>auto intro!: lstep.recovered simp: job_of_simps(3)\<close>)
  with run at clock show ?thesis by (intro exI [of _ "snd ?run"]) simp
qed

text \<open>An entry is acted on exactly if it is still in the active set.\<close>

lemma reap_entry_run:
  assumes rc: "redis_commands call" and wf: "rdb_wf (at b s)" and z: "as_zset (at b s (KActive q)) = Some z"
    and due: "\<And>d. map_of z i = Some d \<Longrightarrow> d \<le> now" and now: "0 < now"
    and al: "al (Recovered i (timeFromMs now))" "al (Orphaned i (timeFromMs now))"
  shows "\<exists>c s'. reap_entry call now [kActive b q, kDead b, kQueue b q, kFailed b] (pJob b) i counts s = (Inr c, s') \<and> rsim b al [] s s'
    \<and> at b s' (KActive q) = zval (AList.delete i z) \<and> clock_ms s' = clock_ms s \<and> fst c + snd c = fst counts + snd counts + (if map_of z i = None then 0 else 1)"
proof (cases "map_of z i")
  case None
  then show ?thesis using reap_entry_gone [where al = al, OF rc wf z None, of now counts] by (cases counts) auto
next
  case (Some d)
  obtain h where h: "job_at (at b s) i = Some h" using active_jobD [OF wf z Some] by auto
  show ?thesis
  proof (cases "num h ''max_attempts'' \<le> num h ''attempt''")
    case True
    from reap_entry_buries [where al = al, OF rc wf z Some due [OF Some] now al(2) h True, of counts] Some show ?thesis by force
  next
    case False
    from reap_entry_recovers [where al = al, OF rc wf z Some due [OF Some] now al(1) h False, of counts] Some show ?thesis by force
  qed
qed

lemma reap_entries_run:
  assumes rc: "redis_commands call" and now: "0 < now" and al: "\<And>i. al (Recovered i (timeFromMs now))" "\<And>i. al (Orphaned i (timeFromMs now))"
    and "rdb_wf (at b s)" and "as_zset (at b s (KActive q)) = Some z" and "\<And>i d. i \<in> set ids \<Longrightarrow> map_of z i = Some d \<Longrightarrow> d \<le> now"
    and "distinct ids" and "set ids \<subseteq> Map.dom (map_of z)"
  shows "\<exists>c s' z'. reap_entries call now [kActive b q, kDead b, kQueue b q, kFailed b] (pJob b) (map RBulk ids) counts s
      = (Inr (RArr [RInt (fst c), RInt (snd c)]), s') \<and> rsim b al [] s s' \<and> fst c + snd c = fst counts + snd counts + int (length ids)
    \<and> as_zset (at b s' (KActive q)) = Some z' \<and> map_of z' = map_of z |` (- set ids) \<and> clock_ms s' = clock_ms s"
  using assms(5-)
proof (induction ids arbitrary: s z counts)
  case Nil
  then show ?case by (intro exI [of _ counts] exI [of _ s] exI [of _ z]) (simp add: lua_return_def)
next
  case (Cons i ids)
  from Cons.prems(3) [of i] Cons.prems(5) reap_entry_run [where al = al, OF rc Cons.prems(1,2) _ now al(1,2), of i counts] obtain c s' where
    s': "reap_entry call now [kActive b q, kDead b, kQueue b q, kFailed b] (pJob b) i counts s = (Inr c, s')" "rsim b al [] s s'"
      "at b s' (KActive q) = zval (AList.delete i z)" "clock_ms s' = clock_ms s" "fst c + snd c = fst counts + snd counts + 1"
    by auto
  have "\<exists>c' s'' z'. reap_entries call now [kActive b q, kDead b, kQueue b q, kFailed b] (pJob b) (map RBulk ids) c s'
      = (Inr (RArr [RInt (fst c'), RInt (snd c')]), s'') \<and> rsim b al [] s' s'' \<and> fst c' + snd c' = fst c + snd c + int (length ids)
    \<and> as_zset (at b s'' (KActive q)) = Some z' \<and> map_of z' = map_of (AList.delete i z) |` (- set ids) \<and> clock_ms s'' = clock_ms s'"
    by (rule Cons.IH) (use s' simulates_invar [OF s'(2)] Cons.prems(3,4,5) in \<open>auto simp: map_of_delete split: if_splits\<close>)
  then obtain c' s'' z' where r: "reap_entries call now [kActive b q, kDead b, kQueue b q, kFailed b] (pJob b) (map RBulk ids) c s'
      = (Inr (RArr [RInt (fst c'), RInt (snd c')]), s'')" "rsim b al [] s' s''" "fst c' + snd c' = fst c + snd c + int (length ids)"
      "as_zset (at b s'' (KActive q)) = Some z'" "map_of z' = map_of (AList.delete i z) |` (- set ids)" "clock_ms s'' = clock_ms s'" by blast
  have "map_of z' = map_of z |` (- set (i # ids))" using r(5) by (auto simp: map_of_delete restrict_map_def fun_eq_iff)
  with s' r simulates_trans_silent [OF s'(2) r(2)] show ?case
    by (intro exI [of _ c'] exI [of _ s''] exI [of _ z']) (simp add: lua_bind_def lua_str_def lua_return_def)
qed

text \<open>The members that ZRANGEBYSCORE returns.\<close>

definition due_ids :: "int \<Rightarrow> int \<Rightarrow> (string \<times> int) list \<Rightarrow> string list" where
  "due_ids mx n z = map due_id (in_score_order mx n z)"

lemma due_ids_props:
  assumes "proper z"
  shows "distinct (due_ids mx n z)" and "i \<in> set (due_ids mx n z) \<Longrightarrow> \<exists>d. map_of z i = Some d \<and> d \<le> mx"
proof -
  let ?ds = "map (\<lambda>(m, sc). Due m sc) (filter (\<lambda>(m, sc). sc \<le> mx) z)"
  have "map due_id ?ds = map fst (filter (\<lambda>(m, sc). sc \<le> mx) z)" by (induction z) auto
  moreover have "distinct (map fst (filter (\<lambda>(m, sc). sc \<le> mx) z))" using assms by (simp add: proper_def distinct_map_filter)
  ultimately have "distinct (map due_id ?ds)" by (simp only:)
  moreover have "mset (map due_id (sort ?ds)) = mset (map due_id ?ds)" by (metis mset_map mset_sort)
  ultimately have "distinct (map due_id (sort ?ds))" by (metis mset_eq_imp_distinct_iff)
  then show "distinct (due_ids mx n z)" unfolding due_ids_def in_score_order_def take_map [symmetric] by (rule distinct_take)
  assume "i \<in> set (due_ids mx n z)"
  then obtain d where "(i, d) \<in> set z" "d \<le> mx" unfolding due_ids_def in_score_order_def by (auto dest!: in_set_takeD)
  with assms show "\<exists>d. map_of z i = Some d \<and> d \<le> mx" by (auto simp: proper_def intro: map_of_is_SomeI)
qed

lemma reap_lua_run:
  assumes rc: "redis_commands call" and wf: "rdb_wf (at b s)" and z: "as_zset (at b s (KActive q)) = Some z" and now: "0 < clock_ms s"
    and al: "\<And>i. al (Recovered i (timeFromMs (clock_ms s)))" "\<And>i. al (Orphaned i (timeFromMs (clock_ms s)))"
  shows "\<exists>c s' z'. reap_lua call [kActive b q, kDead b, kQueue b q, kFailed b] [itoa limit, pJob b] s = (Inr (RArr [RInt (fst c), RInt (snd c)]), s')
    \<and> rsim b al [] s s' \<and> fst c + snd c = int (length (due_ids (clock_ms s) limit z))
    \<and> as_zset (at b s' (KActive q)) = Some z' \<and> map_of z' = map_of z |` (- set (due_ids (clock_ms s) limit z)) \<and> clock_ms s' = clock_ms s"
proof -
  have "proper z" using typed_zset [OF rdb_wf_typed [OF wf], of "KActive q"] z by auto
  note due = due_ids_props [OF this]
  have "reap_lua call [kActive b q, kDead b, kQueue b q, kFailed b] [itoa limit, pJob b] s
      = reap_entries call (clock_ms s) [kActive b q, kDead b, kQueue b q, kFailed b] (pJob b) (map RBulk (due_ids (clock_ms s) limit z)) (0, 0) s"
    using rc z by (simp add: reap_lua_def key_fold lua_steps rs_keys_at elements_def due_ids_def comp_def)
  moreover have "\<exists>c s' z'. reap_entries call (clock_ms s) [kActive b q, kDead b, kQueue b q, kFailed b] (pJob b)
      (map RBulk (due_ids (clock_ms s) limit z)) (0, 0) s = (Inr (RArr [RInt (fst c), RInt (snd c)]), s')
    \<and> rsim b al [] s s' \<and> fst c + snd c = fst (0 :: int, 0 :: int) + snd (0 :: int, 0 :: int) + int (length (due_ids (clock_ms s) limit z))
    \<and> as_zset (at b s' (KActive q)) = Some z' \<and> map_of z' = map_of z |` (- set (due_ids (clock_ms s) limit z)) \<and> clock_ms s' = clock_ms s"
    by (rule reap_entries_run [where al = al, OF rc now al wf z]) (use due in \<open>fastforce+\<close>)
  ultimately show ?thesis by simp
qed

section \<open>Promote\<close>

lemma queue_prefix: "key_name b (KQueue []) @ q = key_name b (KQueue q)"
  by (simp add: key_name.simps key_defs)

lemma promote_entry_moves:
  assumes rc: "redis_commands call" and wf: "rdb_wf (at b s)" and x: "x = KDelayed \<or> x = KRetry" and z: "as_zset (at b s x) = Some z"
    and d: "map_of z i = Some d" and al: "al (Promoted i)"
  shows "\<exists>s'. promote_entry call (key_name b x) (pJob b) (rdb_prefix b @ '':q:'') i n s = (Inr (n + 1), s') \<and> rsim b al [] s s'
    \<and> at b s' x = zval (AList.delete i z) \<and> (\<forall>y. zkey y \<longrightarrow> y \<noteq> x \<longrightarrow> at b s' y = at b s y)"
proof -
  note ty = rdb_wf_typed [OF wf]
  have zx: "zkey x" using x by auto
  have "proper z" using typed_zset [OF ty zx] z by auto
  have lv: "leaves x i (at b s x) (zval (AList.delete i z))" by (rule leaves_zset [OF zx z \<open>proper z\<close>])
  have "i \<in> mem_of x (at b s x)" using x z d by auto
  then obtain h where h: "job_at (at b s) i = Some h" "container h = Some x" using wf unfolding rdb_wf_def by blast
  then have v: "at b s (KJob i) = Some (RHash h)" and ok: "job_ok i h" using typed_job [OF ty, of i] by auto
  have st: "fld h ''state'' = ''scheduled'' \<or> fld h ''state'' = ''retry''" using h(2) x by (auto simp: container_def split: if_splits)
  then have o: "fld h ''owner'' = []" using job_okD(12) [OF ok] by auto
  let ?q = "fld h ''queue''"
  obtain l where l: "as_list (at b s (KQueue ?q)) = Some l" "distinct l" using typed_list [OF ty] by blast
  have il: "i \<notin> set l" using containers_hold [OF wf h(1), of "KQueue ?q"] h(2) x l(1) by auto
  let ?h = "AList.update ''owner'' [] (AList.update ''state'' ''pending'' h)"
  let ?s = "put_list (key_name b (KQueue ?q)) (l @ [i]) (put (key_name b (KJob i)) (Some (RHash ?h)) (put_zset (key_name b x) (AList.delete i z) s))"
  have run: "promote_entry call (key_name b x) (pJob b) (rdb_prefix b @ '':q:'') i n s = (Inr (n + 1), ?s)"
    using x rc z d v l(1) job_okD(3) [OF ok]
    by (elim disjE) (simp_all add: promote_entry_def prefix_fold [simplified] queue_prefix lua_steps rs_keys_at lua_return_def)
  have at: "at b ?s = (at b s)(x := zval (AList.delete i z), KJob i \<mapsto> RHash ?h, KQueue ?q := lval (l @ [i]))" by simp
  have e: "enters (KQueue ?q) i 0 (at b s (KQueue ?q)) (lval (l @ [i]))" by (rule enters_list(2) [OF l il])
  have ok': "job_ok i ?h" "container ?h = Some (KQueue ?q)" using job_ok_state(2) [OF ok] by (simp_all add: hash_states_def container_def)
  have ne: "x \<noteq> KQueue ?q" using x by auto
  have "rdb_wf (at b ?s) \<and> jobs_in (at b ?s) = (jobs_in (at b s))(i \<mapsto> job_of ?h)"
    using rdb_wf_relocate [OF wf h lv e ne ok'] at by simp
  then have "rsim b al [] s ?s"
  proof (rule simulates_change [where e = "Promoted i"])
    have "job_of ?h = (job_of h)\<lparr>State := StatePending\<rparr>" using o by (simp add: job_of_def)
    then show "lstep (jobs_in (at b s)) (Promoted i) ((jobs_in (at b s))(i \<mapsto> job_of ?h))"
      using lstep.promoted [of "jobs_in (at b s)" i "job_of h"] h(1) st by (auto simp: jobs_in_def job_of_simps)
  qed (simp_all add: al)
  with run at x show ?thesis by (intro exI [of _ ?s]) auto
qed

lemma promote_entries_run:
  assumes rc: "redis_commands call" and x: "x = KDelayed \<or> x = KRetry" and al: "\<And>i. al (Promoted i)"
    and "rdb_wf (at b s)" and "as_zset (at b s x) = Some z" and "distinct ids" and "set ids \<subseteq> Map.dom (map_of z)"
  shows "\<exists>s' z'. promote_entries call (key_name b x) (pJob b) (rdb_prefix b @ '':q:'') (map RBulk ids) n s
      = (Inr (n + int (length ids)), s') \<and> rsim b al [] s s' \<and> as_zset (at b s' x) = Some z' \<and> map_of z' = map_of z |` (- set ids)
    \<and> (\<forall>y. zkey y \<longrightarrow> y \<noteq> x \<longrightarrow> at b s' y = at b s y)"
  using assms(4-)
proof (induction ids arbitrary: s z n)
  case Nil
  then show ?case by (intro exI [of _ s] exI [of _ z]) (simp add: lua_return_def)
next
  case (Cons i ids)
  from Cons.prems(4) obtain d where "map_of z i = Some d" by auto
  from promote_entry_moves [where al = al, OF rc Cons.prems(1) x Cons.prems(2) this al, of n] obtain s' where
    s': "promote_entry call (key_name b x) (pJob b) (rdb_prefix b @ '':q:'') i n s = (Inr (n + 1), s')" "rsim b al [] s s'"
      "at b s' x = zval (AList.delete i z)" "\<forall>y. zkey y \<longrightarrow> y \<noteq> x \<longrightarrow> at b s' y = at b s y" by blast
  have "\<exists>s'' z'. promote_entries call (key_name b x) (pJob b) (rdb_prefix b @ '':q:'') (map RBulk ids) (n + 1) s'
      = (Inr (n + 1 + int (length ids)), s'') \<and> rsim b al [] s' s'' \<and> as_zset (at b s'' x) = Some z'
      \<and> map_of z' = map_of (AList.delete i z) |` (- set ids) \<and> (\<forall>y. zkey y \<longrightarrow> y \<noteq> x \<longrightarrow> at b s'' y = at b s' y)"
    by (rule Cons.IH) (use s' simulates_invar [OF s'(2)] Cons.prems(3,4) in \<open>auto simp: map_of_delete\<close>)
  then obtain s'' z' where r: "promote_entries call (key_name b x) (pJob b) (rdb_prefix b @ '':q:'') (map RBulk ids) (n + 1) s'
      = (Inr (n + 1 + int (length ids)), s'')" "rsim b al [] s' s''" "as_zset (at b s'' x) = Some z'"
      "map_of z' = map_of (AList.delete i z) |` (- set ids)" "\<forall>y. zkey y \<longrightarrow> y \<noteq> x \<longrightarrow> at b s'' y = at b s' y" by blast
  have "map_of z' = map_of z |` (- set (i # ids))" using r(4) by (auto simp: map_of_delete restrict_map_def fun_eq_iff)
  with s' r simulates_trans_silent [OF s'(2) r(2)] show ?case
    by (intro exI [of _ s''] exI [of _ z']) (simp add: lua_bind_def lua_str_def lua_return_def)
qed

lemma promote_set_run:
  assumes rc: "redis_commands call" and x: "x = KDelayed \<or> x = KRetry" and al: "\<And>i. al (Promoted i)"
    and wf: "rdb_wf (at b s)" and z: "as_zset (at b s x) = Some z"
  shows "\<exists>s'. promote_set call now limit (pJob b) (rdb_prefix b @ '':q:'') (key_name b x) n s
      = (Inr (n + int (length (due_ids now (limit - n) z))), s') \<and> rsim b al [] s s' \<and> (\<forall>y. zkey y \<longrightarrow> y \<noteq> x \<longrightarrow> at b s' y = at b s y)"
proof (cases "n < limit")
  case False
  then show ?thesis using wf by (simp add: promote_set_def lua_return_def due_ids_def in_score_order_def)
next
  case True
  let ?ids = "due_ids now (limit - n) z"
  have zx: "zkey x" using x by auto
  have "proper z" using typed_zset [OF rdb_wf_typed [OF wf] zx] z by auto
  note due = due_ids_props [OF this, where mx = now and n = "limit - n"]
  have run: "promote_set call now limit (pJob b) (rdb_prefix b @ '':q:'') (key_name b x) n s
      = promote_entries call (key_name b x) (pJob b) (rdb_prefix b @ '':q:'') (map RBulk ?ids) n s"
    using rc z True by (simp add: promote_set_def lua_steps rs_keys_at elements_def due_ids_def comp_def)
  have "set ?ids \<subseteq> Map.dom (map_of z)" using due(2) by blast
  from promote_entries_run [where al = al, OF rc x al wf z due(1) this, of n] show ?thesis unfolding run by blast
qed

lemma promote_lua_run:
  assumes rc: "redis_commands call" and al: "\<And>i. al (Promoted i)" and wf: "rdb_wf (at b s)"
    and z: "as_zset (at b s KDelayed) = Some zd" "as_zset (at b s KRetry) = Some zr"
  shows "\<exists>s'. promote_lua call [kDelayed b, kRetry b] [itoa limit, pJob b, rdb_prefix b @ '':q:''] s
      = (Inr (RInt (int (length (due_ids (clock_ms s) limit zd))
          + int (length (due_ids (clock_ms s) (limit - int (length (due_ids (clock_ms s) limit zd))) zr)))), s') \<and> rsim b al [] s s'"
proof -
  let ?n = "int (length (due_ids (clock_ms s) limit zd))"
  from promote_set_run [where al = al, OF rc disjI1 [OF refl] al wf z(1), of "clock_ms s" limit 0] obtain s' where
    s': "promote_set call (clock_ms s) limit (pJob b) (rdb_prefix b @ '':q:'') (key_name b KDelayed) 0 s = (Inr ?n, s')" "rsim b al [] s s'"
      "at b s' KRetry = at b s KRetry" by auto
  from promote_set_run [where al = al, OF rc disjI2 [OF refl] al simulates_invar [OF s'(2)], of zr "clock_ms s" limit ?n] s'(3) z(2) obtain s'' where
    s'': "promote_set call (clock_ms s) limit (pJob b) (rdb_prefix b @ '':q:'') (key_name b KRetry) ?n s'
      = (Inr (?n + int (length (due_ids (clock_ms s) (limit - ?n) zr))), s'')" "rsim b al [] s' s''" by auto
  have "promote_lua call [kDelayed b, kRetry b] [itoa limit, pJob b, rdb_prefix b @ '':q:''] s
      = (Inr (RInt (?n + int (length (due_ids (clock_ms s) (limit - ?n) zr)))), s'')"
    using rc s'(1) s''(1) by (simp add: promote_lua_def key_fold lua_steps lua_bind_def [of "promote_set c t u p v x y" for c t u p v x y] lua_return_def)
  with simulates_trans_silent [OF s'(2) s''(2)] show ?thesis by blast
qed

end
