(* ===== verification/Redis_Exec.thy ===== *)
theory Redis_Exec
  imports Redis_Sweep
begin

text \<open>
  The Redis broker as an implementation of the lifecycle. An operation happens at a moment of the server's
  clock; its round trips may be lost, before or after the server has run the script. Between operations the
  server drops keys whose time to live has passed: unique keys, leases, worker records and completed jobs.

  An operation is admissible when Enqueue is given an ID that is not stored and every timeout that is
  positive is at least one millisecond, the resolution of the scripts; the code checks neither.
\<close>

section \<open>Operations\<close>

datatype rop =
    RdbEnqueue conn string time job
  | RdbDequeue conn claim_opts
  | RdbAck conn string string
  | RdbNack conn string string time string
  | RdbKill conn string string string
  | RdbExtend conn string "string list" duration
  | RdbReap "string \<Rightarrow> conn" "string list" int
  | RdbPromote conn int
  | RdbHeartbeat conn worker_info duration
  | RdbAcquireLease conn string string duration
  | RdbReleaseLease conn string string
  | RdbScheduleCronIfAbsent conn string time
  | RdbClaimCron conn string time time
  | RdbRemoveCron conn string
  | KeyExpires rkey

text \<open>Seconds and microseconds, as \<^verbatim>\<open>TIME\<close> returns them.\<close>

type_synonym moment = "int \<times> int"

definition ms_of :: "moment \<Rightarrow> int" where
  "ms_of t = fst t * 1000 + snd t div 1000"

definition set_clock :: "moment \<Rightarrow> keyspace \<Rightarrow> keyspace" where
  "set_clock t s = s\<lparr>rs_sec := fst t, rs_usec := snd t\<rparr>"

fun rop_exec :: "redis \<Rightarrow> rdb \<Rightarrow> rop \<Rightarrow> keyspace \<Rightarrow> keyspace" where
  "rop_exec call b (RdbEnqueue conn newID now j) s = snd (snd (rdb_Enqueue call conn b newID now (Some j) s))"
| "rop_exec call b (RdbDequeue conn opts) s = snd (rdb_Dequeue call conn b opts s)"
| "rop_exec call b (RdbAck conn w i) s = snd (rdb_Ack call conn b w i s)"
| "rop_exec call b (RdbNack conn w i t r) s = snd (rdb_Nack call conn b w i t r s)"
| "rop_exec call b (RdbKill conn w i r) s = snd (rdb_Kill call conn b w i r s)"
| "rop_exec call b (RdbExtend conn w ids vt) s = snd (rdb_Extend call conn b w ids vt s)"
| "rop_exec call b (RdbReap conns qs limit) s = snd (snd (rdb_Reap call conns b qs limit s))"
| "rop_exec call b (RdbPromote conn limit) s = snd (rdb_Promote call conn b limit s)"
| "rop_exec call b (RdbHeartbeat conn w ttl) s = snd (rdb_Heartbeat call conn b w ttl s)"
| "rop_exec call b (RdbAcquireLease conn n w ttl) s = snd (rdb_AcquireLease call conn b n w ttl s)"
| "rop_exec call b (RdbReleaseLease conn n w) s = snd (rdb_ReleaseLease call conn b n w s)"
| "rop_exec call b (RdbScheduleCronIfAbsent conn i t) s = snd (rdb_ScheduleCronIfAbsent call conn b i t s)"
| "rop_exec call b (RdbClaimCron conn i t t') s = snd (rdb_ClaimCron call conn b i t t' s)"
| "rop_exec call b (RdbRemoveCron conn i) s = snd (rdb_RemoveCron call conn b i s)"
| "rop_exec call b (KeyExpires x) s = put (key_name b x) None s"

fun rexec :: "redis \<Rightarrow> rdb \<Rightarrow> moment \<times> rop \<Rightarrow> keyspace \<Rightarrow> keyspace" where
  "rexec call b (t, p) s = rop_exec call b p (set_clock t s)"

definition whole_ms :: "duration \<Rightarrow> bool" where
  "whole_ms d \<longleftrightarrow> d \<le> 0 \<or> Millisecond \<le> d"

fun expirable :: "view \<Rightarrow> rkey \<Rightarrow> bool" where
  "expirable f (KUnique k) \<longleftrightarrow> True"
| "expirable f (KLease n) \<longleftrightarrow> True"
| "expirable f (KWorker i) \<longleftrightarrow> True"
| "expirable f (KJob i) \<longleftrightarrow> (case job_at f i of None \<Rightarrow> False | Some h \<Rightarrow> fld h ''state'' = ''completed'')"
| "expirable f _ \<longleftrightarrow> False"

fun rop_ok :: "rdb \<Rightarrow> rop \<Rightarrow> keyspace \<Rightarrow> bool" where
  "rop_ok b (RdbEnqueue conn newID now j) s \<longleftrightarrow> at b s (KJob (if ID j = [] then newID else ID j)) = None"
| "rop_ok b (RdbDequeue conn opts) s \<longleftrightarrow> whole_ms (VisibilityTimeout opts)"
| "rop_ok b (RdbHeartbeat conn w ttl) s \<longleftrightarrow> whole_ms ttl"
| "rop_ok b (RdbAcquireLease conn n w ttl) s \<longleftrightarrow> whole_ms ttl"
| "rop_ok b (KeyExpires x) s \<longleftrightarrow> expirable (at b s) x"
| "rop_ok b _ s \<longleftrightarrow> True"

fun radmissible :: "rdb \<Rightarrow> moment \<times> rop \<Rightarrow> keyspace \<Rightarrow> bool" where
  "radmissible b (t, p) s \<longleftrightarrow> 0 < ms_of t \<and> rop_ok b p s"

text \<open>The events of the lifecycle that an operation may cause.\<close>

fun rallowed :: "moment \<times> rop \<Rightarrow> event \<Rightarrow> bool" where
  "rallowed (t, RdbEnqueue conn newID now j) e \<longleftrightarrow> (\<exists>k. e = Enqueued k \<and> Attempt k = 0 \<and> ID k = (if ID j = [] then newID else ID j))"
| "rallowed (t, RdbDequeue conn opts) e \<longleftrightarrow> (\<exists>i. e = Claimed i (WorkerID opts))"
| "rallowed (t, RdbAck conn w i) e \<longleftrightarrow> e = Completed i w"
| "rallowed (t, RdbNack conn w i t' r) e \<longleftrightarrow> e = Retried i w \<or> e = Buried i w"
| "rallowed (t, RdbKill conn w i r) e \<longleftrightarrow> e = Buried i w"
| "rallowed (t, RdbExtend conn w ids vt) e \<longleftrightarrow> (\<exists>i \<in> set ids. e = Renewed i w)"
| "rallowed (t, RdbReap conns qs limit) e \<longleftrightarrow> (\<exists>i. e = Recovered i (timeFromMs (ms_of t)) \<or> e = Orphaned i (timeFromMs (ms_of t)))"
| "rallowed (t, RdbPromote conn limit) e \<longleftrightarrow> (\<exists>i. e = Promoted i)"
| "rallowed _ e \<longleftrightarrow> False"

definition dequeue_script :: "redis \<Rightarrow> rdb \<Rightarrow> claim_opts \<Rightarrow> reply lua" where
  "dequeue_script call b opts = dequeue_lua call (concat (map (\<lambda>q. [kQueue b q, kActive b q]) (Queues opts)))
     [WorkerID opts, itoa (Milliseconds (VisibilityTimeout opts)), pJob b]"

fun lost_request :: "conn \<Rightarrow> bool" where
  "lost_request (LostRequest e) \<longleftrightarrow> True"
| "lost_request _ \<longleftrightarrow> False"

text \<open>The job that the server hands to a worker, whether or not the reply arrives.\<close>

fun rgiven :: "redis \<Rightarrow> rdb \<Rightarrow> moment \<times> rop \<Rightarrow> keyspace \<Rightarrow> (string \<times> string) option" where
  "rgiven call b (t, RdbDequeue conn opts) s =
     (if WorkerID opts = [] \<or> VisibilityTimeout opts \<le> 0 \<or> Queues opts = [] \<or> lost_request conn then None
      else case fst (dequeue_script call b opts (set_clock t s)) of
        Inr (RArr flat) \<Rightarrow> Some (hash_field (hash_pairs flat) ''id'', WorkerID opts)
      | _ \<Rightarrow> None)"
| "rgiven call b _ s = None"

lemma set_clock_simps [simp]: "at b (set_clock t s) = at b s" "clock_ms (set_clock t s) = ms_of t"
  by (simp_all add: at_def set_clock_def clock_ms_def ms_of_def fun_eq_iff)

section \<open>Round trips\<close>

lemma snd_round_trip:
  "snd (round_trip conn script s) = (if lost_request conn then s else snd (script s))"
  by (cases conn) (auto simp: round_trip_def split: prod.splits sum.splits reply.splits)

lemma rsim_round_trip:
  "rdb_wf (at b s) \<Longrightarrow> rsim b al [] s (snd (script s)) \<Longrightarrow> rsim b al [] s (snd (round_trip conn script s))"
  by (simp add: snd_round_trip)

lemma report_reply:
  "script s = (Inr (RArr xs), s') \<Longrightarrow> rdb_report what Delivered script w i s = (fenceError xs i w, s')"
  by (simp add: rdb_report_def round_trip_def Slice_def)

section \<open>Operations on jobs\<close>

lemma rdb_report_sim:
  assumes "rdb_wf (at b s)" and "rsim b al [] s (snd (script s))"
  shows "rsim b al [] s (snd (rdb_report what conn script w i s))"
  using rsim_round_trip [where script = script and conn = conn, OF assms]
  by (auto simp: rdb_report_def split: prod.splits sum.splits)

lemma rdb_Ack_sim: "redis_commands call \<Longrightarrow> rdb_wf (at b s) \<Longrightarrow> al (Completed i w) \<Longrightarrow> rsim b al [] s (snd (rdb_Ack call conn b w i s))"
  unfolding rdb_Ack_def by (intro rdb_report_sim ack_lua_sim)

lemma rdb_Nack_sim:
  "redis_commands call \<Longrightarrow> rdb_wf (at b s) \<Longrightarrow> al (Retried i w) \<Longrightarrow> al (Buried i w) \<Longrightarrow> rsim b al [] s (snd (rdb_Nack call conn b w i t r s))"
  unfolding rdb_Nack_def by (intro rdb_report_sim nack_lua_sim)

lemma rdb_Kill_sim: "redis_commands call \<Longrightarrow> rdb_wf (at b s) \<Longrightarrow> al (Buried i w) \<Longrightarrow> rsim b al [] s (snd (rdb_Kill call conn b w i r s))"
  unfolding rdb_Kill_def by (intro rdb_report_sim kill_lua_sim)

lemma extend_lua_run:
  assumes "redis_commands call" and "rdb_wf (at b s)" and "\<And>i. i \<in> set ids \<Longrightarrow> al (Renewed i w)"
  shows "\<exists>s'. extend_lua call [] ([w, itoa vt, pJob b, pActive b] @ ids) s
    = (Inr (RArr (map RBulk (filter (\<lambda>i. \<not> holds (at b s) w i) ids))), s') \<and> rsim b al [] s s'"
  using extend_jobs_run [where al = al and now = "clock_ms s" and vt = vt and lost = "[]", OF assms] assms(1)
  by (simp add: extend_lua_def lua_steps)

lemma rdb_Extend_sim:
  assumes "redis_commands call" and "rdb_wf (at b s)" and "\<And>i. i \<in> set ids \<Longrightarrow> al (Renewed i w)"
  shows "rsim b al [] s (snd (rdb_Extend call conn b w ids vt s))"
proof -
  have "rsim b al [] s (snd (extend_lua call [] ([w, itoa (Milliseconds vt), pJob b, pActive b] @ ids) s))"
    using extend_lua_run [where al = al, OF assms] by (metis snd_conv)
  from rsim_round_trip [where conn = conn and script = "extend_lua call [] ([w, itoa (Milliseconds vt), pJob b, pActive b] @ ids)", OF assms(2) this] assms(2) show ?thesis
    by (auto simp: rdb_Extend_def Let_def split: prod.splits sum.splits)
qed

lemma enqueue_args:
  obtains ttl k where "rdb_enqueue_args b j = ([kJob b (ID j), kQueue b (Queue j), kDelayed b, kQueues b, kUnique b k],
      [ID j, Queue j, Type j, case Payload j of None \<Rightarrow> [] | Some p \<Rightarrow> p, itoa (MaxAttempts j), itoa (msFromTime (RunAt j)), itoa ttl, UniqueKey j])"
    and "UniqueKey j = [] \<Longrightarrow> ttl \<le> 0" and "UniqueKey j \<noteq> [] \<Longrightarrow> k = UniqueKey j"
proof
  let ?ttl = "if UniqueKey j \<noteq> [] then Milliseconds (if UniqueTTL j \<le> 0 then defaultUniqueTTL else UniqueTTL j) else 0"
  let ?k = "if UniqueKey j \<noteq> [] then UniqueKey j else ''__none__''"
  show "rdb_enqueue_args b j = ([kJob b (ID j), kQueue b (Queue j), kDelayed b, kQueues b, kUnique b ?k],
      [ID j, Queue j, Type j, case Payload j of None \<Rightarrow> [] | Some p \<Rightarrow> p, itoa (MaxAttempts j), itoa (msFromTime (RunAt j)), itoa ?ttl, UniqueKey j])"
    by (simp add: rdb_enqueue_args_def Let_def)
qed simp_all

text \<open>What the script does with the arguments of the broker: it refuses the job, or stores it.\<close>

lemma enqueue_args_run:
  assumes rc: "redis_commands call" and wf: "rdb_wf (at b s)" and new: "at b s (KJob (ID j)) = None" and m: "0 < MaxAttempts j"
    and args: "rdb_enqueue_args b j = (keys, args)"
    and h: "h = enqueued_hash (clock_ms s) (ID j) (Queue j) (Type j) (case Payload j of None \<Rightarrow> [] | Some p \<Rightarrow> p) (MaxAttempts j)
      (msFromTime (RunAt j)) (UniqueKey j)" and al: "al (Enqueued (job_of h))"
  shows "(\<exists>holder. UniqueKey j \<noteq> [] \<and> at b s (KUnique (UniqueKey j)) \<noteq> None
        \<and> enqueue_lua call keys args s = (Inr (RArr [RInt 0, RBulk holder]), s))
    \<or> (\<exists>s'. enqueue_lua call keys args s = (Inr (RArr [RInt 1]), s') \<and> rsim b al [] s s' \<and> job_at (at b s') = (job_at (at b s))(ID j \<mapsto> h)
        \<and> (\<not> clock_ms s < msFromTime (RunAt j) \<longrightarrow> as_list (at b s' (KQueue (Queue j))) = Some (the (as_list (at b s (KQueue (Queue j)))) @ [ID j]))
        \<and> (\<forall>q. at b s' (KActive q) = at b s (KActive q)))"
proof -
  obtain ttl k where ka: "keys = [kJob b (ID j), kQueue b (Queue j), kDelayed b, kQueues b, kUnique b k]"
      "args = [ID j, Queue j, Type j, case Payload j of None \<Rightarrow> [] | Some p \<Rightarrow> p, itoa (MaxAttempts j), itoa (msFromTime (RunAt j)), itoa ttl, UniqueKey j]"
    and uk: "UniqueKey j = [] \<Longrightarrow> ttl \<le> 0" "UniqueKey j \<noteq> [] \<Longrightarrow> k = UniqueKey j"
    using enqueue_args [of b j] args by (metis prod.inject)
  show ?thesis
  proof (cases "ttl \<le> 0 \<or> at b s (KUnique k) = None")
    case True
    from enqueue_lua_stored [where al = al, OF rc wf new m al [unfolded h] True] obtain s' v qs where
      run: "enqueue_lua call keys args s = (Inr (RArr [RInt 1]), s')" "rsim b al [] s s'"
      and v: "\<not> clock_ms s < msFromTime (RunAt j) \<longrightarrow> v = lval (the (as_list (at b s (KQueue (Queue j)))) @ [ID j])"
      and at: "at b s' = (if 0 < ttl then (at b s)(KUnique k \<mapsto> RStr (ID j)) else at b s)
        (KJob (ID j) \<mapsto> RHash h, (if clock_ms s < msFromTime (RunAt j) then KDelayed else KQueue (Queue j)) := v, KQueues \<mapsto> RSet qs)"
      unfolding ka h by blast
    have "job_at (at b s') = (job_at (at b s))(ID j \<mapsto> h)" by (auto simp: at job_at_def fun_eq_iff)
    with run v show ?thesis by (auto simp: at)
  next
    case False
    then obtain holder where "at b s (KUnique k) = Some (RStr holder)"
      using rdb_wf_typed [OF wf, unfolded typed_def, rule_format, of "KUnique k"] by auto
    moreover have "UniqueKey j \<noteq> []" and k: "k = UniqueKey j" using False uk by auto
    ultimately show ?thesis using enqueue_lua_refused [OF rc, of ttl b s k holder] False unfolding ka k by auto
  qed
qed

lemma rdb_Enqueue_sim:
  assumes rc: "redis_commands call" and wf: "rdb_wf (at b s)" and new: "at b s (KJob (if ID j = [] then newID else ID j)) = None"
    and al: "\<And>k. Attempt k = 0 \<Longrightarrow> ID k = (if ID j = [] then newID else ID j) \<Longrightarrow> al (Enqueued k)"
  shows "rsim b al [] s (snd (snd (rdb_Enqueue call conn b newID now (Some j) s)))"
proof -
  define i where "i = (if ID j = [] then newID else ID j)"
  define j1 where "j1 = (if ID j = [] then j\<lparr>ID := newID\<rparr> else j)"
  define j2 where "j2 = (if MaxAttempts j1 \<le> 0 then j1\<lparr>MaxAttempts := DefaultMaxAttempts\<rparr> else j1)"
  have j2: "ID j2 = i" "0 < MaxAttempts j2" by (auto simp: j2_def j1_def i_def DefaultMaxAttempts_def)
  obtain keys args where ka: "rdb_enqueue_args b j2 = (keys, args)" by (cases "rdb_enqueue_args b j2")
  define h where "h = enqueued_hash (clock_ms s) (ID j2) (Queue j2) (Type j2) (case Payload j2 of None \<Rightarrow> [] | Some p \<Rightarrow> p) (MaxAttempts j2)
      (msFromTime (RunAt j2)) (UniqueKey j2)"
  have "al (Enqueued (job_of h))" by (rule al) (simp_all add: h_def enqueued_hash_job j2(1) i_def)
  from enqueue_args_run [where al = al, OF rc wf _ j2(2) ka h_def this] new have "rsim b al [] s (snd (enqueue_lua call keys args s))"
    using wf by (auto simp: j2(1) i_def)
  from rsim_round_trip [where conn = conn and script = "enqueue_lua call keys args", OF wf this] wf show ?thesis
    unfolding rdb_Enqueue_def option.case j1_def [symmetric] Let_def
    by (auto simp: j2_def [symmetric] ka split: prod.splits sum.splits list.splits)
qed

text \<open>The reply of HGETALL is read back to the hash, in whatever order the server sends it.\<close>

lemma hash_pairs_flatten [simp]: "hash_pairs (flatten g) = g"
  by (induction g rule: flatten.induct) simp_all

lemma hash_field_perm:
  assumes "mset g = mset h" and "proper h"
  shows "hash_field (hash_pairs (flatten g)) f = fld h f"
proof -
  have "set g = set h" using assms(1) by (rule mset_eq_setD)
  moreover have "distinct (map fst g)" using assms unfolding proper_def by (metis mset_eq_imp_distinct_iff mset_map)
  ultimately have "map_of (rev g) = map_of h" using assms(2) by (simp add: map_of_inject_set proper_def rev_map [symmetric])
  then show ?thesis by (simp add: hash_field_def fld_def)
qed

lemma dequeue_script_run:
  assumes rc: "redis_commands call" and wf: "rdb_wf (at b s)" and "WorkerID opts \<noteq> []" and "0 < clock_ms s"
    and "0 < Milliseconds (VisibilityTimeout opts)" and al: "\<And>i. al (Claimed i (WorkerID opts))"
  shows "(\<forall>q \<in> set (Queues opts). as_list (at b s (KQueue q)) = Some []) \<and> dequeue_script call b opts s = (Inr RNil, s)
    \<or> (\<exists>q \<in> set (Queues opts). \<exists>r s'. dequeue_script call b opts s = (Inr r, s')
      \<and> hands_out b (clock_ms s) (WorkerID opts) (Milliseconds (VisibilityTimeout opts)) al s q r s')"
  using dequeue_queues_run [where al = al, OF rc wf assms(3,4,5) al, of "Queues opts"] rc
  by (simp add: dequeue_script_def dequeue_lua_def lua_steps)

lemma hands_out_given:
  assumes "rdb_wf (at b s)" and "w \<noteq> []" and "hands_out b now w vt al s q r s'"
  shows "\<exists>i flat. r = RArr flat \<and> hash_field (hash_pairs flat) ''id'' = i \<and> rsim b al [(i, w)] s s'"
proof -
  from assms(3) obtain i h g where g: "r = RArr (flatten g)" "job_at (at b s) i = Some h" "mset g = mset (claimed_hash now w vt h)" "rsim b al [(i, w)] s s'"
    unfolding hands_out_def by blast
  then have "job_ok i h" using typed_job [OF rdb_wf_typed [OF assms(1)], of i] by auto
  then have ok: "job_ok i (claimed_hash now w vt h)" by (rule claimed_hash_ok [OF _ assms(2)])
  from hash_field_perm [OF g(3) job_okD(11) [OF ok], of "''id''"] job_okD(1) [OF ok] g(1,4) show ?thesis by auto
qed

lemma whole_ms_pos: "whole_ms d \<Longrightarrow> 0 < d \<Longrightarrow> 0 < Milliseconds d"
  by (auto simp: whole_ms_def Milliseconds_def)

lemma snd_rdb_Dequeue:
  "snd (rdb_Dequeue call conn b opts s) = (if WorkerID opts = [] \<or> VisibilityTimeout opts \<le> 0 \<or> Queues opts = [] then s
     else snd (round_trip conn (dequeue_script call b opts) s))"
  by (simp add: rdb_Dequeue_def dequeue_script_def Let_def split: prod.splits sum.splits client_error.splits)

lemma rdb_Dequeue_sim:
  assumes rc: "redis_commands call" and wf: "rdb_wf (at b s)" and ms: "0 < ms_of t" "whole_ms (VisibilityTimeout opts)"
    and al: "\<And>i. al (Claimed i (WorkerID opts))"
  shows "rsim b al (case rgiven call b (t, RdbDequeue conn opts) s of None \<Rightarrow> [] | Some d \<Rightarrow> [d]) s
    (snd (rdb_Dequeue call conn b opts (set_clock t s)))"
proof (cases "WorkerID opts = [] \<or> VisibilityTimeout opts \<le> 0 \<or> Queues opts = [] \<or> lost_request conn")
  case True
  then have "snd (rdb_Dequeue call conn b opts (set_clock t s)) = set_clock t s" by (auto simp: snd_rdb_Dequeue snd_round_trip)
  with True wf show ?thesis by (auto intro!: simulates_same)
next
  case False
  let ?s = "set_clock t s"
  have "0 < Milliseconds (VisibilityTimeout opts)" using False ms(2) by (auto intro: whole_ms_pos)
  with dequeue_script_run [where al = al, OF rc, of b ?s opts] wf False ms(1) al consider
      "dequeue_script call b opts ?s = (Inr RNil, ?s)"
    | q r s' where "dequeue_script call b opts ?s = (Inr r, s')"
        "hands_out b (ms_of t) (WorkerID opts) (Milliseconds (VisibilityTimeout opts)) al ?s q r s'"
    by auto
  then show ?thesis
  proof cases
    case 1
    with False wf show ?thesis by (auto simp: snd_rdb_Dequeue snd_round_trip intro!: simulates_same)
  next
    case 2
    from hands_out_given [OF _ _ 2(2)] wf False obtain i flat where
      "r = RArr flat" "hash_field (hash_pairs flat) ''id'' = i" "rsim b al [(i, WorkerID opts)] ?s s'" by auto
    with 2(1) False show ?thesis by (auto simp: snd_rdb_Dequeue snd_round_trip simulates_def)
  qed
qed

lemma rdb_reap_queue_sim:
  assumes rc: "redis_commands call" and wf: "rdb_wf (at b s)" and now: "0 < clock_ms s"
    and al: "\<And>i. al (Recovered i (timeFromMs (clock_ms s)))" "\<And>i. al (Orphaned i (timeFromMs (clock_ms s)))"
  shows "rsim b al [] s (snd (rdb_reap_queue call conn b q limit s)) \<and> clock_ms (snd (rdb_reap_queue call conn b q limit s)) = clock_ms s"
proof -
  let ?script = "reap_lua call [kActive b q, kDead b, kQueue b q, kFailed b] [itoa limit, pJob b]"
  obtain z where "as_zset (at b s (KActive q)) = Some z" using typed_zset [OF rdb_wf_typed [OF wf], of "KActive q"] by auto
  from reap_lua_run [where al = al, OF rc wf this now al, of limit]
  have "rsim b al [] s (snd (?script s))" "clock_ms (snd (?script s)) = clock_ms s" by (metis snd_conv)+
  moreover have "snd (rdb_reap_queue call conn b q limit s) = snd (round_trip conn ?script s)"
    by (simp add: rdb_reap_queue_def split: prod.splits sum.splits list.splits)
  ultimately show ?thesis using wf by (simp add: snd_round_trip)
qed

lemma rdb_reap_loop_sim:
  assumes rc: "redis_commands call" and "rdb_wf (at b s)" and "0 < clock_ms s"
    and "\<And>i. al (Recovered i (timeFromMs (clock_ms s)))" "\<And>i. al (Orphaned i (timeFromMs (clock_ms s)))"
  shows "rsim b al [] s (snd (snd (rdb_reap_loop call conns b qs limit n s)))"
  using assms(2-)
proof (induction qs arbitrary: s n)
  case (Cons q qs)
  let ?s = "snd (rdb_reap_queue call (conns q) b q limit s)"
  have one: "rsim b al [] s ?s" "clock_ms ?s = clock_ms s"
    using rdb_reap_queue_sim [where al = al, OF rc Cons.prems] by auto
  have rest: "rsim b al [] ?s (snd (snd (rdb_reap_loop call conns b qs limit m ?s)))" for m
    by (rule Cons.IH) (use simulates_invar [OF one(1)] one(2) Cons.prems in auto)
  show ?case
    using one(1) simulates_trans_silent [OF one(1) rest]
    by (auto split: prod.splits sum.splits)
qed simp

lemma rdb_Promote_sim:
  assumes rc: "redis_commands call" and wf: "rdb_wf (at b s)" and al: "\<And>i. al (Promoted i)"
  shows "rsim b al [] s (snd (rdb_Promote call conn b limit s))"
proof -
  let ?script = "promote_lua call [kDelayed b, kRetry b] [itoa limit, pJob b, rdb_prefix b @ '':q:'']"
  obtain zd zr where "as_zset (at b s KDelayed) = Some zd" "as_zset (at b s KRetry) = Some zr"
    using typed_zset [OF rdb_wf_typed [OF wf], of KDelayed] typed_zset [OF rdb_wf_typed [OF wf], of KRetry] by auto
  from promote_lua_run [where al = al, OF rc al wf this, of limit] have "rsim b al [] s (snd (?script s))" by (metis snd_conv)
  moreover have "snd (rdb_Promote call conn b limit s) = (if limit \<le> 0 then s else snd (round_trip conn ?script s))"
    by (simp add: rdb_Promote_def split: prod.splits sum.splits)
  ultimately show ?thesis using wf by (simp add: snd_round_trip)
qed

section \<open>Operations beside jobs\<close>

lemma rsim_side:
  "rdb_wf (at b s) \<Longrightarrow> at b s' = (at b s)(x := v) \<Longrightarrow> side x \<Longrightarrow> key_ok x v \<Longrightarrow> rsim b al [] s s'"
  using rdb_wf_side [of "at b s" x v] by (intro simulates_same) simp_all

lemma rdb_Heartbeat_sim:
  assumes rc: "redis_commands call" and wf: "rdb_wf (at b s)" and ms: "whole_ms ttl"
  shows "rsim b al [] s (snd (rdb_Heartbeat call conn b w ttl s))"
proof (cases "w_ID w = [] \<or> ttl \<le> 0")
  case False
  note ty = rdb_wf_typed [OF wf, unfolded typed_def, rule_format]
  obtain z where z: "as_zset (at b s KWorkers) = Some z" "proper z" using ty [of KWorkers] by auto
  obtain h where h: "as_hash (at b s (KWorker (w_ID w))) = Some h" using ty [of "KWorker (w_ID w)"] by auto
  define args where "args = [w_ID w, itoa (Milliseconds ttl), w_Host w, itoa (w_PID w), join (CHR '','') (w_Queues w), itoa (w_Concurrency w),
    itoa (w_InFlight w), itoa (msFromTime (w_StartedAt w))]"
  let ?script = "heartbeat_lua call [kWorkers b, kWorker b (w_ID w)] args"
  have pos: "0 < Milliseconds ttl" using False ms by (auto intro: whole_ms_pos)
  have "\<exists>z' h'. proper z' \<and> at b (snd (?script s)) = (at b s)(KWorker (w_ID w) \<mapsto> RHash h', KWorkers := zval z')"
    using rc z h pos
    by (simp add: heartbeat_lua_def args_def key_fold lua_steps rs_keys_at lua_return_def fun_upd_twist) (metis proper_simps(2,4))
  then obtain z' h' where "proper z'" "at b (snd (?script s)) = (at b s)(KWorker (w_ID w) \<mapsto> RHash h', KWorkers := zval z')" by blast
  moreover have "rdb_wf ((at b s)(KWorker (w_ID w) \<mapsto> RHash h')) \<and> jobs_in ((at b s)(KWorker (w_ID w) \<mapsto> RHash h')) = jobs_in (at b s)"
    using rdb_wf_side [OF wf, of "KWorker (w_ID w)"] by simp
  ultimately have "rsim b al [] s (snd (?script s))"
    using rdb_wf_side [of "(at b s)(KWorker (w_ID w) \<mapsto> RHash h')" KWorkers "zval z'"] by (intro simulates_same) simp_all
  moreover have "snd (rdb_Heartbeat call conn b w ttl s) = snd (round_trip conn ?script s)"
    using False by (simp add: rdb_Heartbeat_def args_def split: prod.splits sum.splits)
  ultimately show ?thesis using wf by (simp add: snd_round_trip)
qed (use wf in \<open>auto simp: rdb_Heartbeat_def\<close>)

lemma typed_string: "typed f \<Longrightarrow> f (KLease n) = None \<or> (\<exists>x. f (KLease n) = Some (RStr x))"
  unfolding typed_def by (drule spec [of _ "KLease n"]) simp

text \<open>A lease is granted when nobody holds it or the caller does; it is released by its holder only.\<close>

lemma lease_acquire_run:
  assumes rc: "redis_commands call" and ty: "typed (at b s)" and "0 < ttl"
  shows "lease_acquire_lua call [kLease b n] [w, itoa ttl] s =
    (if at b s (KLease n) = None \<or> at b s (KLease n) = Some (RStr w)
     then (Inr (RInt 1), put (key_name b (KLease n)) (Some (RStr w)) s) else (Inr (RInt 0), s))"
  using typed_string [OF ty, of n]
proof
  assume "at b s (KLease n) = None"
  with rc assms(3) show ?thesis by (simp add: lease_acquire_lua_def key_fold lua_steps rs_keys_at lua_return_def)
next
  assume "\<exists>x. at b s (KLease n) = Some (RStr x)"
  with rc assms(3) show ?thesis by (auto simp: lease_acquire_lua_def key_fold lua_steps rs_keys_at lua_return_def)
qed

lemma lease_release_run:
  assumes rc: "redis_commands call" and ty: "typed (at b s)"
  shows "lease_release_lua call [kLease b n] [w] s =
    (if at b s (KLease n) = Some (RStr w) then (Inr (RInt 1), put (key_name b (KLease n)) None s) else (Inr (RInt 0), s))"
  using typed_string [OF ty, of n]
proof
  assume "at b s (KLease n) = None"
  with rc show ?thesis by (simp add: lease_release_lua_def key_fold lua_steps rs_keys_at lua_return_def)
next
  assume "\<exists>x. at b s (KLease n) = Some (RStr x)"
  with rc show ?thesis by (auto simp: lease_release_lua_def key_fold lua_steps rs_keys_at lua_return_def)
qed

lemma rdb_AcquireLease_sim:
  assumes rc: "redis_commands call" and wf: "rdb_wf (at b s)" and ms: "whole_ms ttl"
  shows "rsim b al [] s (snd (rdb_AcquireLease call conn b n w ttl s))"
proof (cases "n = [] \<or> w = [] \<or> ttl \<le> 0")
  case False
  let ?script = "lease_acquire_lua call [kLease b n] [w, itoa (Milliseconds ttl)]"
  have pos: "0 < Milliseconds ttl" using False ms by (auto intro: whole_ms_pos)
  have "rsim b al [] s (snd (?script s))"
    using wf by (auto simp: lease_acquire_run [OF rc rdb_wf_typed [OF wf] pos] intro: rsim_side)
  moreover have "snd (rdb_AcquireLease call conn b n w ttl s) = snd (round_trip conn ?script s)"
    using False by (simp add: rdb_AcquireLease_def split: prod.splits sum.splits)
  ultimately show ?thesis using wf by (simp add: snd_round_trip)
qed (use wf in \<open>auto simp: rdb_AcquireLease_def\<close>)

lemma rdb_ReleaseLease_sim:
  assumes rc: "redis_commands call" and wf: "rdb_wf (at b s)"
  shows "rsim b al [] s (snd (rdb_ReleaseLease call conn b n w s))"
proof (cases "n = [] \<or> w = []")
  case False
  let ?script = "lease_release_lua call [kLease b n] [w]"
  have "rsim b al [] s (snd (?script s))"
    using wf by (auto simp: lease_release_run [OF rc rdb_wf_typed [OF wf]] intro: rsim_side)
  moreover have "snd (rdb_ReleaseLease call conn b n w s) = snd (round_trip conn ?script s)"
    using False by (simp add: rdb_ReleaseLease_def split: prod.splits sum.splits)
  ultimately show ?thesis using wf by (simp add: snd_round_trip)
qed (use wf in \<open>auto simp: rdb_ReleaseLease_def\<close>)

section \<open>Cron store\<close>

lemma cron_zset: "typed f \<Longrightarrow> \<exists>z. as_zset (f KCron) = Some z \<and> proper z"
  unfolding typed_def by (drule spec [of _ KCron]) simp

lemma cron_absent_run:
  assumes "redis_commands call" and "as_zset (at b s KCron) = Some z"
  shows "redis_call call (ZADDNX (kCron b) t i) s =
    (if map_of z i = None then (Inr (RInt 1), put_zset (key_name b KCron) (AList.update i t z) s) else (Inr (RInt 0), s))"
  using assms by (simp add: redis_call_def redis_commands_def redis_writes_def key_fold rs_keys_at)

lemma cron_remove_run:
  assumes "redis_commands call" and "as_zset (at b s KCron) = Some z"
  shows "redis_call call (ZREM (kCron b) i) s = (Inr (RInt (if map_of z i = None then 0 else 1)), put_zset (key_name b KCron) (AList.delete i z) s)"
  using assms by (simp add: redis_call_def redis_commands_def redis_writes_def key_fold rs_keys_at)

text \<open>A claim wins exactly when the stored time is the one the claimer saw, and then advances it.\<close>

lemma cron_claim_run:
  assumes "redis_commands call" and "as_zset (at b s KCron) = Some z"
  shows "cron_claim_lua call [kCron b] [i, itoa t, itoa t'] s =
    (if map_of z i = Some t then (Inr (RInt 1), put_zset (key_name b KCron) (AList.update i t' z) s) else (Inr (RInt 0), s))"
  using assms by (cases "map_of z i") (simp_all add: cron_claim_lua_def key_fold lua_steps rs_keys_at lua_return_def)

lemma rsim_cron:
  "rdb_wf (at b s) \<Longrightarrow> proper z \<Longrightarrow> rsim b al [] s (put_zset (key_name b KCron) z s)"
  by (rule rsim_side [where x = KCron and v = "zval z"]) simp_all

lemma rdb_cron_sim:
  assumes rc: "redis_commands call" and wf: "rdb_wf (at b s)"
  shows "rsim b al [] s (snd (rdb_ScheduleCronIfAbsent call conn b i t s))" "rsim b al [] s (snd (rdb_ClaimCron call conn b i t t' s))"
    "rsim b al [] s (snd (rdb_RemoveCron call conn b i s))"
proof -
  obtain z where z: "as_zset (at b s KCron) = Some z" "proper z" using cron_zset [OF rdb_wf_typed [OF wf]] by blast
  have "snd (rdb_ScheduleCronIfAbsent call conn b i t s) = (if i = [] then s else snd (round_trip conn (redis_call call (ZADDNX (kCron b) (UnixMilli t) i)) s))"
    by (simp add: rdb_ScheduleCronIfAbsent_def split: prod.splits sum.splits)
  then show "rsim b al [] s (snd (rdb_ScheduleCronIfAbsent call conn b i t s))"
    using wf z(2) by (auto simp: snd_round_trip cron_absent_run [OF rc z(1)] intro: rsim_cron)
  have "snd (rdb_ClaimCron call conn b i t t' s) = (if i = [] then s
      else snd (round_trip conn (cron_claim_lua call [kCron b] [i, itoa (UnixMilli t), itoa (UnixMilli t')]) s))"
    by (simp add: rdb_ClaimCron_def split: prod.splits sum.splits)
  then show "rsim b al [] s (snd (rdb_ClaimCron call conn b i t t' s))"
    using wf z(2) by (auto simp: snd_round_trip cron_claim_run [OF rc z(1)] intro: rsim_cron)
  have "snd (rdb_RemoveCron call conn b i s) = snd (round_trip conn (redis_call call (ZREM (kCron b) i)) s)"
    by (simp add: rdb_RemoveCron_def split: prod.splits sum.splits)
  then show "rsim b al [] s (snd (rdb_RemoveCron call conn b i s))"
    using wf z(2) by (auto simp: snd_round_trip cron_remove_run [OF rc z(1)] intro: rsim_cron)
qed

section \<open>The contract\<close>

lemma expire_sim:
  assumes wf: "rdb_wf (at b s)" and "expirable (at b s) x"
  shows "rsim b al [] s (put (key_name b x) None s)"
proof (cases "\<exists>i. x = KJob i")
  case True
  then obtain i h where h: "x = KJob i" "job_at (at b s) i = Some h" "fld h ''state'' = ''completed''"
    using assms(2) by (auto split: option.splits)
  let ?g = "(at b s)(KJob i := None)"
  have none: "container h = None" using h(3) by (simp add: container_def)
  have hold: "i \<notin> mem_of k (at b s k)" for k using containers_hold [OF wf h(2)] none by simp
  have "rdb_wf ?g \<and> jobs_in ?g = (jobs_in (at b s))(i := jobs_in ?g i)"
  proof (rule rdb_wf_move [OF wf])
    show "typed ?g" using wf by (simp add: rdb_wf_typed)
    show "j \<in> mem_of k (?g k) \<longleftrightarrow> j \<in> mem_of k (at b s k)" for k j by simp
    show "i \<in> mem_of k (?g k) \<longleftrightarrow> (\<exists>h. job_at ?g i = Some h \<and> container h = Some k)" for k using hold [of k] by simp
    show "scores k (?g k) j = scores k (at b s k) j" for k j by simp
    show "\<exists>h. job_at ?g i = Some h \<and> num h ''deadline'' = d" if "scores k (?g k) i = Some d" for k d
      using that hold [of k] scores_mem [of k "at b s k" i] by (simp split: if_splits)
  qed simp
  moreover have "jobs_in ?g i = jobs_in (at b s) i" using h by (simp add: jobs_in_def)
  ultimately show ?thesis using h(1) by (intro simulates_same) simp_all
next
  case False
  with assms have "side x" "key_ok x None" by (cases x; simp)+
  then show ?thesis using wf by (intro rsim_side [where x = x and v = None]) simp_all
qed

lemma rop_exec_sim:
  assumes rc: "redis_commands call" and wf: "rdb_wf (at b s)" and ok: "radmissible b (t, p) s"
  shows "rsim b (rallowed (t, p)) (case rgiven call b (t, p) s of None \<Rightarrow> [] | Some d \<Rightarrow> [d]) (set_clock t s) (rop_exec call b p (set_clock t s))"
proof -
  have wf': "rdb_wf (at b (set_clock t s))" using wf by simp
  show ?thesis
  proof (cases p)
    case (RdbDequeue conn opts)
    with rdb_Dequeue_sim [where al = "rallowed (t, p)" and t = t and conn = conn, OF rc wf] ok show ?thesis by (simp add: simulates_def)
  next
    case (RdbReap conns qs limit)
    with rdb_reap_loop_sim [where al = "rallowed (t, p)", OF rc wf', of conns qs limit 0] wf ok show ?thesis
      by (simp add: rdb_Reap_def)
  qed (use rc wf wf' ok in \<open>auto intro!: rdb_Enqueue_sim rdb_Ack_sim rdb_Nack_sim rdb_Kill_sim rdb_Extend_sim rdb_Promote_sim rdb_Heartbeat_sim
      rdb_AcquireLease_sim rdb_ReleaseLease_sim rdb_cron_sim expire_sim\<close>)
qed

text \<open>On any server that behaves as documented the Redis broker implements the lifecycle.\<close>

lemma rdb_lifecycle_broker:
  assumes "redis_commands call"
  shows "lifecycle_broker (rexec call b) (\<lambda>s. jobs_in (at b s)) (\<lambda>s. rdb_wf (at b s)) (radmissible b) rallowed (rgiven call b)"
proof
  fix s p assume wf: "rdb_wf (at b s)" and ok: "radmissible b p s"
  obtain t q where p: "p = (t, q)" by (cases p)
  from rop_exec_sim [OF assms wf, of t q] ok show
    "\<exists>es. lrun (jobs_in (at b s)) es (jobs_in (at b (rexec call b p s))) \<and> (\<forall>e \<in> set es. rallowed p e)
      \<and> event_handouts es = (case rgiven call b p s of None \<Rightarrow> [] | Some d \<Rightarrow> [d])"
    and "rdb_wf (at b (rexec call b p s))" by (simp_all add: p simulates_def)
qed (rule rdb_wf_store)

interpretation ref: lifecycle_broker "rexec ref_call b" "\<lambda>s. jobs_in (at b s)" "\<lambda>s. rdb_wf (at b s)" "radmissible b" rallowed "rgiven ref_call b" for b
  by (rule rdb_lifecycle_broker [OF ref_call_commands])

end
