(* ===== verification/Redis_Props.thy ===== *)
theory Redis_Props
  imports Redis_Exec
begin

text \<open>
  What the Redis broker promises, on any server that behaves as documented: it implements the lifecycle, a job
  is in exactly one place, none is lost and none is handed out beyond its attempts, whatever round trips fail
  and whenever keys expire. The same laws that the in-process broker satisfies.
\<close>

section \<open>Reachable keyspaces\<close>

text \<open>From a keyspace without keys of this broker, by admissible operations and the passage of time.\<close>

inductive rdb_reach :: "redis \<Rightarrow> rdb \<Rightarrow> keyspace \<Rightarrow> bool" for call b where
  rdb_start: "(\<And>x. at b s x = None) \<Longrightarrow> rdb_reach call b s"
| rdb_tick: "rdb_reach call b s \<Longrightarrow> rdb_reach call b (set_clock t s)"
| rdb_step: "rdb_reach call b s \<Longrightarrow> radmissible b p s \<Longrightarrow> rdb_reach call b (rexec call b p s)"

lemma rdb_wf_start: "(\<And>x. f x = None) \<Longrightarrow> rdb_wf f"
proof -
  assume none: "\<And>x. f x = None"
  have "key_ok x None" "mem_of x None = {}" "scores x None i = None" for x i by (cases x; simp)+
  then show ?thesis by (simp add: rdb_wf_def typed_def none job_at_def)
qed

lemma rdb_reach_wf:
  assumes "redis_commands call" and "rdb_reach call b s"
  shows "rdb_wf (at b s)"
  using assms(2)
proof induction
  case (rdb_start s)
  then show ?case by (rule rdb_wf_start)
next
  case (rdb_step s p)
  then show ?case using lifecycle_broker.exec_invar [OF rdb_lifecycle_broker [OF assms(1)]] by blast
qed simp

lemma rdb_reach_run: "rdb_reach call b s \<Longrightarrow> run_ok (radmissible b) (rexec call b) ops s \<Longrightarrow> rdb_reach call b (run (rexec call b) ops s)"
  by (induction ops arbitrary: s) (auto intro: rdb_step)

text \<open>A small run: one job is enqueued and claimed.\<close>

definition demo :: rdb where
  "demo = \<lparr>rdb_prefix = ''t'', rdb_completedTTL = Hour\<rparr>"

definition demo_job :: job where
  "demo_job = \<lparr>ID = ''a'', Queue = ''q'', Type = ''mail'', Payload = Some ''x'', Attempt = 0, MaxAttempts = 2, Recoveries = 0,
     State = StateNone, Owner = [], UniqueKey = ''k'', UniqueTTL = 0, LastErr = [], EnqueuedAt = 0, RunAt = 0, StartedAt = 0, Deadline = 0\<rparr>"

definition demo_claim :: "string \<Rightarrow> claim_opts" where
  "demo_claim w = \<lparr>WorkerID = w, Queues = [''q''], VisibilityTimeout = 30 * Second\<rparr>"

definition demo_ops :: "(moment \<times> rop) list" where
  "demo_ops = [((1, 0), RdbEnqueue Delivered [] 0 demo_job), ((2, 0), RdbDequeue (LostReply ''eof'') (demo_claim ''w1''))]"

definition demo_start :: keyspace where
  "demo_start = \<lparr>rs_keys = Map.empty, rs_sec = 1, rs_usec = 0\<rparr>"

lemma demo_ok: "run_ok (radmissible demo) (rexec ref_call demo) demo_ops demo_start"
  by (simp add: demo_ops_def ms_of_def whole_ms_def demo_claim_def at_def demo_start_def)

lemma demo_reach: "rdb_reach ref_call demo demo_start"
  by (rule rdb_start) (simp add: at_def demo_start_def)

lemma demo_wf: "rdb_wf (at demo demo_start)"
  by (rule rdb_reach_wf [OF ref_call_commands demo_reach])

section \<open>Decoding\<close>

text \<open>The integers that Go and Redis can represent.\<close>

definition in64 :: "int \<Rightarrow> bool" where
  "in64 n \<longleftrightarrow> - (2 ^ 63) \<le> n \<and> n < 2 ^ 63"

lemma atoi64_itoa: "in64 n \<Longrightarrow> atoi64 (itoa n) = n"
proof -
  assume n: "in64 n"
  obtain c ds where cs: "itoa n = c # ds" using parse_int_itoa [of n] by (cases "itoa n") (simp_all add: parse_int_def)
  have "c \<noteq> CHR ''+''"
  proof
    assume "c = CHR ''+''"
    then have "parse_int (itoa n) = None" by (simp add: cs parse_int_def parse_digits_def digit_val_def)
    then show False by simp
  qed
  with cs parse_int_itoa [of n] n show ?thesis by (auto simp: atoi64_def in64_def)
qed

definition numeric :: "hash \<Rightarrow> bool" where
  "numeric h \<longleftrightarrow> (\<forall>f \<in> {''attempt'', ''max_attempts'', ''recoveries'', ''enqueued_at'', ''run_at'', ''started_at'', ''deadline''}.
     \<exists>n. in64 n \<and> fld h f = itoa n)"

lemma even_flatten: "even (length (flatten g))"
  by (induction g rule: flatten.induct) simp_all

lemma decodeJob_flatten:
  assumes "mset g = mset h" and "proper h" and "fld h ''id'' \<noteq> []" and "numeric h"
  shows "decodeJob (flatten g) = Inr (job_of h)"
proof -
  have m: "hash_field g f = fld h f" for f using hash_field_perm [OF assms(1,2), of f] by simp
  have "atoi64 (fld h f) = num h f"
    if "f \<in> {''attempt'', ''max_attempts'', ''recoveries'', ''enqueued_at'', ''run_at'', ''started_at'', ''deadline''}" for f
    using that assms(4) unfolding numeric_def num_def by (metis atoi64_itoa option.simps(5) parse_int_itoa)
  then show ?thesis using assms(3) by (simp add: decodeJob_def even_flatten m job_of_def)
qed

section \<open>Enqueue, then dequeue\<close>

lemma rdb_Enqueue_stores:
  assumes rc: "redis_commands call" and wf: "rdb_wf (at b s)" and j: "ID j \<noteq> []" "Queue j \<noteq> []" "Type j \<noteq> []" "0 < MaxAttempts j"
    and new: "at b s (KJob (ID j)) = None" and free: "UniqueKey j = [] \<or> at b s (KUnique (UniqueKey j)) = None"
    and due: "msFromTime (RunAt j) \<le> clock_ms s"
  shows "fst (rdb_Enqueue call Delivered b newID now (Some j) s) = None"
    and "job_at (at b (snd (snd (rdb_Enqueue call Delivered b newID now (Some j) s)))) (ID j)
      = Some (enqueued_hash (clock_ms s) (ID j) (Queue j) (Type j) (case Payload j of None \<Rightarrow> [] | Some p \<Rightarrow> p) (MaxAttempts j)
          (msFromTime (RunAt j)) (UniqueKey j))"
    and "as_list (at b (snd (snd (rdb_Enqueue call Delivered b newID now (Some j) s))) (KQueue (Queue j)))
      = Some (the (as_list (at b s (KQueue (Queue j)))) @ [ID j])"
    and "at b (snd (snd (rdb_Enqueue call Delivered b newID now (Some j) s))) (KActive q) = at b s (KActive q)"
proof -
  define h where "h = enqueued_hash (clock_ms s) (ID j) (Queue j) (Type j) (case Payload j of None \<Rightarrow> [] | Some p \<Rightarrow> p) (MaxAttempts j)
      (msFromTime (RunAt j)) (UniqueKey j)"
  obtain keys args where ka: "rdb_enqueue_args b j = (keys, args)" by (cases "rdb_enqueue_args b j")
  from enqueue_args_run [where al = "\<lambda>e. True", OF rc wf new j(4) ka h_def TrueI] free due
  obtain s' where run: "enqueue_lua call keys args s = (Inr (RArr [RInt 1]), s')" and s': "job_at (at b s') = (job_at (at b s))(ID j \<mapsto> h)"
      "as_list (at b s' (KQueue (Queue j))) = Some (the (as_list (at b s (KQueue (Queue j)))) @ [ID j])" "\<forall>q. at b s' (KActive q) = at b s (KActive q)"
    by auto
  then have "fst (rdb_Enqueue call Delivered b newID now (Some j) s) = None \<and> snd (snd (rdb_Enqueue call Delivered b newID now (Some j) s)) = s'"
    using j ka by (simp add: rdb_Enqueue_def round_trip_def Slice_def toInt64_def)
  with s' show "fst (rdb_Enqueue call Delivered b newID now (Some j) s) = None"
    "job_at (at b (snd (snd (rdb_Enqueue call Delivered b newID now (Some j) s)))) (ID j)
      = Some (enqueued_hash (clock_ms s) (ID j) (Queue j) (Type j) (case Payload j of None \<Rightarrow> [] | Some p \<Rightarrow> p) (MaxAttempts j)
          (msFromTime (RunAt j)) (UniqueKey j))"
    "as_list (at b (snd (snd (rdb_Enqueue call Delivered b newID now (Some j) s))) (KQueue (Queue j)))
      = Some (the (as_list (at b s (KQueue (Queue j)))) @ [ID j])"
    "at b (snd (snd (rdb_Enqueue call Delivered b newID now (Some j) s))) (KActive q) = at b s (KActive q)"
    by (simp_all add: h_def)
qed

lemma dequeue_first:
  assumes rc: "redis_commands call" and wf: "rdb_wf (at b s)" and "w \<noteq> []" and "0 < clock_ms s" and "0 < Milliseconds vt"
    and l: "as_list (at b s (KQueue q)) = Some (i # l)" and h: "job_at (at b s) i = Some h"
  shows "\<exists>g s'. dequeue_script call b \<lparr>WorkerID = w, Queues = [q], VisibilityTimeout = vt\<rparr> s = (Inr (RArr (flatten g)), s')
    \<and> mset g = mset (claimed_hash (clock_ms s) w (Milliseconds vt) h) \<and> job_at (at b s') i = Some (claimed_hash (clock_ms s) w (Milliseconds vt) h)
    \<and> at b s' (KActive q) = zval (AList.update i (clock_ms s + Milliseconds vt) (the (as_zset (at b s (KActive q)))))"
proof -
  let ?o = "\<lparr>WorkerID = w, Queues = [q], VisibilityTimeout = vt\<rparr>"
  from dequeue_script_run [where al = "\<lambda>e. True" and opts = ?o, OF rc wf] assms(3-5) l obtain r s' where
    run: "dequeue_script call b ?o s = (Inr r, s')" "hands_out b (clock_ms s) w (Milliseconds vt) (\<lambda>e. True) s q r s'" by auto
  then obtain g where "r = RArr (flatten g)" "mset g = mset (claimed_hash (clock_ms s) w (Milliseconds vt) h)"
      "at b s' = (at b s)(KQueue q := lval l, KJob i \<mapsto> RHash (claimed_hash (clock_ms s) w (Milliseconds vt) h),
        KActive q := zval (AList.update i (clock_ms s + Milliseconds vt) (the (as_zset (at b s (KActive q))))))"
    using l h unfolding hands_out_def by auto
  with run(1) show ?thesis by auto
qed

lemma claimed_numeric:
  assumes "in64 m" and "in64 r" and "in64 e" and "in64 now" and "in64 (now + vt)"
  shows "numeric (claimed_hash now w vt (enqueued_hash e i q ty p m r uk))"
proof -
  have "in64 0" "in64 1" by (simp_all add: in64_def)
  with assms show ?thesis by (auto simp: numeric_def claimed_hash_def enqueued_hash_def)
qed

text \<open>
  C22. Round trip through Redis: a job that is enqueued without a delay on an empty queue, and then claimed
  from it, comes back with its ID, queue, type, payload, budget and unique key, as the first attempt of its
  claimer, with the server's times to the millisecond. An empty payload comes back as none, and the time to
  live of the unique key is not stored.
\<close>

theorem rdb_round_trip:
  assumes "redis_commands call" and "rdb_wf (at b s)" and "ID j \<noteq> []" and "Queue j \<noteq> []" and "Type j \<noteq> []" and "0 < MaxAttempts j"
    and "at b s (KJob (ID j)) = None" and "UniqueKey j = [] \<or> at b s (KUnique (UniqueKey j)) = None" and "at b s (KQueue (Queue j)) = None"
    and "msFromTime (RunAt j) \<le> clock_ms s" and "w \<noteq> []" and "Millisecond \<le> vt" and "0 < ms_of t"
    and "in64 (MaxAttempts j)" and "in64 (msFromTime (RunAt j))" and "in64 (clock_ms s)" and "in64 (ms_of t)" and "in64 (ms_of t + Milliseconds vt)"
  shows "fst (rdb_Enqueue call Delivered b newID now (Some j) s) = None
    \<and> fst (rdb_Dequeue call Delivered b \<lparr>WorkerID = w, Queues = [Queue j], VisibilityTimeout = vt\<rparr>
        (set_clock t (snd (snd (rdb_Enqueue call Delivered b newID now (Some j) s)))))
      = Inr \<lparr>ID = ID j, Queue = Queue j, Type = Type j, Payload = (if Payload j = Some [] then None else Payload j),
          Attempt = 1, MaxAttempts = MaxAttempts j, Recoveries = 0, State = StateActive, Owner = w, UniqueKey = UniqueKey j, UniqueTTL = 0,
          LastErr = [], EnqueuedAt = timeFromMs (clock_ms s), RunAt = timeFromMs (msFromTime (RunAt j)), StartedAt = timeFromMs (ms_of t),
          Deadline = timeFromMs (ms_of t + Milliseconds vt)\<rparr>"
proof -
  let ?s = "snd (snd (rdb_Enqueue call Delivered b newID now (Some j) s))" and ?vt = "Milliseconds vt"
  let ?h = "enqueued_hash (clock_ms s) (ID j) (Queue j) (Type j) (case Payload j of None \<Rightarrow> [] | Some p \<Rightarrow> p) (MaxAttempts j) (msFromTime (RunAt j)) (UniqueKey j)"
  let ?o = "\<lparr>WorkerID = w, Queues = [Queue j], VisibilityTimeout = vt\<rparr>"
  note stored = rdb_Enqueue_stores [OF assms(1-8,10), of newID now]
  have wf: "rdb_wf (at b (set_clock t ?s))"
    using simulates_invar [OF rdb_Enqueue_sim [where al = "\<lambda>e. True", OF assms(1,2)], of j newID Delivered now] assms(3,7) by simp
  have vt: "0 < ?vt" using assms(12) by (simp add: Milliseconds_def)
  from dequeue_first [OF assms(1) wf assms(11) _ vt, of "Queue j" "ID j" "[]" ?h] assms(9,13) stored obtain g s' where
    run: "dequeue_script call b ?o (set_clock t ?s) = (Inr (RArr (flatten g)), s')" and g: "mset g = mset (claimed_hash (ms_of t) w ?vt ?h)" by auto
  have ok: "job_ok (ID j) (claimed_hash (ms_of t) w ?vt ?h)" by (rule claimed_hash_ok [OF enqueued_hash_ok [OF assms(6)] assms(11)])
  have "decodeJob (flatten g) = Inr (job_of (claimed_hash (ms_of t) w ?vt ?h))"
    using job_okD(1,11) [OF ok] assms(3) by (intro decodeJob_flatten [OF g] claimed_numeric assms(14-18)) simp_all
  moreover have "fst (rdb_Dequeue call Delivered b ?o (set_clock t ?s)) = decodeJob (flatten g)"
    using run assms(11,12) by (simp add: rdb_Dequeue_def dequeue_script_def round_trip_def Slice_def)
  ultimately show ?thesis using stored(1)
    by (simp add: claimed_hash_simps enqueued_hash_job timeFromMs_def split: option.splits)
qed

theorem rdb_round_trip_witness:
  "fst (rdb_Dequeue ref_call Delivered demo (demo_claim ''w1'')
      (set_clock (2, 0) (snd (snd (rdb_Enqueue ref_call Delivered demo [] 0 (Some demo_job) demo_start)))))
    = Inr \<lparr>ID = ''a'', Queue = ''q'', Type = ''mail'', Payload = Some ''x'', Attempt = 1, MaxAttempts = 2, Recoveries = 0, State = StateActive,
        Owner = ''w1'', UniqueKey = ''k'', UniqueTTL = 0, LastErr = [], EnqueuedAt = timeFromMs 1000, RunAt = 0, StartedAt = timeFromMs 2000,
        Deadline = timeFromMs 32000\<rparr>"
  using rdb_round_trip [where t = "(2, 0)" and w = "''w1''" and vt = "30 * Second" and j = demo_job and newID = "[]" and now = 0,
      OF ref_call_commands demo_wf]
  by (simp add: demo_job_def demo_claim_def demo_start_def at_def msFromTime_def timeFromMs_def clock_ms_def ms_of_def in64_def Milliseconds_def)

definition demo_end :: keyspace where
  "demo_end = run (rexec ref_call demo) demo_ops demo_start"

lemma demo_end_at:
  "job_at (at demo demo_end) ''a'' = Some (claimed_hash 2000 ''w1'' 30000 (enqueued_hash 1000 ''a'' ''q'' ''mail'' ''x'' 2 0 ''k''))"
  "at demo demo_end (KActive ''q'') = zval [(''a'', 32000)]"
proof -
  let ?s = "snd (snd (rdb_Enqueue ref_call Delivered demo [] 0 (Some demo_job) (set_clock (1, 0) demo_start)))"
  have new: "at demo (set_clock (1, 0) demo_start) x = None" for x by (simp add: at_def demo_start_def)
  have wf: "rdb_wf (at demo (set_clock (2, 0) ?s))"
    using simulates_invar [OF rdb_Enqueue_sim [where al = "\<lambda>e. True", OF ref_call_commands rdb_wf_start [OF new]], of demo_job "[]" Delivered 0] new
    by simp
  have "job_at (at demo ?s) ''a'' = Some (enqueued_hash 1000 ''a'' ''q'' ''mail'' ''x'' 2 0 ''k'')" "as_list (at demo ?s (KQueue ''q'')) = Some [''a'']"
      "at demo ?s (KActive ''q'') = None"
    using rdb_Enqueue_stores [OF ref_call_commands rdb_wf_start [OF new], of demo_job "[]" 0] new
    by (simp_all add: demo_job_def msFromTime_def ms_of_def)
  with dequeue_first [OF ref_call_commands wf, of "''w1''" "30 * Second" "''q''" "''a''" "[]"] obtain g s' where
    "dequeue_script ref_call demo (demo_claim ''w1'') (set_clock (2, 0) ?s) = (Inr (RArr (flatten g)), s')"
    "job_at (at demo s') ''a'' = Some (claimed_hash 2000 ''w1'' 30000 (enqueued_hash 1000 ''a'' ''q'' ''mail'' ''x'' 2 0 ''k''))"
    "at demo s' (KActive ''q'') = zval [(''a'', 32000)]"
    by (auto simp: ms_of_def Milliseconds_def demo_claim_def)
  moreover from this(1) have "demo_end = s'"
    by (simp add: demo_end_def demo_ops_def snd_rdb_Dequeue snd_round_trip) (simp add: demo_claim_def)
  ultimately show "job_at (at demo demo_end) ''a'' = Some (claimed_hash 2000 ''w1'' 30000 (enqueued_hash 1000 ''a'' ''q'' ''mail'' ''x'' 2 0 ''k''))"
    "at demo demo_end (KActive ''q'') = zval [(''a'', 32000)]" by simp_all
qed

lemma demo_end_reach: "rdb_reach ref_call demo demo_end"
  unfolding demo_end_def by (rule rdb_reach_run [OF demo_reach demo_ok])

definition demo_active :: job where
  "demo_active = \<lparr>ID = ''a'', Queue = ''q'', Type = ''mail'', Payload = Some ''x'', Attempt = 1, MaxAttempts = 2, Recoveries = 0, State = StateActive,
     Owner = ''w1'', UniqueKey = ''k'', UniqueTTL = 0, LastErr = [], EnqueuedAt = timeFromMs 1000, RunAt = 0, StartedAt = timeFromMs 2000,
     Deadline = timeFromMs 32000\<rparr>"

lemma demo_end_jobs: "jobs_in (at demo demo_end) ''a'' = Some demo_active"
  by (simp add: jobs_in_def demo_end_at claimed_hash_simps enqueued_hash_job demo_active_def timeFromMs_def)

section \<open>Refinement\<close>

text \<open>
  C5. Refinement: every run of operations of the Redis broker (whatever round trips are lost, whenever keys
  expire, on any server that behaves as documented) acts on the stored jobs as a run of the abstract lifecycle
  whose events are those that the operations of the run are allowed to cause, and whose claims are exactly the
  jobs that the server handed out, in order, with their workers.
\<close>

theorem rdb_refines_lifecycle:
  assumes "redis_commands call" and "rdb_reach call b s" and "run_ok (radmissible b) (rexec call b) ops s"
  shows "\<exists>es. lrun (jobs_in (at b s)) es (jobs_in (at b (run (rexec call b) ops s))) \<and> (\<forall>e \<in> set es. \<exists>p \<in> set ops. rallowed p e)
    \<and> event_handouts es = handouts (rgiven call b) (rexec call b) ops s"
  by (rule lifecycle_broker.run_refines [OF rdb_lifecycle_broker [OF assms(1)] rdb_reach_wf [OF assms(1,2)] assms(3)])

theorem rdb_refines_lifecycle_witness:
  "\<exists>es. lrun Map.empty es (jobs_in (at demo (run (rexec ref_call demo) demo_ops demo_start)))
    \<and> event_handouts es = handouts (rgiven ref_call demo) (rexec ref_call demo) demo_ops demo_start"
proof -
  have "jobs_in (at demo demo_start) = Map.empty" by (simp add: jobs_in_def job_at_def at_def demo_start_def fun_eq_iff)
  then show ?thesis using rdb_refines_lifecycle [OF ref_call_commands demo_reach demo_ok] by auto
qed

section \<open>A job is in one place\<close>

text \<open>The key of the container that the state of a job names.\<close>

definition place :: "job \<Rightarrow> rkey option" where
  "place j = (case State j of StatePending \<Rightarrow> Some (KQueue (Queue j)) | StateActive \<Rightarrow> Some (KActive (Queue j)) | StateScheduled \<Rightarrow> Some KDelayed
     | StateRetry \<Rightarrow> Some KRetry | StateDead \<Rightarrow> Some KDead | _ \<Rightarrow> None)"

lemma container_place: "job_ok i h \<Longrightarrow> container h = place (job_of h)"
  using job_okD(10) [of i h] by (auto simp: hash_states_def container_def place_def job_of_def)

text \<open>
  C6. In every reachable keyspace a stored job is in exactly one of the containers (ready lists, active sets,
  delayed, retry and dead set), the one of its state and queue, and on a ready list only once; an ID that is
  not stored, or whose job is completed, is in none; and the score of an active job is its deadline.
\<close>

theorem rdb_job_in_one_place:
  assumes "redis_commands call" and "rdb_reach call b s"
  shows "{x. i \<in> mem_of x (at b s x)} = (case jobs_in (at b s) i of None \<Rightarrow> {} | Some j \<Rightarrow> {x. place j = Some x})
    \<and> distinct (the (as_list (at b s (KQueue q))))
    \<and> (\<forall>d. scores (KActive q) (at b s (KActive q)) i = Some d \<longrightarrow> map_option Deadline (jobs_in (at b s) i) = Some (timeFromMs d))"
proof (intro conjI allI impI)
  have wf: "rdb_wf (at b s)" by (rule rdb_reach_wf [OF assms])
  have j: "job_at (at b s) i = None \<or> (\<exists>h. job_at (at b s) i = Some h \<and> job_ok i h)"
    using typed_job [OF rdb_wf_typed [OF wf], of i] by auto
  have over: "place (job_of h) = None" if "fld h ''state'' = ''completed''" for h using that by (simp add: place_def job_of_def)
  have "i \<in> mem_of x (at b s x) \<longleftrightarrow> (\<exists>h. job_at (at b s) i = Some h \<and> container h = Some x)" for x using wf by (simp add: rdb_wf_def)
  with j show "{x. i \<in> mem_of x (at b s x)} = (case jobs_in (at b s) i of None \<Rightarrow> {} | Some j \<Rightarrow> {x. place j = Some x})"
    by (auto simp: jobs_in_def container_place over split: if_splits)
  show "distinct (the (as_list (at b s (KQueue q))))" using typed_list [OF rdb_wf_typed [OF wf], of q] by auto
  fix d assume d: "scores (KActive q) (at b s (KActive q)) i = Some d"
  obtain z where "as_zset (at b s (KActive q)) = Some z" using typed_zset [OF rdb_wf_typed [OF wf], of "KActive q"] by auto
  with active_jobD [OF wf this, of i d] d show "map_option Deadline (jobs_in (at b s) i) = Some (timeFromMs d)" by auto
qed

theorem rdb_job_in_one_place_witness:
  "{x. ''a'' \<in> mem_of x (at demo demo_end x)} = {KActive ''q''}"
  using rdb_job_in_one_place [OF ref_call_commands demo_end_reach, of "''a''"]
  by (simp add: demo_end_jobs demo_active_def place_def)

section \<open>No job is lost\<close>

lemma rallowed_simps:
  "rallowed p (Completed i w) \<longleftrightarrow> (\<exists>t conn. p = (t, RdbAck conn w i))" "\<not> rallowed p (Purged i)" "\<not> rallowed p (Replayed i)"
  "rallowed p (Enqueued k) \<Longrightarrow> Attempt k = 0 \<and> (\<exists>t conn newID now j. p = (t, RdbEnqueue conn newID now j) \<and> ID k = (if ID j = [] then newID else ID j))"
proof -
  obtain t q where p: "p = (t, q)" by (cases p)
  show "rallowed p (Completed i w) \<longleftrightarrow> (\<exists>t conn. p = (t, RdbAck conn w i))" "\<not> rallowed p (Purged i)" "\<not> rallowed p (Replayed i)"
    unfolding p by (cases q; auto)+
  show "Attempt k = 0 \<and> (\<exists>t conn newID now j. p = (t, RdbEnqueue conn newID now j) \<and> ID k = (if ID j = [] then newID else ID j))"
    if "rallowed p (Enqueued k)" using that unfolding p by (cases q) auto
qed

lemma lrun_completed:
  "lrun s es s' \<Longrightarrow> \<forall>e \<in> set es. e = Completed i w \<Longrightarrow> s i = Some j \<Longrightarrow> s' i = None \<Longrightarrow> State j = StateActive \<and> Owner j = w"
  by (cases es) (auto simp: lrun_Cons_iff elim!: lstep_CompletedE)

lemma rexec_loss:
  assumes rc: "redis_commands call" and wf: "rdb_wf (at b s)" and ok: "radmissible b p s"
    and j: "jobs_in (at b s) i = Some j" and lost: "jobs_in (at b (rexec call b p s)) i = None"
  shows "(\<exists>t conn. p = (t, RdbAck conn (Owner j) i)) \<and> State j = StateActive"
proof -
  from lifecycle_broker.exec_refines [OF rdb_lifecycle_broker [OF rc] wf ok] obtain es where
    es: "lrun (jobs_in (at b s)) es (jobs_in (at b (rexec call b p s)))" "\<forall>e \<in> set es. rallowed p e" by blast
  from lrun_lost [OF es(1) j lost] es(2) have "(\<exists>w. rallowed p (Completed i w)) \<or> rallowed p (Purged i)" by blast
  then obtain w t conn where p: "p = (t, RdbAck conn w i)" using rallowed_simps(1,2) by blast
  with es(2) have "\<forall>e \<in> set es. e = Completed i w" by simp
  from lrun_completed [OF es(1) this j lost] p show ?thesis by auto
qed

text \<open>
  C7. No job is lost in Redis: if a job is stored in a reachable keyspace and no longer stored after some run
  (with lost round trips and expiring keys), then at one point of the run its owner acknowledged it while it
  was active.
\<close>

theorem rdb_job_not_lost:
  assumes "redis_commands call" and "rdb_reach call b s" and "run_ok (radmissible b) (rexec call b) ops s"
    and "jobs_in (at b s) i = Some j" and "jobs_in (at b (run (rexec call b) ops s)) i = None"
  shows "\<exists>pre t conn post k. jobs_in (at b (run (rexec call b) pre s)) i = Some k \<and> State k = StateActive
    \<and> ops = pre @ (t, RdbAck conn (Owner k) i) # post"
proof -
  from run_loss_point [where jobs_of = "\<lambda>s. jobs_in (at b s)", OF assms(4,5)] obtain pre p post k where
    split: "ops = pre @ p # post" "jobs_in (at b (run (rexec call b) pre s)) i = Some k"
      "jobs_in (at b (rexec call b p (run (rexec call b) pre s))) i = None" by blast
  with assms(3) have ok: "run_ok (radmissible b) (rexec call b) pre s" "radmissible b p (run (rexec call b) pre s)" by (simp_all add: run_ok_append)
  from rexec_loss [OF assms(1) rdb_reach_wf [OF assms(1) rdb_reach_run [OF assms(2) ok(1)]] ok(2) split(2,3)] split show ?thesis by blast
qed

theorem rdb_job_not_lost_witness:
  "\<exists>pre t conn post k. jobs_in (at demo (run (rexec ref_call demo) pre demo_end)) ''a'' = Some k \<and> State k = StateActive
    \<and> [((3, 0), RdbAck Delivered ''w1'' ''a'')] = pre @ (t, RdbAck conn (Owner k) ''a'') # post"
proof (rule rdb_job_not_lost [OF ref_call_commands demo_end_reach _ demo_end_jobs])
  have wf: "rdb_wf (at demo (set_clock (3, 0) demo_end))" using rdb_reach_wf [OF ref_call_commands demo_end_reach] by simp
  have "owns (at demo (set_clock (3, 0) demo_end)) ''w1'' ''a'' (claimed_hash 2000 ''w1'' 30000 (enqueued_hash 1000 ''a'' ''q'' ''mail'' ''x'' 2 0 ''k''))"
    by (simp add: owns_def demo_end_at claimed_hash_def)
  from ack_lua_owner [OF ref_call_commands wf this, of "Milliseconds (rdb_completedTTL demo)"]
  show "jobs_in (at demo (run (rexec ref_call demo) [((3, 0), RdbAck Delivered ''w1'' ''a'')] demo_end)) ''a'' = None"
    by (auto simp: rdb_Ack_def report_reply)
qed (simp add: ms_of_def)

section \<open>Attempts bound the hand-outs\<close>

text \<open>
  C19. Poison pills terminate in Redis too: in any run from an empty keyspace every job has used between none
  and all of its attempts, and any continuation that enqueues no other job under its ID hands it out at most
  \<^verbatim>\<open>MaxAttempts - Attempt\<close> times, counting the claims whose reply never reached the worker.
\<close>

theorem rdb_handouts_bounded:
  assumes "redis_commands call" and "\<And>x. at b s x = None" and "run_ok (radmissible b) (rexec call b) ops s"
    and "jobs_in (at b (run (rexec call b) ops s)) i = Some j"
    and "run_ok (radmissible b) (rexec call b) ops' (run (rexec call b) ops s)"
    and "\<forall>t conn newID now k. (t, RdbEnqueue conn newID now k) \<in> set ops' \<longrightarrow> i \<noteq> (if ID k = [] then newID else ID k)"
  shows "0 \<le> Attempt j \<and> Attempt j \<le> MaxAttempts j
    \<and> int (length (filter (\<lambda>d. fst d = i) (handouts (rgiven call b) (rexec call b) ops' (run (rexec call b) ops s)))) \<le> MaxAttempts j - Attempt j"
proof -
  note broker = rdb_lifecycle_broker [OF assms(1), of b]
  let ?s = "run (rexec call b) ops s"
  have start: "rdb_wf (at b s)" by (rule rdb_wf_start [OF assms(2)])
  have wf: "rdb_wf (at b ?s)" by (rule lifecycle_broker.run_invar [OF broker start assms(3)])
  have "store_budget (jobs_in (at b s))" by (simp add: store_budget_def jobs_in_def job_at_def assms(2))
  then have bud: "store_budget (jobs_in (at b ?s))"
    by (rule lifecycle_broker.run_budget [OF broker start assms(3)]) (use rallowed_simps(4) in blast)
  then have "job_budget j" using assms(4) by (simp add: store_budget_def)
  moreover have "int (length (filter (\<lambda>d. fst d = i) (handouts (rgiven call b) (rexec call b) ops' ?s))) \<le> MaxAttempts j - Attempt j"
  proof (rule lifecycle_broker.run_handouts_bound [OF broker wf assms(5) bud assms(4)])
    show "Attempt k = 0 \<and> ID k \<noteq> i" if "p \<in> set ops'" "rallowed p (Enqueued k)" for p k
      using that assms(6) rallowed_simps(4) [OF that(2)] by fastforce
  qed (simp add: rallowed_simps)
  ultimately show ?thesis by (simp add: job_budget_def)
qed

theorem rdb_handouts_bounded_witness:
  "int (length (filter (\<lambda>d. fst d = ''a'') (handouts (rgiven ref_call demo) (rexec ref_call demo)
      [((40, 0), RdbReap (\<lambda>_. Delivered) [''q''] 10), ((41, 0), RdbDequeue Delivered (demo_claim ''w2''))] demo_end))) \<le> 1"
  using rdb_handouts_bounded [OF ref_call_commands _ demo_ok demo_end_jobs [unfolded demo_end_def],
      of "[((40, 0), RdbReap (\<lambda>_. Delivered) [''q''] 10), ((41, 0), RdbDequeue Delivered (demo_claim ''w2''))]"]
  by (simp add: demo_end_def demo_start_def at_def ms_of_def whole_ms_def demo_claim_def demo_active_def del: handouts.simps)

end
