(* ===== verification/Redis_Calls.thy ===== *)
theory Redis_Calls
  imports Redis_Props
begin

text \<open>
  What the methods of the Redis broker return when their round trips are delivered: reports by the owner and
  by anyone else, renewals, reaping, leases and cron claims.
\<close>

section \<open>Reports\<close>

lemma owner_holds:
  assumes "rdb_wf f" and "jobs_in f i = Some j" and "State j = StateActive" and "Owner j = w"
  shows "\<exists>h. owns f w i h \<and> j = job_of h"
proof -
  from assms(2) obtain h where h: "job_at f i = Some h" "j = job_of h" by (auto simp: jobs_in_def split: option.splits if_splits)
  then have "job_ok i h" using typed_job [OF rdb_wf_typed [OF assms(1)], of i] by auto
  then have "fld h ''state'' = ''active''" using job_okD(10) [of i h] assms(3) h(2) by (auto simp: hash_states_def job_of_simps)
  with h assms(4) show ?thesis by (auto simp: owns_def job_of_simps)
qed

text \<open>
  C20. The owner of an active job in Redis can report on it, and the job goes where the in-process broker would
  put it: Ack completes it, Nack sends it to the retry set, or to the dead letters when its attempts are used
  up, Kill to the dead letters, with the reason and without an owner; no other job changes.
\<close>

theorem rdb_owner_outcomes:
  assumes rc: "redis_commands call" and "rdb_reach call b s" and "jobs_in (at b s) i = Some j" and "State j = StateActive" and "Owner j = w"
  shows "(\<exists>s'. rdb_Ack call Delivered b w i s = (None, s') \<and> jobs_in (at b s') = (jobs_in (at b s))(i := None))
    \<and> (\<exists>s'. rdb_Nack call Delivered b w i t r s = (None, s') \<and> jobs_in (at b s') = (jobs_in (at b s))
        (i \<mapsto> j\<lparr>State := (if Exhausted j then StateDead else StateRetry), Owner := [], LastErr := r\<rparr>))
    \<and> (\<exists>s'. rdb_Kill call Delivered b w i r s = (None, s') \<and> jobs_in (at b s') = (jobs_in (at b s))
        (i \<mapsto> j\<lparr>State := StateDead, Owner := [], LastErr := r\<rparr>))"
proof -
  have wf: "rdb_wf (at b s)" by (rule rdb_reach_wf [OF assms(1,2)])
  from owner_holds [OF wf assms(3-5)] obtain h where h: "owns (at b s) w i h" "j = job_of h" by blast
  from ack_lua_owner [OF rc wf h(1), of "Milliseconds (rdb_completedTTL b)"] nack_lua_owner [OF rc wf h(1), of "msFromTime t" r]
    kill_lua_owner [OF rc wf h(1), of r]
  show ?thesis
    unfolding h(2) rdb_Ack_def rdb_Nack_def rdb_Kill_def
    by (auto dest!: report_reply simp: fenceError_def toInt64_def)
qed

theorem rdb_owner_outcomes_witness:
  "(\<exists>s'. rdb_Ack ref_call Delivered demo ''w1'' ''a'' demo_end = (None, s') \<and> jobs_in (at demo s') ''a'' = None)
    \<and> (\<exists>s'. rdb_Nack ref_call Delivered demo ''w1'' ''a'' 0 ''boom'' demo_end = (None, s')
      \<and> jobs_in (at demo s') ''a'' = Some (demo_active\<lparr>State := StateRetry, Owner := [], LastErr := ''boom''\<rparr>))"
  using rdb_owner_outcomes [OF ref_call_commands demo_end_reach demo_end_jobs, of "''w1''" 0 "''boom''"]
  by (auto simp: demo_active_def Exhausted_def)

text \<open>
  C8. Fencing in Redis: a worker that is not the owner of an active job cannot change it, whether the round
  trip is delivered or lost. Ack, Nack and Kill answer ErrJobNotFound when no hash is stored under the ID and
  ErrLeaseLost otherwise, and Extend reports the ID as lost; the keyspace stays exactly as it was.
\<close>

theorem rdb_reports_fenced:
  assumes rc: "redis_commands call" and "rdb_reach call b s" and "0 < vt"
    and "\<And>j. jobs_in (at b s) i = Some j \<Longrightarrow> State j \<noteq> StateActive \<or> Owner j \<noteq> w"
  shows "(\<exists>m. rdb_Ack call Delivered b w i s = (Some (Wrap (if at b s (KJob i) = None then ErrJobNotFound else ErrLeaseLost) m), s))
    \<and> (\<exists>m. rdb_Nack call Delivered b w i t r s = (Some (Wrap (if at b s (KJob i) = None then ErrJobNotFound else ErrLeaseLost) m), s))
    \<and> (\<exists>m. rdb_Kill call Delivered b w i r s = (Some (Wrap (if at b s (KJob i) = None then ErrJobNotFound else ErrLeaseLost) m), s))
    \<and> rdb_Extend call Delivered b w [i] vt s = (Inr [i], s)
    \<and> snd (rdb_Ack call conn b w i s) = s \<and> snd (rdb_Nack call conn b w i t r s) = s \<and> snd (rdb_Kill call conn b w i r s) = s"
proof -
  have ty: "typed (at b s)" by (rule rdb_wf_typed [OF rdb_reach_wf [OF assms(1,2)]])
  have no: "\<not> holds (at b s) w i"
    using assms(4) ownsD(4-6) [OF ty, of w i] by (auto simp: holds_def)
  let ?e = "case job_at (at b s) i of None \<Rightarrow> [RInt 0, RBulk ''notfound'']
    | Some h \<Rightarrow> [RInt 0, RBulk ''lease'', RBulk (fld h ''state''), RBulk (fld h ''owner'')]"
  have f: "fenced_lua call (key_name b (KJob i)) w (pActive b) rest s = (Inr (RArr ?e), s)" for rest
    using no by (auto simp: fenced_lua_spec [OF rc ty] holds_iff split: option.splits)
  have e: "\<exists>m. fenceError ?e i w = Some (Wrap (if at b s (KJob i) = None then ErrJobNotFound else ErrLeaseLost) m)"
    using typed_job [OF ty, of i] by (auto simp: fenceError_def toInt64_def as_string_def)
  have x: "extend_jobs call (clock_ms s) w (Milliseconds vt) (pJob b) (pActive b) [i] [] s = (Inr (RArr [RBulk i]), s)"
    using extend_one_skips [OF rc ty no] by (simp add: lua_bind_def lua_return_def)
  have "rdb_Extend call Delivered b w [i] vt s = (Inr [i], s)"
    using assms(3) x rc by (simp add: rdb_Extend_def extend_lua_def lua_steps round_trip_def Slice_def del: extend_jobs.simps)
  moreover have "snd (rdb_report what conn (fenced_lua call (key_name b (KJob i)) w (pActive b) rest) w i s) = s" for what rest conn
    by (auto simp: rdb_report_def round_trip_def Slice_def f split: conn.splits)
  moreover have "rdb_report what Delivered (fenced_lua call (key_name b (KJob i)) w (pActive b) rest) w i s = (fenceError ?e i w, s)" for what rest
    by (rule report_reply) (rule f)
  ultimately show ?thesis
    using e by (simp add: rdb_Ack_def rdb_Nack_def rdb_Kill_def ack_lua_def nack_lua_def kill_lua_def key_fold)
qed

theorem rdb_reports_fenced_witness:
  "(\<exists>m. rdb_Ack ref_call Delivered demo ''w2'' ''a'' demo_end = (Some (Wrap ErrLeaseLost m), demo_end))
    \<and> rdb_Extend ref_call Delivered demo ''w2'' [''a''] Second demo_end = (Inr [''a''], demo_end)
    \<and> snd (rdb_Kill ref_call (LostReply ''eof'') demo ''w2'' ''a'' ''stale'' demo_end) = demo_end"
proof -
  have "at demo demo_end (KJob ''a'') \<noteq> None" using demo_end_at(1) by (auto simp: job_at_def split: option.splits)
  then show ?thesis
    using rdb_reports_fenced [OF ref_call_commands demo_end_reach, of Second "''a''" "''w2''" 0 "''stale''" "LostReply ''eof''"]
    by (auto simp: demo_end_jobs demo_active_def)
qed

section \<open>Renewal and reaping\<close>

text \<open>
  Extend in Redis returns exactly the IDs, in the order given, whose job the worker does not hold as its
  active owner: those are the runs that must stop.
\<close>

theorem rdb_Extend_lost:
  assumes "redis_commands call" and "rdb_reach call b s" and "0 < vt"
  shows "fst (rdb_Extend call Delivered b w ids vt s)
    = Inr (filter (\<lambda>i. \<not> (case jobs_in (at b s) i of None \<Rightarrow> False | Some j \<Rightarrow> State j = StateActive \<and> Owner j = w)) ids)"
proof -
  have wf: "rdb_wf (at b s)" by (rule rdb_reach_wf [OF assms(1,2)])
  have h: "holds (at b s) w i \<longleftrightarrow> (case jobs_in (at b s) i of None \<Rightarrow> False | Some j \<Rightarrow> State j = StateActive \<and> Owner j = w)" for i
  proof
    assume "holds (at b s) w i"
    with ownsD(4-6) [OF rdb_wf_typed [OF wf], of w i] show "case jobs_in (at b s) i of None \<Rightarrow> False | Some j \<Rightarrow> State j = StateActive \<and> Owner j = w"
      by (auto simp: holds_def)
  next
    assume "case jobs_in (at b s) i of None \<Rightarrow> False | Some j \<Rightarrow> State j = StateActive \<and> Owner j = w"
    then obtain j where "jobs_in (at b s) i = Some j" "State j = StateActive" "Owner j = w" by (auto split: option.splits)
    from owner_holds [OF wf this] show "holds (at b s) w i" by (auto simp: holds_def)
  qed
  from extend_lua_run [where al = "\<lambda>e. True", OF assms(1) wf TrueI] obtain s' where
    "extend_lua call [] ([w, itoa (Milliseconds vt), pJob b, pActive b] @ ids) s
      = (Inr (RArr (map RBulk (filter (\<lambda>i. \<not> holds (at b s) w i) ids))), s')" by blast
  moreover have "concat (map (\<lambda>x. case x of RBulk t \<Rightarrow> [t] | _ \<Rightarrow> []) (map RBulk xs)) = xs" for xs by (induction xs) auto
  ultimately show ?thesis using assms(3) h by (simp add: rdb_Extend_def round_trip_def Slice_def del: map_map)
qed

theorem rdb_Extend_lost_witness:
  "fst (rdb_Extend ref_call Delivered demo ''w1'' [''a''] Second demo_end) = Inr []
    \<and> fst (rdb_Extend ref_call Delivered demo ''w2'' [''a''] Second demo_end) = Inr [''a'']"
  using rdb_Extend_lost [OF ref_call_commands demo_end_reach, of Second "''w1''" "[''a'']"]
    rdb_Extend_lost [OF ref_call_commands demo_end_reach, of Second "''w2''" "[''a'']"]
  by (simp add: demo_end_jobs demo_active_def)

lemma due_ids_length: "int (length (due_ids mx n z)) = min (max 0 n) (int (length (filter (\<lambda>(m, sc). sc \<le> mx) z)))"
  by (simp add: due_ids_def in_score_order_def)

lemma due_ids_all: "int (length (filter (\<lambda>(m, sc). sc \<le> mx) z)) \<le> n \<Longrightarrow> map_of z i = Some d \<Longrightarrow> d \<le> mx \<Longrightarrow> i \<in> set (due_ids mx n z)"
proof -
  assume n: "int (length (filter (\<lambda>(m, sc). sc \<le> mx) z)) \<le> n" and d: "map_of z i = Some d" "d \<le> mx"
  have "Due i d \<in> set (map (\<lambda>(m, sc). Due m sc) (filter (\<lambda>(m, sc). sc \<le> mx) z))" using d map_of_SomeD [OF d(1)] by force
  moreover have "in_score_order mx n z = sort (map (\<lambda>(m, sc). Due m sc) (filter (\<lambda>(m, sc). sc \<le> mx) z))"
    using n by (simp add: in_score_order_def)
  ultimately show ?thesis unfolding due_ids_def by force
qed

text \<open>
  C21. Reaping a queue in Redis acts on as many expired leases as there are, up to the limit, and reports that
  number; when the limit suffices, no job of the queue is left active past its deadline. Every job it acts on
  moves as the lifecycle allows, back to its ready list or, with its attempts used up, to the dead letters.
\<close>

theorem rdb_ReapDetail_functional:
  assumes rc: "redis_commands call" and "rdb_reach call b s" and "0 < clock_ms s" and "0 < limit"
    and z: "as_zset (at b s (KActive q)) = Some z"
  shows "\<exists>r d s'. rdb_ReapDetail call Delivered b q limit s = (Inr (r, d), s')
    \<and> r + d = min limit (int (length (filter (\<lambda>(i, dl). dl \<le> clock_ms s) z)))
    \<and> (int (length (filter (\<lambda>(i, dl). dl \<le> clock_ms s) z)) \<le> limit \<longrightarrow>
        (\<forall>i dl. scores (KActive q) (at b s' (KActive q)) i = Some dl \<longrightarrow> clock_ms s < dl))
    \<and> (\<exists>es. lrun (jobs_in (at b s)) es (jobs_in (at b s'))
        \<and> (\<forall>e \<in> set es. \<exists>i. e = Recovered i (timeFromMs (clock_ms s)) \<or> e = Orphaned i (timeFromMs (clock_ms s))))"
proof -
  have wf: "rdb_wf (at b s)" by (rule rdb_reach_wf [OF assms(1,2)])
  let ?al = "\<lambda>e. \<exists>i. e = Recovered i (timeFromMs (clock_ms s)) \<or> e = Orphaned i (timeFromMs (clock_ms s))"
  have "\<exists>c s' z'. reap_lua call [kActive b q, kDead b, kQueue b q, kFailed b] [itoa limit, pJob b] s = (Inr (RArr [RInt (fst c), RInt (snd c)]), s')
      \<and> rsim b ?al [] s s' \<and> fst c + snd c = int (length (due_ids (clock_ms s) limit z))
      \<and> as_zset (at b s' (KActive q)) = Some z' \<and> map_of z' = map_of z |` (- set (due_ids (clock_ms s) limit z)) \<and> clock_ms s' = clock_ms s"
    by (rule reap_lua_run [OF rc wf z assms(3)]) auto
  then obtain c s' z' where run: "reap_lua call [kActive b q, kDead b, kQueue b q, kFailed b] [itoa limit, pJob b] s = (Inr (RArr [RInt (fst c), RInt (snd c)]), s')"
    and sim: "rsim b ?al [] s s'" and n: "fst c + snd c = int (length (due_ids (clock_ms s) limit z))"
    and z': "as_zset (at b s' (KActive q)) = Some z'" "map_of z' = map_of z |` (- set (due_ids (clock_ms s) limit z))" by blast
  have "rdb_ReapDetail call Delivered b q limit s = (Inr (fst c, snd c), s')"
    using assms(4) run by (simp add: rdb_ReapDetail_def rdb_reap_queue_def round_trip_def Slice_def toInt64_def)
  moreover have "fst c + snd c = min limit (int (length (filter (\<lambda>(i, dl). dl \<le> clock_ms s) z)))"
    using n assms(4) due_ids_length [of "clock_ms s" limit z] by simp
  moreover have "clock_ms s < dl" if "int (length (filter (\<lambda>(i, dl). dl \<le> clock_ms s) z)) \<le> limit"
    "scores (KActive q) (at b s' (KActive q)) i = Some dl" for i dl
  proof (rule ccontr)
    assume "\<not> clock_ms s < dl"
    with that z' due_ids_all [OF that(1), of i dl] show False by (auto simp: restrict_map_def split: if_splits)
  qed
  moreover have "\<exists>es. lrun (jobs_in (at b s)) es (jobs_in (at b s')) \<and> (\<forall>e \<in> set es. ?al e)" using sim unfolding simulates_def by blast
  ultimately show ?thesis by blast
qed

theorem rdb_ReapDetail_functional_witness:
  "\<exists>r d s'. rdb_ReapDetail ref_call Delivered demo ''q'' 10 (set_clock (40, 0) demo_end) = (Inr (r, d), s') \<and> r + d = 1
    \<and> (\<forall>i dl. scores (KActive ''q'') (at demo s' (KActive ''q'')) i = Some dl \<longrightarrow> 40000 < dl)"
proof -
  have r: "rdb_reach ref_call demo (set_clock (40, 0) demo_end)" by (rule rdb_tick [OF demo_end_reach])
  have z: "as_zset (at demo (set_clock (40, 0) demo_end) (KActive ''q'')) = Some [(''a'', 32000)]" by (simp add: demo_end_at)
  show ?thesis
    using rdb_ReapDetail_functional [OF ref_call_commands r _ _ z, of 10] by (auto simp: ms_of_def)
qed

section \<open>Leases and cron claims\<close>

text \<open>
  A lease in Redis has one holder: in the keyspace in which AcquireLease has granted it, everybody else is
  refused and cannot release it, and neither attempt changes anything; the holder can renew it.
\<close>

theorem rdb_lease_exclusive:
  assumes rc: "redis_commands call" and "rdb_reach call b s" and "rdb_AcquireLease call Delivered b n w ttl s = (Inr True, s')"
    and "whole_ms ttl" and "whole_ms ttl'" and "0 < ttl'" and "w' \<noteq> w" and "w' \<noteq> []"
  shows "rdb_AcquireLease call Delivered b n w' ttl' s' = (Inr False, s') \<and> rdb_ReleaseLease call Delivered b n w' s' = (None, s')
    \<and> fst (rdb_AcquireLease call Delivered b n w ttl' s') = Inr True"
proof -
  have wf: "rdb_wf (at b s)" by (rule rdb_reach_wf [OF assms(1,2)])
  have ok: "n \<noteq> []" "w \<noteq> []" "0 < ttl" using assms(3) by (auto simp: rdb_AcquireLease_def split: if_splits)
  then have pos: "0 < Milliseconds ttl" "0 < Milliseconds ttl'" using assms(4-6) by (auto intro: whole_ms_pos)
  note run = lease_acquire_run [OF rc _ pos(1)] lease_acquire_run [OF rc _ pos(2)] lease_release_run [OF rc]
  from assms(3) have s': "s' = put (key_name b (KLease n)) (Some (RStr w)) s"
    using ok run(1) [OF rdb_wf_typed [OF wf], of n w]
    by (auto simp: rdb_AcquireLease_def round_trip_def Int_reply_def split: if_splits)
  have "typed (at b s')" unfolding s' using rdb_wf_typed [OF wf] by simp
  note run' = run(2) [OF this, of n] run(3) [OF this, of n]
  show ?thesis
    using ok assms(6-8) run'
    by (simp add: rdb_AcquireLease_def rdb_ReleaseLease_def round_trip_def Int_reply_def s')
qed

theorem rdb_lease_exclusive_witness:
  "\<exists>s'. rdb_AcquireLease ref_call Delivered demo ''cron'' ''w1'' Second demo_start = (Inr True, s')
    \<and> rdb_AcquireLease ref_call Delivered demo ''cron'' ''w2'' Second s' = (Inr False, s')"
proof -
  have "\<exists>s'. rdb_AcquireLease ref_call Delivered demo ''cron'' ''w1'' Second demo_start = (Inr True, s')"
    using lease_acquire_run [OF ref_call_commands rdb_wf_typed [OF demo_wf], of 1000 "''cron''" "''w1''"]
    by (simp add: rdb_AcquireLease_def round_trip_def Int_reply_def Milliseconds_def at_def demo_start_def)
  then obtain s' where s': "rdb_AcquireLease ref_call Delivered demo ''cron'' ''w1'' Second demo_start = (Inr True, s')" by blast
  from rdb_lease_exclusive [OF ref_call_commands demo_reach s', of Second "''w2''"] s' show ?thesis by (auto simp: whole_ms_def)
qed

text \<open>
  A cron tick is claimed once in Redis: in the keyspace that a winning claim leaves behind, also when its
  reply was lost, a claim of the same tick is refused and changes nothing, whatever next fire time it brings,
  provided that the winner's next fire time is another millisecond.
\<close>

theorem rdb_cron_claimed_once:
  assumes rc: "redis_commands call" and "rdb_reach call b s" and "rdb_ClaimCron call Delivered b i t t' s = (Inr True, s')"
    and "UnixMilli t' \<noteq> UnixMilli t"
  shows "rdb_ClaimCron call Delivered b i t t'' s' = (Inr False, s') \<and> snd (rdb_ClaimCron call (LostReply e) b i t t' s) = s'"
proof -
  obtain z where z: "as_zset (at b s KCron) = Some z" using cron_zset [OF rdb_wf_typed [OF rdb_reach_wf [OF assms(1,2)]]] by blast
  have i: "i \<noteq> []" using assms(3) by (auto simp: rdb_ClaimCron_def)
  from assms(3) have s': "s' = put_zset (key_name b KCron) (AList.update i (UnixMilli t') z) s" "map_of z i = Some (UnixMilli t)"
    using i cron_claim_run [OF rc z, of i "UnixMilli t" "UnixMilli t'"]
    by (auto simp: rdb_ClaimCron_def round_trip_def Int_reply_def split: if_splits)
  have z': "as_zset (at b s' KCron) = Some (AList.update i (UnixMilli t') z)" by (simp add: s'(1))
  have "rdb_ClaimCron call Delivered b i t t'' s' = (Inr False, s')"
    using i assms(4) cron_claim_run [OF rc z', of i "UnixMilli t" "UnixMilli t''"]
    by (simp add: rdb_ClaimCron_def round_trip_def Int_reply_def map_of_upd)
  moreover have "snd (rdb_ClaimCron call (LostReply e) b i t t' s) = s'"
    using i s' cron_claim_run [OF rc z, of i "UnixMilli t" "UnixMilli t'"] by (simp add: rdb_ClaimCron_def round_trip_def Int_reply_def)
  ultimately show ?thesis by blast
qed

theorem rdb_cron_claimed_once_witness:
  "\<exists>s s'. rdb_ClaimCron ref_call Delivered demo ''e'' 0 Minute s = (Inr True, s') \<and> rdb_ClaimCron ref_call Delivered demo ''e'' 0 Hour s' = (Inr False, s')"
proof -
  let ?s = "rexec ref_call demo ((1, 0), RdbScheduleCronIfAbsent Delivered ''e'' 0) demo_start"
  have z: "as_zset (at demo (set_clock (1, 0) demo_start) KCron) = Some []" by (simp add: at_def demo_start_def)
  have r: "rdb_reach ref_call demo ?s" by (rule rdb_step [OF demo_reach]) (simp add: ms_of_def)
  have z': "as_zset (at demo ?s KCron) = Some [(''e'', UnixMilli 0)]"
    using cron_absent_run [OF ref_call_commands z, of "UnixMilli 0" "''e''"] by (simp add: rdb_ScheduleCronIfAbsent_def round_trip_def Int_reply_def)
  have "\<exists>s'. rdb_ClaimCron ref_call Delivered demo ''e'' 0 Minute ?s = (Inr True, s')"
    using cron_claim_run [OF ref_call_commands z', of "''e''" "UnixMilli 0" "UnixMilli Minute"]
    by (simp add: rdb_ClaimCron_def round_trip_def Int_reply_def del: rexec.simps)
  then obtain s' where s': "rdb_ClaimCron ref_call Delivered demo ''e'' 0 Minute ?s = (Inr True, s')" by blast
  have "UnixMilli Minute \<noteq> UnixMilli 0" by (simp add: UnixMilli_def)
  from rdb_cron_claimed_once [OF ref_call_commands r s' this] s' show ?thesis by blast
qed

end
