(* ===== verification/Redis_Client.thy ===== *)
theory Redis_Client
  imports Client Redis_Props
begin

text \<open>
  The producer on the Redis broker: Enqueue of src/internal/rdb/enqueue.go fulfils the contract \<open>job_sink\<close> that
  the client of src/client.go relies on, as the in-process broker does.
\<close>

section \<open>Enqueue as the client sees it\<close>

definition rdb_enqueue :: "redis \<Rightarrow> conn \<Rightarrow> rdb \<Rightarrow> string \<Rightarrow> time \<Rightarrow> job \<Rightarrow> keyspace \<Rightarrow> error option \<times> job \<times> keyspace" where
  "rdb_enqueue call conn b newID now j s = (case rdb_Enqueue call conn b newID now (Some j) s of (e, jo, s') \<Rightarrow> (e, the jo, s'))"

text \<open>The stored form of a job that is enqueued in keyspace \<open>s\<close>: counters at zero, times to the millisecond.\<close>

definition rdb_kept :: "job \<Rightarrow> keyspace \<Rightarrow> job" where
  "rdb_kept j s = \<lparr>ID = ID j, Queue = Queue j, Type = Type j, Payload = (if Payload j = Some [] then None else Payload j),
     Attempt = 0, MaxAttempts = MaxAttempts j, Recoveries = 0,
     State = (if clock_ms s < msFromTime (RunAt j) then StateScheduled else StatePending), Owner = [], UniqueKey = UniqueKey j, UniqueTTL = 0,
     LastErr = [], EnqueuedAt = timeFromMs (clock_ms s), RunAt = timeFromMs (msFromTime (RunAt j)), StartedAt = 0, Deadline = 0\<rparr>"

lemma rdb_kept_hash:
  "job_of (enqueued_hash (clock_ms s) (ID j) (Queue j) (Type j) (case Payload j of None \<Rightarrow> [] | Some p \<Rightarrow> p) (MaxAttempts j)
     (msFromTime (RunAt j)) (UniqueKey j)) = rdb_kept j s"
  by (auto simp: enqueued_hash_job rdb_kept_def timeFromMs_def split: option.splits)

lemma rdb_enqueue_stored:
  assumes rc: "redis_commands call" and wf: "rdb_wf (at b s)" and new: "at b s (KJob newID) = None" and "ID j = []"
    and enq: "rdb_enqueue call conn b newID now j s = (None, j', s')"
  shows "ID j' = newID \<and> Type j' = Type j \<and> Payload j' = Payload j \<and> 0 < MaxAttempts j'
    \<and> jobs_in (at b s') = (jobs_in (at b s))(newID \<mapsto> rdb_kept j' s)"
proof -
  define j1 where "j1 = (if ID j = [] then j\<lparr>ID := newID\<rparr> else j)"
  define k where "k = (if MaxAttempts j1 \<le> 0 then j1\<lparr>MaxAttempts := DefaultMaxAttempts\<rparr> else j1)"
  have k: "ID k = newID" "Type k = Type j" "Payload k = Payload j" "0 < MaxAttempts k" using assms(4) by (auto simp: k_def j1_def DefaultMaxAttempts_def)
  obtain keys args where ka: "rdb_enqueue_args b k = (keys, args)" by (cases "rdb_enqueue_args b k")
  obtain r t where rt: "round_trip conn (enqueue_lua call keys args) s = (r, t)" by (cases "round_trip conn (enqueue_lua call keys args) s")
  obtain x xs st where acc: "Slice r = Inr (x # xs)" "toInt64 x \<noteq> 0" "j' = k\<lparr>State := st\<rparr>" "s' = t"
    using enq unfolding rdb_enqueue_def rdb_Enqueue_def option.case j1_def [symmetric] Let_def k_def [symmetric] ka prod.case rt
    by (auto split: if_splits sum.splits list.splits)
  have "conn = Delivered" using rt acc(1) by (cases conn) (auto simp: round_trip_def Slice_def)
  with rt acc enqueue_args_run [where al = "\<lambda>e. True", OF rc wf _ k(4) ka refl TrueI] new k(1)
  have "job_at (at b s') = (job_at (at b s))(newID \<mapsto> enqueued_hash (clock_ms s) (ID k) (Queue k) (Type k)
      (case Payload k of None \<Rightarrow> [] | Some p \<Rightarrow> p) (MaxAttempts k) (msFromTime (RunAt k)) (UniqueKey k))"
    by (auto simp: round_trip_def Slice_def toInt64_def)
  then have "jobs_in (at b s') = (jobs_in (at b s))(newID \<mapsto> rdb_kept k s)"
    using rdb_kept_hash [of s k] by (auto simp: jobs_in_def fun_eq_iff enqueued_hash_fld)
  with k acc(3) show ?thesis by (simp add: rdb_kept_def)
qed

section \<open>The contract\<close>

lemma set_clock_same: "set_clock (rs_sec s, rs_usec s) s = s"
  by (simp add: set_clock_def)

lemma rdb_enqueue_reach:
  assumes "rdb_reach call b s" and "at b s (KJob newID) = None" and "0 < clock_ms s" and "ID j = []"
  shows "rdb_reach call b (snd (snd (rdb_enqueue call conn b newID now j s)))"
proof -
  have "radmissible b ((rs_sec s, rs_usec s), RdbEnqueue conn newID now j) s" using assms by (simp add: ms_of_def clock_ms_def)
  from rdb_step [OF assms(1) this] show ?thesis by (auto simp: set_clock_same rdb_enqueue_def split: prod.splits)
qed

lemma rdb_job_sink:
  assumes "redis_commands call"
  shows "job_sink (rdb_enqueue call conn b newID now) (\<lambda>s. jobs_in (at b s)) (rdb_reach call b)
    (\<lambda>s. at b s (KJob newID) = None \<and> 0 < clock_ms s) newID rdb_kept"
proof
  fix s s' j j'
  assume s: "rdb_reach call b s" and new: "at b s (KJob newID) = None \<and> 0 < clock_ms s" and ID: "ID j = []"
    and enq: "rdb_enqueue call conn b newID now j s = (None, j', s')"
  from rdb_enqueue_reach [OF s conjunct1 [OF new] conjunct2 [OF new] ID, of conn now] enq
    rdb_enqueue_stored [OF assms rdb_reach_wf [OF assms s] conjunct1 [OF new] ID enq]
  show "rdb_reach call b s' \<and> ID j' = newID \<and> Type j' = Type j \<and> Payload j' = Payload j \<and> 0 < MaxAttempts j'
      \<and> jobs_in (at b s') = (jobs_in (at b s))(newID \<mapsto> rdb_kept j' s)" by simp
qed

interpretation ref_sink: job_sink "rdb_enqueue ref_call conn b newID now" "\<lambda>s. jobs_in (at b s)" "rdb_reach ref_call b"
  "\<lambda>s. at b s (KJob newID) = None \<and> 0 < clock_ms s" newID rdb_kept for conn b newID now
  by (rule rdb_job_sink [OF ref_call_commands])

text \<open>
  C36. A nil error of Client.Enqueue on Redis means that the job is stored, on any server that behaves as
  documented: in a reachable keyspace, with an ID from \<^verbatim>\<open>NewID\<close> that is not in use, the returned job has the task's
  type and payload and a positive number of attempts, and exactly one job is added, this one, unclaimed and
  with no attempt used, scheduled when its time is ahead of the server's clock and pending otherwise. The
  keyspace is again reachable, so the job can only leave by an acknowledgement.
\<close>

theorem rdb_Client_Enqueue_accepted:
  assumes "redis_commands call" and "rdb_reach call b s" and "at b s (KJob newID) = None" and "0 < clock_ms s" and "plain_options opts"
    and "Client_Enqueue (rdb_enqueue call conn b newID now) c (Some t) opts s = (Inr j, s')"
  shows "rdb_reach call b s' \<and> ID j = newID \<and> Type j = task_Type t \<and> Payload j = task_Payload t \<and> 0 < MaxAttempts j
    \<and> jobs_in (at b s') = (jobs_in (at b s))(newID \<mapsto> \<lparr>ID = newID, Queue = Queue j, Type = task_Type t,
        Payload = (if task_Payload t = Some [] then None else task_Payload t), Attempt = 0, MaxAttempts = MaxAttempts j, Recoveries = 0,
        State = (if clock_ms s < msFromTime (RunAt j) then StateScheduled else StatePending), Owner = [], UniqueKey = UniqueKey j,
        UniqueTTL = 0, LastErr = [], EnqueuedAt = timeFromMs (clock_ms s), RunAt = timeFromMs (msFromTime (RunAt j)), StartedAt = 0,
        Deadline = 0\<rparr>)"
  using job_sink.client_accepted [OF rdb_job_sink [OF assms(1)] assms(2) _ assms(5,6)] assms(3,4) by (simp add: rdb_kept_def)

theorem rdb_Client_Enqueue_accepted_witness:
  "\<exists>j s'. Client_Enqueue (rdb_enqueue ref_call Delivered demo ''n'' 0) (NewClient []) (Some \<lparr>task_Type = ''email'', task_Payload = None\<rparr>)
      [] demo_start = (Inr j, s')
    \<and> rdb_reach ref_call demo s' \<and> map_option Type (jobs_in (at demo s') ''n'') = Some ''email''"
proof -
  let ?r = "Client_Enqueue (rdb_enqueue ref_call Delivered demo ''n'' 0) (NewClient []) (Some \<lparr>task_Type = ''email'', task_Payload = None\<rparr>)
      [] demo_start"
  have "map_sum id ID (fst ?r) = Inr ''n''" by code_simp
  then obtain j s' where r: "?r = (Inr j, s')" by (cases ?r; cases "fst ?r") auto
  have "at demo demo_start (KJob ''n'') = None" "0 < clock_ms demo_start" by (simp_all add: at_def demo_start_def clock_ms_def)
  from rdb_Client_Enqueue_accepted [OF ref_call_commands demo_reach this _ r] r show ?thesis by (simp add: plain_options_def)
qed

section \<open>A call that is sent twice\<close>

lemma enqueue_lua_again:
  assumes rc: "redis_commands call" and wf: "rdb_wf (at b s)" and "at b s (KJob i) \<noteq> None" and "ttl \<le> 0" and "run_at \<le> clock_ms s"
  shows "\<exists>s'. enqueue_lua call [kJob b i, kQueue b q, kDelayed b, kQueues b, kUnique b k] [i, q, ty, p, itoa m, itoa run_at, itoa ttl, uk] s
      = (Inr (RArr [RInt 1]), s') \<and> as_list (at b s' (KQueue q)) = Some (the (as_list (at b s (KQueue q))) @ [i])"
proof -
  note ty = rdb_wf_typed [OF wf]
  obtain h where h: "at b s (KJob i) = Some (RHash h)" using typed_job [OF ty, of i] assms(3) by auto
  obtain l where l: "as_list (at b s (KQueue q)) = Some l" using typed_list [OF ty] by blast
  obtain x where x: "as_set (at b s KQueues) = Some x" using ty [unfolded typed_def, rule_format, of KQueues] by auto
  show ?thesis using rc h l x assms(4,5)
    by (simp add: enqueue_lua_def enqueue_store_lua_def key_fold lua_steps rs_keys_at lua_return_def)
qed

lemma snd_rdb_Enqueue:
  assumes "ID j \<noteq> []" "Queue j \<noteq> []" "Type j \<noteq> []" "0 < MaxAttempts j" and "rdb_enqueue_args b j = (keys, args)"
  shows "snd (snd (rdb_Enqueue call conn b newID now (Some j) s)) = (if lost_request conn then s else snd (enqueue_lua call keys args s))"
  unfolding snd_round_trip [symmetric] using assms
  by (cases "round_trip conn (enqueue_lua call keys args) s") (auto simp: rdb_Enqueue_def split: sum.splits list.splits)

text \<open>
  enqueue.lua is not made for being sent twice, which a client library may do when a reply does not arrive. A
  due job without a unique key whose first reply is lost, and that is sent again at time \<open>t\<close> while its hash is
  still there, is accepted again, and is then on the ready list of its queue twice.
\<close>

lemma rdb_Enqueue_resent:
  fixes newID :: string and now :: time and e :: string
  assumes rc: "redis_commands call" and wf: "rdb_wf (at b s)" and j: "ID j \<noteq> []" "Queue j \<noteq> []" "Type j \<noteq> []" "0 < MaxAttempts j"
    and new: "at b s (KJob (ID j)) = None" and key: "UniqueKey j = []" and due: "msFromTime (RunAt j) \<le> clock_ms s" "msFromTime (RunAt j) \<le> ms_of t"
  defines "s1 \<equiv> snd (snd (rdb_Enqueue call (LostReply e) b newID now (Some j) s))"
  shows "fst (rdb_Enqueue call Delivered b newID' now' (Some j) (set_clock t s1)) = None
    \<and> as_list (at b (snd (snd (rdb_Enqueue call Delivered b newID' now' (Some j) (set_clock t s1)))) (KQueue (Queue j)))
      = Some (the (as_list (at b s (KQueue (Queue j)))) @ [ID j, ID j])"
proof -
  have s1: "s1 = snd (snd (rdb_Enqueue call Delivered b newID now (Some j) s))"
    unfolding s1_def by (cases "rdb_enqueue_args b j") (simp add: snd_rdb_Enqueue [OF j])
  note first = rdb_Enqueue_stores [OF rc wf j new _ due(1), of newID now, folded s1]
  have "rdb_wf (at b s1)" using simulates_invar [OF rdb_Enqueue_sim [where al = "\<lambda>e. True", OF rc wf], of j newID Delivered now] j(1) new
    by (simp add: s1)
  then have wf1: "rdb_wf (at b (set_clock t s1))" by simp
  have hash: "at b (set_clock t s1) (KJob (ID j)) \<noteq> None" using first(2) key by (auto simp: job_at_def split: option.splits)
  obtain ttl k where ka: "rdb_enqueue_args b j = ([kJob b (ID j), kQueue b (Queue j), kDelayed b, kQueues b, kUnique b k],
      [ID j, Queue j, Type j, case Payload j of None \<Rightarrow> [] | Some p \<Rightarrow> p, itoa (MaxAttempts j), itoa (msFromTime (RunAt j)), itoa ttl, UniqueKey j])"
    and ttl: "UniqueKey j = [] \<Longrightarrow> ttl \<le> 0" by (rule enqueue_args [of b j]) blast
  have "msFromTime (RunAt j) \<le> clock_ms (set_clock t s1)" using due(2) by simp
  from enqueue_lua_again [where q = "Queue j" and k = k and ty = "Type j" and p = "case Payload j of None \<Rightarrow> [] | Some p \<Rightarrow> p" and m = "MaxAttempts j"
      and uk = "UniqueKey j", OF rc wf1 hash ttl [OF key] this] obtain s2 where
    run: "enqueue_lua call [kJob b (ID j), kQueue b (Queue j), kDelayed b, kQueues b, kUnique b k]
      [ID j, Queue j, Type j, case Payload j of None \<Rightarrow> [] | Some p \<Rightarrow> p, itoa (MaxAttempts j), itoa (msFromTime (RunAt j)), itoa ttl, UniqueKey j]
      (set_clock t s1) = (Inr (RArr [RInt 1]), s2)" "as_list (at b s2 (KQueue (Queue j))) = Some (the (as_list (at b s1 (KQueue (Queue j)))) @ [ID j])"
    by auto
  then show ?thesis using first(3) key j ka by (simp add: rdb_Enqueue_def round_trip_def Slice_def toInt64_def)
qed

end
