(* ===== verification/Spec2Isabelle.thy ===== *)
theory Spec2Isabelle
  imports Memory_Maintenance Memory_Inspect Runtime Redis_Calls Redis_Client
begin

text \<open>
  A verification library for go-dist-task-queue, a distributed job queue with at-least-once delivery.

  \<^bold>\<open>The program.\<close> A producer (src/client.go) hands a job to a broker. A worker (src/server.go, src/worker.go)
  claims jobs under a lease with a deadline, runs the user's handler (src/handler.go) and reports back: Ack,
  Nack with a delay from src/backoff.go, or Kill. Background loops of every worker (src/maintenance.go) renew
  the leases of the jobs in flight, put jobs whose lease has expired back to work, promote delayed jobs that
  are due and send heartbeats. A scheduler elected by a lease (src/scheduler.go) turns cron entries
  (src/cron.go, src/internal/cron) into jobs. There are two brokers behind the interfaces of src/broker.go: one
  in the process (src/internal/memory) and one that keeps its state in Redis and changes it only through Lua
  scripts (src/internal/rdb).

  \<^bold>\<open>Vocabulary.\<close> Prelude has instants, durations and the data structures of Go; Int64 its 64-bit integers;
  Go_Strings what is used of \<^verbatim>\<open>strings\<close>, \<^verbatim>\<open>strconv\<close> and \<^verbatim>\<open>time\<close> on text; Calendar the civil calendar. Job has the
  types of src/job.go, src/errors.go and src/broker.go under their own names.

  \<^bold>\<open>The contract.\<close> Lifecycle is the abstract specification: a labelled transition system on the stored jobs with
  one label per arrow of the transition table. Its lemmas say, once, that steps are legal, that only
  completion and purging drop a job, and that claims are bounded by the attempts. Broker_Interface is the
  locale \<open>lifecycle_broker\<close>: operations that keep an invariant and act on the stored jobs as a run of the
  lifecycle. What clients rely on over whole runs is proved in it, and both brokers are interpretations:
  \<open>mem\<close> in Memory_Exec and \<open>ref\<close> in Redis_Exec, where lemma \<open>rdb_lifecycle_broker\<close> is the same for every
  server that behaves as documented.

  \<^bold>\<open>The in-process broker.\<close> Memory has the record of its state and one definition per method of
  src/internal/memory/memory.go and cron.go. Memory_Wf has the invariant (a job is in exactly the container of
  its state) and that every method keeps it and refines the lifecycle; Memory_Exec packs the methods into one
  type of operations. Memory_Delivery, Memory_Claims, Memory_Maintenance, Memory_Coordination and Memory_Inspect
  have what the methods do and what they promise over runs: no job is lost, hand-outs are bounded, reports are
  fenced on the owner, expired leases are recovered, unique keys, leases and cron ticks exclude, dead letters
  are listed, replayed and purged. Memory_Example is the history that the instances use.

  \<^bold>\<open>The Redis broker.\<close> Redis has the server: its keyspace, the commands that the code sends, and
  \<open>redis_commands\<close>, what their documentation says; the server itself is the parameter \<open>call\<close>. Redis_Scripts has
  the twelve scripts of src/internal/rdb/scripts as programs over these commands, Redis_Broker the Go methods of
  src/internal/rdb with their keys, encodings and reading of replies; a round trip that is lost, before or
  after the script has run, is the argument \<open>conn\<close>. Redis_Server has a concrete server that fulfils
  \<open>redis_commands\<close> and the rules for stepping through a script on any server. Redis_Keys shows that keys of
  different things never collide, which allows the view \<open>at b s\<close> of the keyspace by kind of key; Redis_Wf has
  the invariant on views and the moves of one job that keep it. Redis_Reports (ack, nack, kill, extend),
  Redis_Flow (enqueue, dequeue) and Redis_Sweep (reap, promote) show for each script what it does and that it
  refines the lifecycle. Redis_Exec packs the methods, with lost round trips and expiring keys, into operations
  and proves the contract; Redis_Props and Redis_Calls have the properties: over whole runs the same laws as in
  the process, the round trip of a job through its encoding, and what the single methods answer.

  \<^bold>\<open>Policies.\<close> Backoff: the delays of src/backoff.go never overflow and stay within their bounds, and the loop
  exits. Queues: the selector of src/queues.go tries every queue once per poll, with shares by weight, unless
  the sum of the weights overflows.
  Cron_Next and Cron_Parse: the search of src/internal/cron/cron.go finds the first matching minute, and
  the parser inverts printing and accepts only schedules in range.

  \<^bold>\<open>The runtime.\<close> Client: what a nil error of Enqueue means, proved once in the locale \<open>job_sink\<close>, of which both
  brokers are interpretations (the Redis broker in Redis_Client). Handler and Cron_Entry: dispatch and compiled
  entries. Server: \<^verbatim>\<open>NewServer\<close> yields only well-formed workers, and the pacing of the loops. Worker: the fetch
  loop, the runs and the renewal loop as steps that interleave with each other and with the other users of the
  broker, with invariants by induction over \<open>worker_reach\<close>. Scheduler: a tick fires once, and due ticks fire.
  Runtime: which loops run under which context, and draining.

  \<^bold>\<open>Bounds.\<close> No definition has fuel. Loops are structural, or have a measure: the distance to the search limit
  in \<^verbatim>\<open>Next\<close>, the number of queues left in \<^verbatim>\<open>next\<close>, the text left in \<^verbatim>\<open>ParseDuration\<close>, the distance to the upper
  end in a term of a cron field. The 20 tries per queue in \<open>dequeue_queues\<close> are those of dequeue.lua. The
  doubling loop of the backoff is unrolled by the number of attempts and shown to exit within 63 passes.

  \<^bold>\<open>Assumptions.\<close> Enqueue is given an ID that is not stored, which is what \<^verbatim>\<open>NewID\<close> is for. For the Redis
  broker, positive timeouts are at least a millisecond, the server's clock is after 1970, and only keys that
  the code gave a time to live expire. Random draws, clocks and IDs are arguments. In runs of the in-process
  broker RetryDead is not given an ID twice; a theorem in Memory_Inspect shows why. A round trip runs its script
  at most once. go-redis sends a call again after a network error, by default up to three times; such a call is
  the operation with a lost reply followed by the same operation, and the runs contain that sequence for every
  operation but Enqueue, whose second call repeats a stored ID. Lemma \<open>rdb_Enqueue_resent\<close> in Redis_Client
  shows what happens then: a due job without a unique key is on its ready list twice. The theorems on runs of
  the Redis broker therefore hold as long as no Enqueue is sent again after its script has run.

  \<^bold>\<open>Not modelled.\<close>
  \<^item> Logging, contexts beyond which loop sees which, and wait groups; the schedule of goroutines is the
    free interleaving of their steps. Worker and Scheduler run over the in-process broker.
  \<^item> The width of the counters of a job: Attempt, MaxAttempts and Recoveries are 64-bit in Go and unbounded
    integers here, as are instants and durations. Wrap-around is modelled where the code meets it: in
    Backoff, in the weights of Queues and in the masks of the cron fields.
  \<^item> The Redis server and go-redis (parameters), and the limits of their numbers: counters are 64-bit and
    scores are doubles in Redis, integers here. DueCron on Redis is modelled but, as a mere read, is no operation
    of the runs. The source has no inspector for Redis.
  \<^item> Time zones other than UTC, white space and letter case beyond ASCII, and the floating-point product in
    \<^verbatim>\<open>ParseDuration\<close>, which is a parameter.
  \<^item> src/internal/testutil, which connects tests to a server, and src/examples, demonstration programs whose
    content is flags, output and wiring.
\<close>

end
